(* ===== verification/Prelude.thy ===== *)
theory Prelude
  imports Main "HOL-Library.Char_ord" "HOL-Library.List_Lexorder" "HOL-Library.Word"
    "HOL-Library.Multiset"
begin

text \<open>
  What the components share: the collections of facts that carry the component proofs,
  Go's 64-bit integers, Go strings as byte strings, results with an error branch, and the
  loops over a list that stop at the first error.

  A Go string is a sequence of bytes, so it is HOL's \<open>string\<close>: a \<open>char\<close> is one byte, and
  the order of \<open>List_Lexorder\<close> and \<open>Char_ord\<close> is Go's bytewise \<open><\<close> on strings.
  A fallible Go function \<open>f(...) (T, error)\<close> returns \<open>'e + 't\<close>: \<open>Inl\<close> is the non-nil error.
\<close>

section \<open>Collections of facts\<close>

named_theorems decimal_simps \<open>values and shapes of decimal strings\<close>
named_theorems clock_simps \<open>unfolding of Go's time constants and operations\<close>
named_theorems store_simps \<open>what a Redis command does to the abstract key space\<close>
named_theorems batch_simps \<open>unfolding of the batcher's small operations\<close>
named_theorems scan_simps \<open>unfolding of the scanner's calls and emitted events\<close>

section \<open>64-bit integers\<close>

text \<open>Go's \<open>int64\<close> (and \<open>int\<close>, \<open>time.Duration\<close> on the supported platforms): two's complement.\<close>

definition wrap64 :: "int \<Rightarrow> int" where
  "wrap64 x = sint (word_of_int x :: 64 word)"

definition max_int64 :: int where
  "max_int64 = 9223372036854775807"

definition min_int64 :: int where
  "min_int64 = - 9223372036854775808"

definition int64 :: "int \<Rightarrow> bool" where
  "int64 x \<longleftrightarrow> min_int64 \<le> x \<and> x \<le> max_int64"

lemma wrap64_signed: "wrap64 x = signed_take_bit 63 x"
  unfolding wrap64_def by (transfer) simp

lemma wrap64_mod: "wrap64 x = (x + 2 ^ 63) mod 2 ^ 64 - 2 ^ 63"
  by (simp add: wrap64_signed signed_take_bit_eq_take_bit_shift take_bit_eq_mod)

lemma wrap64_id: "int64 x \<Longrightarrow> wrap64 x = x"
  by (simp add: wrap64_mod int64_def min_int64_def max_int64_def)

lemma int64_wrap64 [simp]: "int64 (wrap64 x)"
proof -
  have "0 \<le> (x + 2 ^ 63) mod 2 ^ 64" "(x + 2 ^ 63) mod 2 ^ 64 < 2 ^ 64"
    by simp_all
  then show ?thesis
    by (simp add: wrap64_mod int64_def min_int64_def max_int64_def)
qed

lemma wrap64_cong: "(wrap64 x - x) mod 2 ^ 64 = 0"
proof -
  have "(wrap64 x - x) mod 2 ^ 64 = ((x + 2 ^ 63) mod 2 ^ 64 - (x + 2 ^ 63)) mod 2 ^ 64"
    by (simp add: wrap64_mod algebra_simps)
  also have "\<dots> = 0"
    by (simp only: mod_diff_left_eq diff_self mod_0)
  finally show ?thesis .
qed

section \<open>Results and loops that stop at the first error\<close>

fun bind_res :: "'e + 'a \<Rightarrow> ('a \<Rightarrow> 'e + 'b) \<Rightarrow> 'e + 'b" where
  "bind_res (Inl e) f = Inl e"
| "bind_res (Inr x) f = f x"

lemma bind_res_Inr_iff: "bind_res r f = Inr y \<longleftrightarrow> (\<exists>x. r = Inr x \<and> f x = Inr y)"
  by (cases r) auto

lemma bind_res_Inl_iff:
  "bind_res r f = Inl e \<longleftrightarrow> r = Inl e \<or> (\<exists>x. r = Inr x \<and> f x = Inl e)"
  by (cases r) auto

fun traverse :: "('a \<Rightarrow> 'e + 'b) \<Rightarrow> 'a list \<Rightarrow> 'e + 'b list" where
  "traverse f [] = Inr []"
| "traverse f (x # xs) = bind_res (f x) (\<lambda>y. bind_res (traverse f xs) (\<lambda>ys. Inr (y # ys)))"

lemma traverse_length: "traverse f xs = Inr ys \<Longrightarrow> length ys = length xs"
  by (induction xs arbitrary: ys) (auto simp: bind_res_Inr_iff)

lemma traverse_Inr_map: "(\<And>x. x \<in> set xs \<Longrightarrow> f x = Inr (g x)) \<Longrightarrow> traverse f xs = Inr (map g xs)"
  by (induction xs) auto

lemma traverse_nth: "traverse f xs = Inr ys \<Longrightarrow> i < length xs \<Longrightarrow> f (xs ! i) = Inr (ys ! i)"
proof (induction xs arbitrary: ys i)
  case (Cons x xs)
  then show ?case by (cases i) (auto simp: bind_res_Inr_iff)
qed simp

lemma traverse_set: "traverse f xs = Inr ys \<Longrightarrow> y \<in> set ys \<Longrightarrow> \<exists>x\<in>set xs. f x = Inr y"
  by (induction xs arbitrary: ys) (auto simp: bind_res_Inr_iff)

lemma traverse_cong:
  "(\<And>x. x \<in> set xs \<Longrightarrow> f x = g x) \<Longrightarrow> traverse f xs = traverse g xs"
  by (induction xs) (auto split: if_splits)

section \<open>Lists\<close>

text \<open>Two lists with a separator that occurs in neither prefix agree piece by piece.\<close>

lemma append_sep_inject:
  assumes "c \<notin> set xs" and "c \<notin> set ys" and "xs @ c # us = ys @ c # vs"
  shows "xs = ys \<and> us = vs"
  using assms
proof (induction xs arbitrary: ys)
  case Nil
  then show ?case by (cases ys) auto
next
  case (Cons x xs)
  then show ?case by (cases ys) auto
qed

lemma sum_list_map_nonneg: "(\<And>x. x \<in> set xs \<Longrightarrow> 0 \<le> f x) \<Longrightarrow> 0 \<le> (\<Sum>x\<leftarrow>xs. f x :: int)"
  by (induction xs) simp_all

text \<open>Fields joined by a separator that occurs in none of them can be read back.\<close>

fun sep_join :: "'a \<Rightarrow> 'a list list \<Rightarrow> 'a list" where
  "sep_join c [] = []"
| "sep_join c [xs] = xs"
| "sep_join c (xs # ys # zs) = xs @ c # sep_join c (ys # zs)"

lemma sep_join_inject:
  assumes "length fs = length gs" and "\<forall>f\<in>set fs. c \<notin> set f" and "\<forall>g\<in>set gs. c \<notin> set g"
    and "sep_join c fs = sep_join c gs"
  shows "fs = gs"
  using assms
proof (induction fs arbitrary: gs rule: induct_list012)
  case (2 x)
  then show ?case by (cases gs) auto
next
  case (3 x y zs)
  then obtain x' y' zs' where gs: "gs = x' # y' # zs'"
    by (metis length_Suc_conv)
  with "3.prems" have "x = x' \<and> sep_join c (y # zs) = sep_join c (y' # zs')"
    by (intro append_sep_inject [of c]) simp_all
  with "3.prems" gs "3.IH"(2) [of "y' # zs'"] show ?case by simp
qed simp

lemma sort_key_perm_inject:
  assumes "mset xs = mset ys" and "inj_on f (set xs)"
  shows "sort_key f xs = sort_key f ys"
  by (rule sort_key_inj_key_eq) (use assms in simp_all)

end
