(* ===== verification/Decimal.thy ===== *)
theory Decimal
  imports Prelude
begin

text \<open>
  Decimal strings. Redis keeps counters and budgets as decimal strings, the Lua scripts of
  \<^verbatim>\<open>internal/redisstore/store.go\<close> and \<^verbatim>\<open>internal/tierer/redis.go\<close> compare and add them as
  strings (a Lua number is a double and would round), and the Go side reads them back with
  \<^verbatim>\<open>strconv.ParseInt\<close>. This theory holds the digits, the three Lua helpers \<open>valid_uint\<close>,
  \<open>add_uint\<close> and \<open>less_or_equal\<close>, Go's \<open>ParseInt(s, 10, 64)\<close> and \<open>FormatInt\<close>, and the lemmas
  that tie the string routines to arithmetic on natural numbers.
\<close>

section \<open>Digits\<close>

definition digit_char :: "nat \<Rightarrow> char" where
  "digit_char d = char_of (48 + d)"

definition digit_val :: "char \<Rightarrow> nat" where
  "digit_val c = of_char c - 48"

definition is_digit :: "char \<Rightarrow> bool" where
  "is_digit c \<longleftrightarrow> 48 \<le> (of_char c :: nat) \<and> (of_char c :: nat) \<le> 57"

abbreviation all_digits :: "string \<Rightarrow> bool" where
  "all_digits s \<equiv> list_all is_digit s"

definition dec_val :: "string \<Rightarrow> nat" where
  "dec_val s = foldl (\<lambda>acc c. 10 * acc + digit_val c) 0 s"

fun dec_nat :: "nat \<Rightarrow> string" where
  "dec_nat n = (if n < 10 then [digit_char n] else dec_nat (n div 10) @ [digit_char (n mod 10)])"

declare dec_nat.simps [simp del]

text \<open>\<open>strconv.FormatInt(x, 10)\<close>, how the Redis client writes an integer argument.\<close>

definition format_int :: "int \<Rightarrow> string" where
  "format_int x = (if x < 0 then CHR ''-'' # dec_nat (nat (- x)) else dec_nat (nat x))"

text \<open>
  \<open>strconv.ParseInt(s, 10, 64)\<close>: an optional sign, one or more digits, and a value that fits;
  \<open>None\<close> is the error return.
\<close>

definition parse_int64 :: "string \<Rightarrow> int option" where
  "parse_int64 s =
     (let (neg, ds) = (case s of [] \<Rightarrow> (False, [])
        | c # cs \<Rightarrow> if c = CHR ''-'' then (True, cs) else if c = CHR ''+'' then (False, cs) else (False, s));
        v = (if neg then - int (dec_val ds) else int (dec_val ds))
      in if ds = [] \<or> \<not> all_digits ds \<or> \<not> int64 v then None else Some v)"

subsection \<open>Digits and values\<close>

lemma digit_val_char [simp]: "d < 10 \<Longrightarrow> digit_val (digit_char d) = d"
  by (simp add: digit_val_def digit_char_def)

lemma is_digit_char [simp]: "d < 10 \<Longrightarrow> is_digit (digit_char d)"
  by (simp add: is_digit_def digit_char_def)

lemma digit_char_val [simp]: "is_digit c \<Longrightarrow> digit_char (digit_val c) = c"
  by (simp add: is_digit_def digit_char_def digit_val_def)

lemma digit_val_less [simp]: "is_digit c \<Longrightarrow> digit_val c < 10"
  unfolding is_digit_def digit_val_def by arith

lemma digit_char_0 [simp]: "digit_char 0 = CHR ''0''"
  unfolding digit_char_def by code_simp

lemma digit_val_0 [simp]: "digit_val CHR ''0'' = 0"
  by (simp add: digit_val_def)

lemma digit_val_le [simp]: "is_digit c \<Longrightarrow> digit_val c \<le> 9"
  using digit_val_less [of c] by arith

lemma digit_val_zero: "is_digit c \<Longrightarrow> digit_val c = 0 \<longleftrightarrow> c = CHR ''0''"
proof
  assume "is_digit c" and "digit_val c = 0"
  then have "c = digit_char 0" by (metis digit_char_val)
  then show "c = CHR ''0''" by simp
qed (simp add: digit_val_def)

lemma digit_char_zero: "d < 10 \<Longrightarrow> digit_char d = CHR ''0'' \<longleftrightarrow> d = 0"
  by (metis digit_val_char digit_val_zero is_digit_char)

lemma digit_le: "is_digit c \<Longrightarrow> is_digit d \<Longrightarrow> c \<le> d \<longleftrightarrow> digit_val c \<le> digit_val d"
  by (auto simp: is_digit_def digit_val_def less_eq_char_def)

lemma digit_less: "is_digit c \<Longrightarrow> is_digit d \<Longrightarrow> c < d \<longleftrightarrow> digit_val c < digit_val d"
  by (auto simp: is_digit_def digit_val_def less_char_def)

lemma digit_eq: "is_digit c \<Longrightarrow> is_digit d \<Longrightarrow> c = d \<longleftrightarrow> digit_val c = digit_val d"
  by (metis digit_char_val)

lemma dec_val_Nil [simp]: "dec_val [] = 0"
  by (simp add: dec_val_def)

lemma dec_val_snoc [simp]: "dec_val (s @ [c]) = 10 * dec_val s + digit_val c"
  by (simp add: dec_val_def)

lemma dec_val_Cons: "dec_val (c # s) = digit_val c * 10 ^ length s + dec_val s"
proof (induction s rule: rev_induct)
  case Nil
  then show ?case by (simp add: dec_val_def)
next
  case (snoc d s)
  have "dec_val (c # s @ [d]) = 10 * dec_val (c # s) + digit_val d"
    using dec_val_snoc [of "c # s" d] by simp
  with snoc show ?case by (simp add: algebra_simps)
qed

lemma dec_val_append: "dec_val (s @ t) = dec_val s * 10 ^ length t + dec_val t"
  by (induction t rule: rev_induct) (simp_all add: algebra_simps flip: append_assoc)

lemma dec_val_less: "all_digits s \<Longrightarrow> dec_val s < 10 ^ length s"
proof (induction s rule: rev_induct)
  case (snoc c s)
  then have "dec_val s + 1 \<le> 10 ^ length s" and "digit_val c < 10" by simp_all
  then have "10 * dec_val s + digit_val c < 10 * (10 ^ length s)" by linarith
  then show ?case by simp
qed simp

lemma dec_nat_0 [simp]: "dec_nat 0 = ''0''"
  by (simp add: dec_nat.simps)

lemma dec_nat_val [simp]: "dec_val (dec_nat n) = n"
  by (induction n rule: dec_nat.induct)
    (subst dec_nat.simps, auto simp: dec_val_def)

lemma dec_nat_digits [simp]: "all_digits (dec_nat n)"
  by (induction n rule: dec_nat.induct) (subst dec_nat.simps, auto)

lemma dec_nat_nonempty [simp]: "dec_nat n \<noteq> []"
  by (subst dec_nat.simps) simp

lemma dec_nat_inject [simp]: "dec_nat m = dec_nat n \<longleftrightarrow> m = n"
  by (metis dec_nat_val)

subsection \<open>Canonical decimals\<close>

text \<open>No sign, no leading zero: what the Lua pattern \<^verbatim>\<open>^[1-9][0-9]*$\<close> or \<^verbatim>\<open>"0"\<close> accepts.\<close>

definition canonical :: "string \<Rightarrow> bool" where
  "canonical s \<longleftrightarrow> s = ''0'' \<or> (s \<noteq> [] \<and> hd s \<noteq> CHR ''0'' \<and> all_digits s)"

lemma digit_zero [simp]: "is_digit CHR ''0''"
  by (simp add: is_digit_def)

lemma canonical_digits: "canonical s \<Longrightarrow> all_digits s \<and> s \<noteq> []"
  by (auto simp: canonical_def)

lemma canonical_lower:
  assumes "s \<noteq> []" and "hd s \<noteq> CHR ''0''" and "all_digits s"
  shows "10 ^ (length s - 1) \<le> dec_val s"
proof (cases s)
  case (Cons c cs)
  with assms have "is_digit c" "c \<noteq> CHR ''0''" by simp_all
  then have "1 \<le> digit_val c" using digit_val_zero [of c] by linarith
  then have "10 ^ length cs \<le> digit_val c * 10 ^ length cs" by simp
  then show ?thesis using Cons by (simp add: dec_val_Cons trans_le_add1)
qed (use assms in simp)

lemma canonical_dec_nat [simp]: "canonical (dec_nat n)"
proof (induction n rule: dec_nat.induct)
  case (1 n)
  show ?case
  proof (cases "n < 10")
    case True
    then show ?thesis
      by (cases "n = 0") (simp_all add: canonical_def dec_nat.simps [of n] digit_char_zero)
  next
    case False
    with 1 have IH: "canonical (dec_nat (n div 10))" by simp
    have "dec_nat (n div 10) \<noteq> ''0''"
    proof
      assume "dec_nat (n div 10) = ''0''"
      then have "dec_val (dec_nat (n div 10)) = dec_val ''0''" by simp
      then have "n div 10 = 0" by (simp add: dec_val_Cons digit_val_def)
      with False show "False" by simp
    qed
    with IH False show ?thesis
      by (auto simp: canonical_def dec_nat.simps [of n])
  qed
qed

lemma dec_nat_of_val [decimal_simps]: "canonical s \<Longrightarrow> dec_nat (dec_val s) = s"
proof (induction s rule: rev_induct)
  case (snoc c s)
  show ?case
  proof (cases "s = []")
    case True
    with snoc.prems have "is_digit c" by (auto simp: canonical_def)
    with True show ?thesis by (simp add: dec_nat.simps dec_val_Cons)
  next
    case False
    with snoc.prems have s: "hd s \<noteq> CHR ''0''" "all_digits s" "is_digit c"
      by (auto simp: canonical_def append_eq_Cons_conv)
    with False have "canonical s" by (simp add: canonical_def)
    moreover have "1 \<le> dec_val s"
      using canonical_lower [OF False s(1,2)] by (metis le_trans one_le_numeral one_le_power)
    ultimately show ?thesis
      using s(3) snoc.IH by (subst dec_nat.simps) simp
  qed
qed (simp add: canonical_def)

lemma canonical_inject: "canonical s \<Longrightarrow> canonical t \<Longrightarrow> dec_val s = dec_val t \<Longrightarrow> s = t"
  by (metis dec_nat_of_val)

lemma canonical_length_less:
  assumes "canonical s" and "canonical t" and "length s < length t"
  shows "dec_val s < dec_val t"
proof -
  have t: "t \<noteq> ''0''" and s1: "length s \<le> length t - 1"
    using assms by (auto simp: canonical_def)
  have "dec_val s < 10 ^ length s"
    using assms(1) canonical_digits dec_val_less by blast
  also have "\<dots> \<le> 10 ^ (length t - 1)"
    using s1 by simp
  also have "\<dots> \<le> dec_val t"
    using assms(2) t canonical_lower by (auto simp: canonical_def)
  finally show ?thesis .
qed

lemma same_length_le:
  "length s = length t \<Longrightarrow> all_digits s \<Longrightarrow> all_digits t \<Longrightarrow> s \<le> t \<longleftrightarrow> dec_val s \<le> dec_val t"
proof (induction s t rule: list_induct2)
  case (Cons c s d t)
  have bs: "dec_val s < 10 ^ length s" and bt: "dec_val t < 10 ^ length s"
    using Cons dec_val_less [of s] dec_val_less [of t] by simp_all
  have "digit_val c < digit_val d \<Longrightarrow> dec_val (c # s) < dec_val (d # t)"
  proof -
    assume "digit_val c < digit_val d"
    then have "(digit_val c + 1) * 10 ^ length s \<le> digit_val d * 10 ^ length s"
      by (intro mult_le_mono1) simp
    then show ?thesis using bs Cons.hyps by (simp add: dec_val_Cons)
  qed
  moreover have "digit_val d < digit_val c \<Longrightarrow> dec_val (d # t) < dec_val (c # s)"
  proof -
    assume "digit_val d < digit_val c"
    then have "(digit_val d + 1) * 10 ^ length s \<le> digit_val c * 10 ^ length s"
      by (intro mult_le_mono1) simp
    then show ?thesis using bt Cons.hyps by (simp add: dec_val_Cons)
  qed
  ultimately show ?case
    using Cons by (cases "digit_val c" "digit_val d" rule: linorder_cases)
      (auto simp: digit_less digit_eq dec_val_Cons)
qed simp

section \<open>The Lua helpers\<close>

definition MAX_INT64 :: string where
  "MAX_INT64 = ''9223372036854775807''"

text \<open>
  \<open>string.match(value, "^[1-9][0-9]*$")\<close>; then the length against the length of the
  maximum, then the strings themselves.
\<close>

fun match_positive :: "string \<Rightarrow> bool" where
  "match_positive [] = False"
| "match_positive (c # cs) = (is_digit c \<and> c \<noteq> CHR ''0'' \<and> all_digits cs)"

definition valid_uint :: "string \<Rightarrow> bool" where
  "valid_uint value =
     (if value = ''0'' then True
      else if \<not> match_positive value then False
      else if length value < length MAX_INT64 then True
      else if length value > length MAX_INT64 then False
      else value \<le> MAX_INT64)"

text \<open>
  The loop of \<open>add_uint\<close> runs from the last character of both strings towards the first, so it
  takes the strings reversed; \<open>carry\<close> and \<open>result\<close> are the loop's own variables.
\<close>

function add_digits :: "string \<Rightarrow> string \<Rightarrow> nat \<Rightarrow> string \<Rightarrow> string" where
  "add_digits l r carry result =
     (if l = [] \<and> r = [] \<and> carry = 0 then result
      else let a = (case l of [] \<Rightarrow> 0 | c # _ \<Rightarrow> digit_val c);
               b = (case r of [] \<Rightarrow> 0 | c # _ \<Rightarrow> digit_val c);
               s = a + b + carry
           in add_digits (tl l) (tl r) (s div 10) (digit_char (s mod 10) # result))"
  by pat_completeness auto
termination
  by (relation "measures [\<lambda>(l, r, c, res). length l + length r, \<lambda>(l, r, c, res). c]")
    (auto simp: Let_def neq_Nil_conv split: list.splits)

declare add_digits.simps [simp del]

definition add_uint :: "string \<Rightarrow> string \<Rightarrow> string option" where
  "add_uint left right =
     (let result = add_digits (rev left) (rev right) 0 ''''
      in if valid_uint result then Some result else None)"

definition less_or_equal :: "string \<Rightarrow> string \<Rightarrow> bool" where
  "less_or_equal left right =
     (if length left \<noteq> length right then length left < length right else left \<le> right)"

subsection \<open>What the helpers compute\<close>

lemma match_positive_iff: "match_positive s \<longleftrightarrow> s \<noteq> [] \<and> hd s \<noteq> CHR ''0'' \<and> all_digits s"
  by (cases s) auto

lemma MAX_INT64_canonical: "canonical MAX_INT64"
  by (simp add: canonical_def MAX_INT64_def is_digit_def)

lemma MAX_INT64_val: "dec_val MAX_INT64 = 9223372036854775807"
  by (simp add: MAX_INT64_def dec_val_def digit_val_def)

lemma less_or_equal_val:
  assumes "canonical l" and "canonical r"
  shows "less_or_equal l r \<longleftrightarrow> dec_val l \<le> dec_val r"
proof (cases "length l" "length r" rule: linorder_cases)
  case less
  then show ?thesis
    using canonical_length_less [OF assms] by (simp add: less_or_equal_def)
next
  case equal
  then show ?thesis
    using same_length_le canonical_digits assms by (simp add: less_or_equal_def)
next
  case greater
  then show ?thesis
    using canonical_length_less [OF assms(2,1)] by (simp add: less_or_equal_def)
qed

lemma valid_uint_iff:
  "valid_uint s \<longleftrightarrow> canonical s \<and> dec_val s \<le> 9223372036854775807"
proof (cases "s = ''0''")
  case True
  then show ?thesis by (simp add: valid_uint_def canonical_def dec_val_Cons digit_val_def)
next
  case False
  then have "valid_uint s \<longleftrightarrow> canonical s \<and> less_or_equal s MAX_INT64"
    by (auto simp: valid_uint_def match_positive_iff canonical_def less_or_equal_def)
  then show ?thesis
    using less_or_equal_val [OF _ MAX_INT64_canonical] MAX_INT64_val by auto
qed

lemma valid_uint_dec_nat: "valid_uint (dec_nat n) \<longleftrightarrow> n \<le> 9223372036854775807"
  by (simp add: valid_uint_iff)

lemma valid_uint_ex: "valid_uint s \<longleftrightarrow> (\<exists>n\<le>9223372036854775807. s = dec_nat n)"
  by (metis dec_nat_of_val valid_uint_dec_nat valid_uint_iff)

lemma add_digits_done [simp]: "add_digits [] [] 0 res = res"
  by (subst add_digits.simps) simp

lemma add_digits_step:
  assumes "l \<noteq> [] \<or> r \<noteq> [] \<or> carry > 0"
    and "s = (case l of [] \<Rightarrow> 0 | c # _ \<Rightarrow> digit_val c) + (case r of [] \<Rightarrow> 0 | c # _ \<Rightarrow> digit_val c) + carry"
  shows "add_digits l r carry res = add_digits (tl l) (tl r) (s div 10) (digit_char (s mod 10) # res)"
proof -
  have "\<not> (l = [] \<and> r = [] \<and> carry = 0)" using assms(1) by auto
  then show ?thesis
    by (subst add_digits.simps, subst if_not_P) (simp_all add: assms(2) Let_def)
qed

lemma digit_shift: "(t::nat) = 10 * u + m \<Longrightarrow> u * 10 ^ Suc n + m * 10 ^ n = t * 10 ^ n"
  by (simp add: algebra_simps)

lemma add_digits_val:
  assumes "all_digits l" and "all_digits r" and "all_digits res" and "carry \<le> 1"
  shows "dec_val (add_digits l r carry res)
           = (dec_val (rev l) + dec_val (rev r) + carry) * 10 ^ length res + dec_val res
       \<and> all_digits (add_digits l r carry res)"
  using assms
proof (induction l r carry res rule: add_digits.induct)
  case (1 l r carry res)
  show ?case
  proof (cases "l = [] \<and> r = [] \<and> carry = 0")
    case True
    then show ?thesis using "1.prems" by simp
  next
    case False
    define a where "a = (case l of [] \<Rightarrow> 0 | c # _ \<Rightarrow> digit_val c)"
    define b where "b = (case r of [] \<Rightarrow> 0 | c # _ \<Rightarrow> digit_val c)"
    define s where "s = a + b + carry"
    have step: "add_digits l r carry res
                  = add_digits (tl l) (tl r) (s div 10) (digit_char (s mod 10) # res)"
      by (rule add_digits_step) (use False in \<open>auto simp: a_def b_def s_def\<close>)
    have "a \<le> 9" and l: "dec_val (rev l) = 10 * dec_val (rev (tl l)) + a"
      using "1.prems" by (auto simp: a_def split: list.splits)
    moreover have "b \<le> 9" and r: "dec_val (rev r) = 10 * dec_val (rev (tl r)) + b"
      using "1.prems" by (auto simp: b_def split: list.splits)
    ultimately have "s div 10 \<le> 1" using "1.prems" by (simp add: s_def)
    moreover have "all_digits (tl l)" "all_digits (tl r)"
      using "1.prems" by (cases l; cases r; simp)+
    ultimately have IH:
      "dec_val (add_digits (tl l) (tl r) (s div 10) (digit_char (s mod 10) # res))
         = (dec_val (rev (tl l)) + dec_val (rev (tl r)) + s div 10) * 10 ^ Suc (length res)
           + (s mod 10 * 10 ^ length res + dec_val res)
       \<and> all_digits (add_digits (tl l) (tl r) (s div 10) (digit_char (s mod 10) # res))"
      using "1.IH" [OF False a_def b_def s_def] "1.prems"(3) by (simp add: dec_val_Cons)
    have "dec_val (rev l) + dec_val (rev r) + carry
            = 10 * (dec_val (rev (tl l)) + dec_val (rev (tl r)) + s div 10) + s mod 10"
      unfolding l r by (simp add: s_def)
    then have "(dec_val (rev (tl l)) + dec_val (rev (tl r)) + s div 10) * 10 ^ Suc (length res)
           + s mod 10 * 10 ^ length res
         = (dec_val (rev l) + dec_val (rev r) + carry) * 10 ^ length res"
      by (rule digit_shift)
    then show ?thesis using IH step by simp
  qed
qed

text \<open>The most significant digit of a sum is zero only where both numbers are.\<close>

lemma add_digits_hd:
  assumes "all_digits l" and "all_digits r"
    and "l \<noteq> [] \<Longrightarrow> last l \<noteq> CHR ''0''" and "r \<noteq> [] \<Longrightarrow> last r \<noteq> CHR ''0''"
    and "l \<noteq> [] \<or> r \<noteq> [] \<or> carry > 0"
  shows "hd (add_digits l r carry res) \<noteq> CHR ''0''"
  using assms
proof (induction l r carry res rule: add_digits.induct)
  case (1 l r carry res)
  define a where "a = (case l of [] \<Rightarrow> 0 | c # _ \<Rightarrow> digit_val c)"
  define b where "b = (case r of [] \<Rightarrow> 0 | c # _ \<Rightarrow> digit_val c)"
  define s where "s = a + b + carry"
  have go: "\<not> (l = [] \<and> r = [] \<and> carry = 0)" using "1.prems"(5) by auto
  then have step: "add_digits l r carry res
                = add_digits (tl l) (tl r) (s div 10) (digit_char (s mod 10) # res)"
    by (intro add_digits_step) (auto simp: a_def b_def s_def)
  show ?case
  proof (cases "tl l \<noteq> [] \<or> tl r \<noteq> [] \<or> s div 10 > 0")
    case True
    have "all_digits (tl l)" "all_digits (tl r)"
      using "1.prems" by (cases l; cases r; simp)+
    moreover have "tl l \<noteq> [] \<Longrightarrow> last (tl l) \<noteq> CHR ''0''" "tl r \<noteq> [] \<Longrightarrow> last (tl r) \<noteq> CHR ''0''"
      using "1.prems" by (cases l; cases r; simp)+
    ultimately show ?thesis
      unfolding step using "1.IH" [OF go a_def b_def s_def] True by simp
  next
    case False
    have "a > 0 \<or> b > 0 \<or> carry > 0"
      using "1.prems" False digit_val_zero
      by (cases l; cases r) (auto simp: a_def b_def)
    then have "s > 0" and "s < 10" using False by (auto simp: s_def)
    then show ?thesis
      unfolding step using False by (simp add: digit_char_zero)
  qed
qed

lemma add_digits_zero_left: "r \<noteq> [] \<Longrightarrow> all_digits r \<Longrightarrow> add_digits ''0'' r 0 [] = add_digits [] r 0 []"
  by (cases r) (auto simp: add_digits_step [OF _ refl])

lemma add_digits_zero_right: "l \<noteq> [] \<Longrightarrow> all_digits l \<Longrightarrow> add_digits l ''0'' 0 [] = add_digits l [] 0 []"
  by (cases l) (auto simp: add_digits_step [OF _ refl])

lemma add_digits_canonical:
  assumes "canonical l" and "canonical r"
  shows "canonical (add_digits (rev l) (rev r) 0 [])"
proof -
  have l: "all_digits (rev l)" "rev l \<noteq> []" and r: "all_digits (rev r)" "rev r \<noteq> []"
    using assms canonical_digits by auto
  have lastl: "l \<noteq> ''0'' \<Longrightarrow> last (rev l) \<noteq> CHR ''0''"
    and lastr: "r \<noteq> ''0'' \<Longrightarrow> last (rev r) \<noteq> CHR ''0''"
    using assms by (auto simp: canonical_def last_rev)
  have digits: "all_digits (add_digits (rev l) (rev r) 0 [])"
    using add_digits_val [of "rev l" "rev r" "[]" 0] l r by simp
  have nonempty: "add_digits (rev l) (rev r) 0 [] \<noteq> []" if "l \<noteq> ''0'' \<or> r \<noteq> ''0''"
  proof
    assume "add_digits (rev l) (rev r) 0 [] = []"
    then have "dec_val l + dec_val r = 0"
      using add_digits_val [of "rev l" "rev r" "[]" 0] l r by simp
    then have "dec_val l = dec_val ''0''" "dec_val r = dec_val ''0''"
      by (simp_all add: dec_val_Cons digit_val_def)
    moreover have "canonical ''0''" by (simp add: canonical_def)
    ultimately have "l = ''0''" and "r = ''0''"
      using assms canonical_inject by blast+
    then show False using that by simp
  qed
  show ?thesis
  proof (cases "l = ''0''"; cases "r = ''0''")
    assume "l = ''0''" "r = ''0''"
    then show ?thesis
      by (simp add: canonical_def add_digits_zero_left [of "''0''"] add_digits_step [of "[]" "''0''" 0 0 "[]"])
  next
    assume "l = ''0''" "r \<noteq> ''0''"
    then have "hd (add_digits (rev l) (rev r) 0 []) \<noteq> CHR ''0''"
      using add_digits_zero_left [OF r(2,1)] add_digits_hd [of "[]" "rev r" 0 "[]"] r lastr by simp
    then show ?thesis using digits nonempty \<open>r \<noteq> ''0''\<close> by (simp add: canonical_def)
  next
    assume "l \<noteq> ''0''" "r = ''0''"
    then have "hd (add_digits (rev l) (rev r) 0 []) \<noteq> CHR ''0''"
      using add_digits_zero_right [OF l(2,1)] add_digits_hd [of "rev l" "[]" 0 "[]"] l lastl by simp
    then show ?thesis using digits nonempty \<open>l \<noteq> ''0''\<close> by (simp add: canonical_def)
  next
    assume "l \<noteq> ''0''" "r \<noteq> ''0''"
    then have "hd (add_digits (rev l) (rev r) 0 []) \<noteq> CHR ''0''"
      using add_digits_hd [of "rev l" "rev r" 0 "[]"] l r lastl lastr by simp
    then show ?thesis using digits nonempty \<open>l \<noteq> ''0''\<close> by (simp add: canonical_def)
  qed
qed

lemma add_uint_eq:
  assumes "canonical l" and "canonical r"
  shows "add_uint l r = (if dec_val l + dec_val r \<le> 9223372036854775807
                         then Some (dec_nat (dec_val l + dec_val r)) else None)"
proof -
  have "all_digits (rev l)" "all_digits (rev r)"
    using assms canonical_digits by auto
  then have v: "dec_val (add_digits (rev l) (rev r) 0 []) = dec_val l + dec_val r"
    using add_digits_val [of "rev l" "rev r" "[]" 0] by simp
  have c: "canonical (add_digits (rev l) (rev r) 0 [])"
    using assms by (rule add_digits_canonical)
  then have "add_digits (rev l) (rev r) 0 [] = dec_nat (dec_val l + dec_val r)"
    using dec_nat_of_val v by metis
  then show ?thesis
    by (simp add: add_uint_def valid_uint_dec_nat)
qed

lemma add_uint_dec_nat [decimal_simps]:
  "add_uint (dec_nat m) (dec_nat n)
     = (if m + n \<le> 9223372036854775807 then Some (dec_nat (m + n)) else None)"
  by (simp add: add_uint_eq)

lemma less_or_equal_dec_nat [decimal_simps]: "less_or_equal (dec_nat m) (dec_nat n) \<longleftrightarrow> m \<le> n"
  by (simp add: less_or_equal_val)

lemma dec_nat_zero_iff [decimal_simps]: "dec_nat n = ''0'' \<longleftrightarrow> n = 0"
proof -
  show ?thesis by (metis dec_nat_0 dec_nat_inject)
qed

section \<open>Reading a decimal back in Go\<close>

lemma hd_dec_nat_digit: "is_digit (hd (dec_nat n))"
  using dec_nat_digits [of n] dec_nat_nonempty [of n] by (cases "dec_nat n") auto

lemma parse_int64_digits:
  assumes "all_digits s" and "s \<noteq> []"
  shows "parse_int64 s = (if int (dec_val s) \<le> max_int64 then Some (int (dec_val s)) else None)"
proof (cases s)
  case (Cons c cs)
  with assms have "is_digit c" by simp
  then have "c \<noteq> CHR ''-''" "c \<noteq> CHR ''+''" by (auto simp: is_digit_def)
  with Cons assms show ?thesis
    by (simp add: parse_int64_def int64_def min_int64_def)
qed (use assms in simp)

lemma parse_int64_dec_nat [decimal_simps]:
  "parse_int64 (dec_nat n) = (if n \<le> 9223372036854775807 then Some (int n) else None)"
  by (simp add: parse_int64_digits max_int64_def)

lemma parse_format_int: "int64 x \<Longrightarrow> parse_int64 (format_int x) = Some x"
proof (cases "x < 0")
  case True
  assume "int64 x"
  with True show ?thesis
    by (simp add: format_int_def parse_int64_def)
next
  case False
  assume "int64 x"
  with False show ?thesis
    by (simp add: format_int_def parse_int64_digits int64_def)
qed

lemma format_int_nat [decimal_simps]: "format_int (int n) = dec_nat n"
  by (simp add: format_int_def)

lemma format_int_valid_uint: "valid_uint (format_int x) \<longleftrightarrow> 0 \<le> x \<and> x \<le> max_int64"
proof (cases "x < 0")
  case True
  then have "\<not> canonical (format_int x)"
    by (auto simp: format_int_def canonical_def is_digit_def)
  with True show ?thesis by (simp add: valid_uint_iff)
next
  case False
  then have "nat x \<le> 9223372036854775807 \<longleftrightarrow> x \<le> max_int64"
    unfolding max_int64_def by linarith
  with False show ?thesis by (simp add: format_int_def valid_uint_dec_nat)
qed

section \<open>Properties\<close>

text \<open>The scripts' digit-by-digit addition of two valid counters is addition: the sum in canonical
  decimal, or nothing when it does not fit a signed 64-bit integer.\<close>

theorem add_uint_adds:
  assumes "valid_uint l" and "valid_uint r"
  shows "add_uint l r = (if dec_val l + dec_val r \<le> 9223372036854775807
                         then Some (dec_nat (dec_val l + dec_val r)) else None)"
  using assms add_uint_eq valid_uint_iff by blast

theorem add_uint_adds_witness: "add_uint ''95'' ''7'' = Some ''102''"
proof -
  have "valid_uint ''95'' \<and> valid_uint ''7''" by code_simp
  moreover have "dec_val ''95'' + dec_val ''7'' = 102 \<and> dec_nat 102 = ''102''" by code_simp
  ultimately show ?thesis using add_uint_adds [of "''95''" "''7''"] by simp
qed

end
