(* ===== verification/Clock.thy ===== *)
theory Clock
  imports Decimal
begin

text \<open>
  Go's \<^verbatim>\<open>time\<close> package, as far as the program uses it. A \<^verbatim>\<open>time.Time\<close> is an instant: the
  number of nanoseconds since the Unix epoch, an unbounded \<open>int\<close> (Go's own range is hundreds of
  billions of years). A \<^verbatim>\<open>time.Duration\<close> is an \<open>int\<close> with \<open>int64\<close> bounds where the source
  computes one; a product such as \<^verbatim>\<open>time.Duration(hours) * time.Hour\<close> wraps, which \<open>hours_duration\<close> writes out.
  The zero \<^verbatim>\<open>Time\<close> is midnight of January 1 of the year 1, and \<^verbatim>\<open>Truncate\<close> rounds down from it.
  The civil date (year, month, day of an instant in UTC) is the proleptic Gregorian one.
\<close>

section \<open>Durations and instants\<close>

type_synonym time = int
type_synonym duration = int

definition Second :: duration where
  "Second = 1000000000"

definition Hour :: duration where
  "Hour = 3600 * Second"

definition Day :: duration where
  "Day = 24 * Hour"

definition zero_time :: time where
  "zero_time = - 719162 * Day"

definition is_zero :: "time \<Rightarrow> bool" where
  "is_zero t \<longleftrightarrow> t = zero_time"

definition truncate_time :: "time \<Rightarrow> duration \<Rightarrow> time" where
  "truncate_time t d = (if d \<le> 0 then t else t - (t - zero_time) mod d)"

definition after :: "time \<Rightarrow> time \<Rightarrow> bool" where
  "after t u \<longleftrightarrow> u < t"

definition unix :: "time \<Rightarrow> int" where
  "unix t = t div Second"

definition nanosecond :: "time \<Rightarrow> int" where
  "nanosecond t = t mod Second"

text \<open>\<^verbatim>\<open>time.Duration(hours) * time.Hour\<close>, a 64-bit product.\<close>

definition hours_duration :: "int \<Rightarrow> duration" where
  "hours_duration hours = wrap64 (hours * Hour)"

definition hour_slot :: "time \<Rightarrow> int" where
  "hour_slot t = t div Hour"

lemmas time_units = Second_def Hour_def Day_def

lemma Hour_pos [simp]: "0 < Hour" and Second_pos [simp]: "0 < Second" and Day_pos [simp]: "0 < Day"
  by (simp_all add: time_units)

lemma units_nonzero [simp]: "Hour \<noteq> 0" "Second \<noteq> 0" "Day \<noteq> 0" "\<not> Hour \<le> 0" "\<not> Second \<le> 0" "\<not> Day \<le> 0"
  by (simp_all add: time_units)

lemma zero_time_hours: "zero_time = - 17259888 * Hour"
  by (simp add: zero_time_def Day_def)

lemma truncate_hour [clock_simps]: "truncate_time t Hour = hour_slot t * Hour"
proof -
  have "(t - zero_time) mod Hour = t mod Hour"
    by (simp add: zero_time_hours)
  then show ?thesis
    by (simp add: truncate_time_def hour_slot_def minus_mod_eq_div_mult)
qed

lemma truncate_second [clock_simps]: "truncate_time t Second = unix t * Second"
proof -
  have "zero_time = - 62135596800 * Second" by (simp add: zero_time_def Day_def Hour_def)
  then have "t - zero_time = t + 62135596800 * Second" by simp
  then have "(t - zero_time) mod Second = t mod Second" by (simp only: mod_mult_self1)
  then show ?thesis by (simp add: truncate_time_def unix_def minus_mod_eq_div_mult)
qed

lemma truncate_day [clock_simps]: "truncate_time t (24 * Hour) = t div Day * Day"
proof -
  have "(t - zero_time) mod Day = t mod Day" by (simp add: zero_time_def)
  then show ?thesis by (simp add: truncate_time_def minus_mod_eq_div_mult flip: Day_def)
qed

lemma truncate_hour_le: "truncate_time t Hour \<le> t" and truncate_hour_gt: "t < truncate_time t Hour + Hour"
proof -
  have "t = hour_slot t * Hour + t mod Hour" by (simp add: hour_slot_def)
  moreover have "0 \<le> t mod Hour" "t mod Hour < Hour" by simp_all
  ultimately show "truncate_time t Hour \<le> t" "t < truncate_time t Hour + Hour"
    unfolding truncate_hour by linarith+
qed

lemma hour_slot_mult [simp]: "hour_slot (n * Hour) = n"
  by (simp add: hour_slot_def)

lemma hour_slot_add_hours [simp]: "hour_slot (t + n * Hour) = hour_slot t + n"
  by (simp add: hour_slot_def)

lemma hour_slot_truncate [simp]: "hour_slot (truncate_time t Hour) = hour_slot t"
  by (simp add: truncate_hour)

lemma hour_slot_mono: "s \<le> t \<Longrightarrow> hour_slot s \<le> hour_slot t"
  by (simp add: hour_slot_def zdiv_mono1)

lemma hours_duration_small: "\<bar>hours\<bar> \<le> 2562047 \<Longrightarrow> hours_duration hours = hours * Hour"
  unfolding hours_duration_def
  by (rule wrap64_id) (simp add: int64_def time_units min_int64_def max_int64_def, linarith)

section \<open>The civil date\<close>

definition leap_year :: "int \<Rightarrow> bool" where
  "leap_year y \<longleftrightarrow> y mod 4 = 0 \<and> (y mod 100 \<noteq> 0 \<or> y mod 400 = 0)"

definition month_lengths :: "int \<Rightarrow> int list" where
  "month_lengths y = [31, if leap_year y then 29 else 28, 31, 30, 31, 30, 31, 31, 30, 31, 30, 31]"

fun month_walk :: "int \<Rightarrow> int list \<Rightarrow> int \<Rightarrow> int \<times> int" where
  "month_walk m [] d = (m, d + 1)"
| "month_walk m (l # ls) d = (if d < l then (m, d + 1) else month_walk (m + 1) ls (d - l))"

text \<open>The year and the day of the year of a day number, by 400, 100, 4 and 1-year cycles.\<close>

definition year_day :: "int \<Rightarrow> int \<times> int" where
  "year_day days =
     (let n = days + 719162; n400 = n div 146097; r400 = n mod 146097;
          n100 = min 3 (r400 div 36524); r100 = r400 - n100 * 36524;
          n4 = r100 div 1461; r4 = r100 mod 1461;
          n1 = min 3 (r4 div 365)
      in (400 * n400 + 100 * n100 + 4 * n4 + n1 + 1, r4 - n1 * 365))"

definition civil_date :: "int \<Rightarrow> int \<times> int \<times> int" where
  "civil_date days = (let (y, yday) = year_day days in (y, month_walk 1 (month_lengths y) yday))"

definition year_of :: "time \<Rightarrow> int" where
  "year_of t = fst (civil_date (t div Day))"

definition month_of :: "time \<Rightarrow> int" where
  "month_of t = fst (snd (civil_date (t div Day)))"

definition day_of :: "time \<Rightarrow> int" where
  "day_of t = snd (snd (civil_date (t div Day)))"

definition hour_of :: "time \<Rightarrow> int" where
  "hour_of t = hour_slot t mod 24"

text \<open>The number of the first day of a year; every day number is that of its year plus its day of the year.\<close>

definition year_start :: "int \<Rightarrow> int" where
  "year_start y = 365 * (y - 1) + (y - 1) div 4 - (y - 1) div 100 + (y - 1) div 400 - 719162"

lemma year_day_start: "year_day days = (y, d) \<Longrightarrow> days = year_start y + d"
proof -
  assume yd: "year_day days = (y, d)"
  define n where "n = days + 719162"
  define r400 where "r400 = n mod 146097"
  define b where "b = min 3 (r400 div 36524)"
  define r100 where "r100 = r400 - b * 36524"
  define r4 where "r4 = r100 mod 1461"
  define c where "c = r100 div 1461"
  define e where "e = min 3 (r4 div 365)"
  define a where "a = n div 146097"
  have "year_day days = (400 * a + 100 * b + 4 * c + e + 1, r4 - e * 365)"
    by (simp only: year_day_def Let_def a_def b_def c_def e_def r4_def r100_def r400_def n_def)
  then have y: "y - 1 = 400 * a + 100 * b + 4 * c + e" and d: "d = r4 - e * 365"
    using yd by simp_all
  have "0 \<le> r400" "r400 < 146097" by (simp_all add: r400_def)
  then have b: "0 \<le> b" "b \<le> 3" and "0 \<le> r100" "r100 < 36525"
    unfolding b_def r100_def min_def by (auto; linarith)+
  then have c: "0 \<le> c" "c \<le> 24" unfolding c_def by linarith+
  have "0 \<le> r4" "r4 < 1461" by (simp_all add: r4_def)
  then have e: "0 \<le> e" "e \<le> 3" unfolding e_def min_def by auto
  have "(y - 1) div 4 = 100 * a + 25 * b + c"
    by (rule int_div_pos_eq [where r = e]) (use b c e in \<open>simp_all add: y\<close>)
  moreover have "(y - 1) div 100 = 4 * a + b"
    by (rule int_div_pos_eq [where r = "4 * c + e"]) (use b c e in \<open>simp_all add: y\<close>)
  moreover have "(y - 1) div 400 = a"
    by (rule int_div_pos_eq [where r = "100 * b + 4 * c + e"]) (use b c e in \<open>simp_all add: y\<close>)
  ultimately have "year_start y = 146097 * a + 36524 * b + 1461 * c + 365 * e - 719162"
    unfolding year_start_def y by simp
  moreover have "n = 146097 * a + r400" by (simp add: a_def r400_def)
  moreover have "r100 = 1461 * c + r4" by (simp add: c_def r4_def)
  ultimately show ?thesis using d by (simp add: n_def r100_def)
qed

lemma month_walk_inject:
  assumes "month_walk m ls d = month_walk m ls d'" and "0 \<le> d" and "0 \<le> d'"
    and "\<forall>l\<in>set ls. 0 \<le> l"
  shows "d = d'"
proof -
  have lower: "m \<le> fst (month_walk m ls d)" for m ls and d :: int
    by (induction m ls d rule: month_walk.induct) auto
  have "month_walk m ls d = month_walk m ls d' \<Longrightarrow> 0 \<le> d \<Longrightarrow> 0 \<le> d' \<Longrightarrow> d = d'"
  proof (induction m ls d arbitrary: d' rule: month_walk.induct)
    case (2 m l ls d)
    have ne: "fst (month_walk (m + 1) ls x) \<noteq> m" for x
      using lower [of "m + 1" ls x] by simp
    show ?case
    proof (cases "d < l"; cases "d' < l")
      assume "\<not> d < l" "\<not> d' < l"
      with 2 show ?thesis by (auto dest: "2.IH")
    next
      assume "d < l" "\<not> d' < l"
      with "2.prems"(1) ne [of "d' - l"] show ?thesis by (metis fst_conv month_walk.simps(2))
    next
      assume "\<not> d < l" "d' < l"
      with "2.prems"(1) ne [of "d - l"] show ?thesis by (metis fst_conv month_walk.simps(2))
    qed (use "2.prems" in auto)
  qed auto
  with assms show ?thesis by blast
qed

lemma year_day_nonneg: "0 \<le> snd (year_day days)"
proof -
  have "min 3 (r div 365) * 365 \<le> r" if "0 \<le> r" for r :: int
    unfolding min_def using that by (auto; linarith)
  then show ?thesis
    by (simp only: year_day_def Let_def snd_conv diff_ge_0_iff_ge pos_mod_sign zero_less_numeral)
qed

lemma civil_date_inject: "civil_date d = civil_date d' \<longleftrightarrow> d = d'"
proof
  assume eq: "civil_date d = civil_date d'"
  obtain y n y' n' where yd: "year_day d = (y, n)" and yd': "year_day d' = (y', n')"
    by (meson surj_pair)
  have y: "y = y'" and w: "month_walk 1 (month_lengths y) n = month_walk 1 (month_lengths y) n'"
    using eq yd yd' by (auto simp: civil_date_def)
  have "n = n'"
  proof (rule month_walk_inject [OF w])
    show "0 \<le> n" "0 \<le> n'"
      using year_day_nonneg [of d] year_day_nonneg [of d'] yd yd' by simp_all
  qed (simp add: month_lengths_def)
  with y yd yd' show "d = d'" using year_day_start by metis
qed simp

text \<open>The date and the hour of day determine the hour, and only the hour.\<close>

lemma day_hour_slot: "t div Day = hour_slot t div 24"
  unfolding Day_def hour_slot_def by (simp add: zdiv_zmult2_eq mult.commute)

lemma date_fields_iff:
  "year_of s = year_of t \<and> month_of s = month_of t \<and> day_of s = day_of t \<and> hour_of s = hour_of t
     \<longleftrightarrow> hour_slot s = hour_slot t"
proof
  assume f: "year_of s = year_of t \<and> month_of s = month_of t \<and> day_of s = day_of t \<and> hour_of s = hour_of t"
  then have "civil_date (s div Day) = civil_date (t div Day)"
    by (simp add: year_of_def month_of_def day_of_def prod_eq_iff)
  then have "hour_slot s div 24 = hour_slot t div 24"
    by (simp add: civil_date_inject day_hour_slot)
  moreover have "hour_slot s mod 24 = hour_slot t mod 24"
    using f by (simp add: hour_of_def)
  ultimately show "hour_slot s = hour_slot t"
    by (metis div_mult_mod_eq)
qed (simp add: year_of_def month_of_def day_of_def hour_of_def day_hour_slot)

section \<open>Formatting the fields\<close>

text \<open>Go's \<open>appendInt(b, x, width)\<close>: a sign, then at least \<open>width\<close> digits.\<close>

definition append_int :: "int \<Rightarrow> nat \<Rightarrow> string" where
  "append_int x width =
     (let ds = dec_nat (nat \<bar>x\<bar>)
      in (if x < 0 then ''-'' else []) @ replicate (width - length ds) CHR ''0'' @ ds)"

text \<open>\<open>t.Format\<close> with the layouts \<open>"2006"\<close>, \<open>"01"\<close>, \<open>"02"\<close>, \<open>"15"\<close> and \<open>"2006:01:02"\<close>.\<close>

definition format_year :: "time \<Rightarrow> string" where
  "format_year t = append_int (year_of t) 4"

definition format_month :: "time \<Rightarrow> string" where
  "format_month t = append_int (month_of t) 2"

definition format_day :: "time \<Rightarrow> string" where
  "format_day t = append_int (day_of t) 2"

definition format_hour :: "time \<Rightarrow> string" where
  "format_hour t = append_int (hour_of t) 2"

definition format_date :: "time \<Rightarrow> string" where
  "format_date t = format_year t @ '':'' @ format_month t @ '':'' @ format_day t"

lemma dec_val_pad [simp]: "dec_val (replicate k CHR ''0'' @ s) = dec_val s"
  by (induction k) (simp_all add: dec_val_Cons)

lemma append_int_chars: "c \<in> set (append_int x w) \<Longrightarrow> is_digit c \<or> c = CHR ''-''"
  using dec_nat_digits [of "nat \<bar>x\<bar>"]
  by (auto simp: append_int_def Let_def list_all_iff split: if_splits)

lemma append_int_no_colon: "CHR '':'' \<notin> set (append_int x w)"
  using append_int_chars by (fastforce simp: is_digit_def)

lemma hd_append_int: "hd (append_int x w) = CHR ''-'' \<longleftrightarrow> x < 0"
proof (cases "x < 0")
  case False
  have "is_digit (hd (replicate k CHR ''0'' @ dec_nat n))" for k n
    by (cases k) (simp_all add: hd_dec_nat_digit)
  moreover have "\<not> is_digit CHR ''-''" by (simp add: is_digit_def)
  ultimately have "hd (replicate k CHR ''0'' @ dec_nat n) \<noteq> CHR ''-''" for k n by metis
  with False show ?thesis by (simp add: append_int_def Let_def)
qed (simp add: append_int_def Let_def)

lemma append_int_inject: "append_int x w = append_int y w \<longleftrightarrow> x = y"
proof
  assume eq: "append_int x w = append_int y w"
  have val: "dec_val (if z < 0 then tl (append_int z w) else append_int z w) = nat \<bar>z\<bar>" for z
    by (simp add: append_int_def Let_def)
  from eq have "x < 0 \<longleftrightarrow> y < 0" using hd_append_int by metis
  with eq have "nat \<bar>x\<bar> = nat \<bar>y\<bar>" using val [of x] val [of y] by (auto split: if_splits)
  with \<open>x < 0 \<longleftrightarrow> y < 0\<close> show "x = y" by linarith
qed simp

lemma format_fields_iff:
  "format_year s = format_year t \<and> format_month s = format_month t \<and>
   format_day s = format_day t \<and> format_hour s = format_hour t
     \<longleftrightarrow> hour_slot s = hour_slot t"
  by (simp add: format_year_def format_month_def format_day_def format_hour_def append_int_inject
      date_fields_iff)

lemma format_date_iff: "format_date s = format_date t \<longleftrightarrow> s div Day = t div Day"
proof
  assume "format_date s = format_date t"
  then have "format_year s = format_year t \<and> format_month s = format_month t \<and> format_day s = format_day t"
    unfolding format_date_def format_year_def format_month_def append_Cons append_Nil
    by (metis append_sep_inject append_int_no_colon)
  then have "civil_date (s div Day) = civil_date (t div Day)"
    by (simp add: format_year_def format_month_def format_day_def append_int_inject
        year_of_def month_of_def day_of_def prod_eq_iff)
  then show "s div Day = t div Day" by (simp add: civil_date_inject)
qed (simp add: format_date_def format_year_def format_month_def format_day_def year_of_def month_of_def day_of_def)

end
