(* ===== verification/Base64.thy ===== *)
theory Base64
  imports Prelude
begin

text \<open>
  Unpadded base64url, Go's \<^verbatim>\<open>base64.RawURLEncoding.EncodeToString\<close>: three bytes become four
  characters of the URL alphabet, a rest of one or two bytes becomes two or three characters.
  \<open>b64_decode\<close> is the inverse on encoded text; the access keys rest on the encoding being
  injective and free of the separator \<^verbatim>\<open>:\<close>.
\<close>

definition alphabet :: string where
  "alphabet = ''ABCDEFGHIJKLMNOPQRSTUVWXYZabcdefghijklmnopqrstuvwxyz0123456789-_''"

definition sextet_char :: "nat \<Rightarrow> char" where
  "sextet_char n = alphabet ! (n mod 64)"

fun sextets :: "nat list \<Rightarrow> nat list" where
  "sextets [] = []"
| "sextets [a] = [a div 4, (a mod 4) * 16]"
| "sextets [a, b] = [a div 4, (a mod 4) * 16 + b div 16, (b mod 16) * 4]"
| "sextets (a # b # c # rest) =
     a div 4 # ((a mod 4) * 16 + b div 16) # ((b mod 16) * 4 + c div 64) # (c mod 64) # sextets rest"

definition b64url :: "string \<Rightarrow> string" where
  "b64url s = map sextet_char (sextets (map of_char s))"

text \<open>The bytes of a group of sextets.\<close>

fun octets :: "nat list \<Rightarrow> nat list" where
  "octets (p # q # r # s # rest) =
     (p * 4 + q div 16) # ((q mod 16) * 16 + r div 4) # ((r mod 4) * 64 + s) # octets rest"
| "octets [p, q, r] = [p * 4 + q div 16, (q mod 16) * 16 + r div 4]"
| "octets [p, q] = [p * 4 + q div 16]"
| "octets _ = []"

fun index_of :: "char \<Rightarrow> string \<Rightarrow> nat" where
  "index_of c [] = 0"
| "index_of c (d # ds) = (if c = d then 0 else Suc (index_of c ds))"

definition b64_decode :: "string \<Rightarrow> string" where
  "b64_decode s = map char_of (octets (map (\<lambda>c. index_of c alphabet) s))"

lemma alphabet_length: "length alphabet = 64"
  by (simp add: alphabet_def)

lemma alphabet_distinct: "distinct alphabet"
  by (simp add: alphabet_def)

lemma index_of_nth: "distinct cs \<Longrightarrow> n < length cs \<Longrightarrow> index_of (cs ! n) cs = n"
proof (induction cs arbitrary: n)
  case (Cons c cs)
  then show ?case by (cases n) auto
qed simp

lemma index_sextet [simp]: "n < 64 \<Longrightarrow> index_of (sextet_char n) alphabet = n"
  by (simp add: sextet_char_def index_of_nth alphabet_distinct alphabet_length)

lemma sextets_small: "\<forall>b\<in>set bs. b < 256 \<Longrightarrow> n \<in> set (sextets bs) \<Longrightarrow> n < 64"
proof (induction bs rule: sextets.induct)
  case (4 a b c rest)
  then have "a < 256" "b < 256" "c < 256" and IH: "n \<in> set (sextets rest) \<Longrightarrow> n < 64" by simp_all
  then have "a div 4 < 64" "(a mod 4) * 16 + b div 16 < 64" "(b mod 16) * 4 + c div 64 < 64" "c mod 64 < 64"
    by linarith+
  with 4(3) IH show ?case by auto
qed auto

lemma octets_sextets: "\<forall>b\<in>set bs. b < 256 \<Longrightarrow> octets (sextets bs) = bs"
proof (induction bs rule: sextets.induct)
  case (2 a)
  have "a div 4 * 4 + a mod 4 * 16 div 16 = a" by simp
  then show ?case by simp
next
  case (3 a b)
  have "(a mod 4 * 16 + b div 16) div 16 = a mod 4" "(a mod 4 * 16 + b div 16) mod 16 = b div 16"
    using 3 by auto
  then show ?case by simp
next
  case (4 a b c rest)
  then have "(a mod 4 * 16 + b div 16) div 16 = a mod 4" "(a mod 4 * 16 + b div 16) mod 16 = b div 16"
    "(b mod 16 * 4 + c div 64) div 4 = b mod 16" "(b mod 16 * 4 + c div 64) mod 4 = c div 64"
    by auto
  with 4 show ?case by simp
qed simp

lemma b64_roundtrip: "b64_decode (b64url s) = s"
proof -
  have bytes: "\<forall>b\<in>set (map of_char s). b < (256::nat)" by auto
  then have "\<forall>n\<in>set (sextets (map of_char s)). index_of (sextet_char n) alphabet = n"
    using sextets_small index_sextet by blast
  then have "map (\<lambda>c. index_of c alphabet) (b64url s) = sextets (map of_char s)"
    by (simp add: b64url_def map_idI)
  then show ?thesis
    using octets_sextets [OF bytes] by (simp add: b64_decode_def o_def)
qed

lemma b64url_inject: "b64url s = b64url t \<longleftrightarrow> s = t"
  by (metis b64_roundtrip)

lemma b64url_alphabet: "c \<in> set (b64url s) \<Longrightarrow> c \<in> set alphabet"
  by (auto simp: b64url_def sextet_char_def alphabet_length)

lemma b64url_no_colon: "CHR '':'' \<notin> set (b64url s)"
proof -
  have "CHR '':'' \<notin> set alphabet" by (simp add: alphabet_def)
  then show ?thesis using b64url_alphabet by blast
qed

end
