(* ===== verification/Contracts.thy ===== *)
theory Contracts
  imports Clock Base64
begin

text \<open>
  \<^verbatim>\<open>internal/contracts/contracts.go\<close>: what the updater and the tierer agree on. The Redis key of
  one object's counter in one hour, the hours of a usage window, the absolute expiry of a
  counter, and the checks of the configured retention and coverage template.

  \<^verbatim>\<open>time.Time.Format\<close> with a layout the operator configures (the coverage template) is the
  parameter \<open>fmt\<close>; the fixed layouts of the access key are those of theory \<open>Clock\<close>.
\<close>

definition Namespace :: string where
  "Namespace = ''cwm-minio-tierer:v1''"

record access =
  BucketName :: string
  ObjectName :: string

datatype contract_error =
    InstanceCharacters
  | EmptyIdentity
  | InBucket contract_error
  | InObject contract_error
  | WindowNotPositive
  | TemplateEmpty
  | TemplateRepeats
  | RetentionNotPositive
  | RetentionNotWholeSeconds
  | WindowsNotPositive
  | RetentionTooShort

section \<open>Identities and keys\<close>

definition instance_char :: "char \<Rightarrow> bool" where
  "instance_char c \<longleftrightarrow>
     (CHR ''A'' \<le> c \<and> c \<le> CHR ''Z'') \<or> (CHR ''a'' \<le> c \<and> c \<le> CHR ''z'') \<or>
     (CHR ''0'' \<le> c \<and> c \<le> CHR ''9'') \<or> c = CHR ''.'' \<or> c = CHR ''_'' \<or> c = CHR ''-''"

definition ValidateInstanceID :: "string \<Rightarrow> contract_error + unit" where
  "ValidateInstanceID instance_id =
     (if instance_id \<noteq> [] \<and> list_all instance_char instance_id then Inr () else Inl InstanceCharacters)"

definition EncodeIdentity :: "string \<Rightarrow> contract_error + string" where
  "EncodeIdentity value = (if value = [] then Inl EmptyIdentity else Inr (b64url value))"

definition AccessKey :: "string \<Rightarrow> string \<Rightarrow> string \<Rightarrow> time \<Rightarrow> contract_error + string" where
  "AccessKey instance_id bucket object hour =
     (case ValidateInstanceID instance_id of
        Inl err \<Rightarrow> Inl err
      | Inr _ \<Rightarrow>
          (case EncodeIdentity bucket of
             Inl err \<Rightarrow> Inl (InBucket err)
           | Inr encodedBucket \<Rightarrow>
               (case EncodeIdentity object of
                  Inl err \<Rightarrow> Inl (InObject err)
                | Inr encodedObject \<Rightarrow>
                    Inr (Namespace @ '':'' @ instance_id @ '':access:'' @ format_year hour @ '':'' @
                         format_month hour @ '':'' @ format_day hour @ '':'' @ format_hour hour @ '':'' @
                         encodedBucket @ '':'' @ encodedObject))))"

section \<open>Windows, coverage, expiry\<close>

definition HourWindow :: "time \<Rightarrow> int \<Rightarrow> bool \<Rightarrow> contract_error + time list" where
  "HourWindow evaluation hours includeCurrent =
     (if hours \<le> 0 then Inl WindowNotPositive
      else let end0 = truncate_time evaluation Hour;
               end1 = (if includeCurrent then end0 + Hour else end0);
               start = end1 + hours_duration (- hours)
           in Inr (map (\<lambda>i. start + hours_duration (int i)) [0..<nat hours]))"

definition coverage_reference :: time where
  "coverage_reference = 11356 * Day + 4 * Hour"

fun no_duplicate_key :: "string list \<Rightarrow> string set \<Rightarrow> bool" where
  "no_duplicate_key [] rendered = True"
| "no_duplicate_key (key # keys) rendered =
     (if key \<in> rendered then False else no_duplicate_key keys (insert key rendered))"

definition ValidateCoverageTemplate ::
    "(string \<Rightarrow> time \<Rightarrow> string) \<Rightarrow> string \<Rightarrow> contract_error + unit" where
  "ValidateCoverageTemplate fmt template =
     (if template = [] then Inl TemplateEmpty
      else if no_duplicate_key
                (map (\<lambda>offset. fmt template (coverage_reference + int offset * Hour)) [0..<24 * 400]) {}
           then Inr () else Inl TemplateRepeats)"

definition CoverageKey :: "(string \<Rightarrow> time \<Rightarrow> string) \<Rightarrow> string \<Rightarrow> time \<Rightarrow> string" where
  "CoverageKey fmt template hour = fmt template hour"

definition CounterExpiry :: "time \<Rightarrow> duration \<Rightarrow> time" where
  "CounterExpiry eventHour retention = truncate_time eventHour Hour + Hour + retention"

definition ValidateCounterRetention :: "duration \<Rightarrow> contract_error + unit" where
  "ValidateCounterRetention retention =
     (if retention \<le> 0 then Inl RetentionNotPositive
      else if retention mod Second \<noteq> 0 then Inl RetentionNotWholeSeconds
      else Inr ())"

definition ValidateRetention :: "duration \<Rightarrow> duration \<Rightarrow> duration \<Rightarrow> contract_error + unit" where
  "ValidateRetention retention lowWindow highWindow =
     (if retention \<le> 0 \<or> lowWindow \<le> 0 \<or> highWindow \<le> 0 then Inl WindowsNotPositive
      else let longest = max lowWindow highWindow
           in if retention \<le> wrap64 (longest + Hour) then Inl RetentionTooShort else Inr ())"

section \<open>The access key identifies one counter\<close>

lemma instance_no_colon: "list_all instance_char s \<Longrightarrow> CHR '':'' \<notin> set s"
  by (auto simp: list_all_iff instance_char_def less_eq_char_def)

lemma AccessKey_Inr_iff:
  "AccessKey i b obj t = Inr k \<longleftrightarrow>
     i \<noteq> [] \<and> list_all instance_char i \<and> b \<noteq> [] \<and> obj \<noteq> [] \<and>
     k = Namespace @ '':'' @ i @ '':access:'' @ format_year t @ '':'' @ format_month t @ '':'' @
         format_day t @ '':'' @ format_hour t @ '':'' @ b64url b @ '':'' @ b64url obj"
  by (auto simp: AccessKey_def ValidateInstanceID_def EncodeIdentity_def)

lemma AccessKey_total:
  "ValidateInstanceID i = Inr () \<Longrightarrow> b \<noteq> [] \<Longrightarrow> obj \<noteq> [] \<Longrightarrow> \<exists>k. AccessKey i b obj t = Inr k"
  by (auto simp: AccessKey_def EncodeIdentity_def)

lemma AccessKey_same_hour: "hour_slot s = hour_slot t \<Longrightarrow> AccessKey i b obj s = AccessKey i b obj t"
proof -
  assume "hour_slot s = hour_slot t"
  then have "format_year s = format_year t" "format_month s = format_month t"
    "format_day s = format_day t" "format_hour s = format_hour t"
    using format_fields_iff [of s t] by blast+
  then show ?thesis by (auto simp: AccessKey_def split: sum.splits)
qed

lemma fields_no_colon:
  "CHR '':'' \<notin> set (format_year t)" "CHR '':'' \<notin> set (format_month t)"
  "CHR '':'' \<notin> set (format_day t)" "CHR '':'' \<notin> set (format_hour t)"
  by (simp_all add: format_year_def format_month_def format_day_def format_hour_def append_int_no_colon)

lemma AccessKey_join:
  assumes "AccessKey i b obj t = Inr k"
  shows "k = Namespace @ CHR '':'' # sep_join (CHR '':'') [i, ''access'', format_year t,
    format_month t, format_day t, format_hour t, b64url b, b64url obj]"
    and "list_all instance_char i"
  using assms by (simp_all add: AccessKey_Inr_iff)

lemma AccessKey_fields_inject:
  assumes "AccessKey i b obj t = Inr k" and "AccessKey i' b' obj' t' = Inr k"
  shows "i = i' \<and> b = b' \<and> obj = obj' \<and> hour_slot t = hour_slot t'"
proof -
  let ?fields = "\<lambda>i b obj t. [i, ''access'', format_year t, format_month t, format_day t,
    format_hour t, b64url b, b64url obj]"
  have "sep_join (CHR '':'') (?fields i b obj t) = sep_join (CHR '':'') (?fields i' b' obj' t')"
    using AccessKey_join(1) [OF assms(1)] AccessKey_join(1) [OF assms(2)]
    by (simp only: same_append_eq list.inject)
  then have "?fields i b obj t = ?fields i' b' obj' t'"
    by (rule sep_join_inject [rotated -1])
      (use AccessKey_join(2) [OF assms(1)] AccessKey_join(2) [OF assms(2)] instance_no_colon in
        \<open>simp_all add: fields_no_colon b64url_no_colon\<close>)
  then show ?thesis
    using format_fields_iff [of t t'] by (simp add: b64url_inject)
qed

section \<open>The hours of a window\<close>

lemma HourWindow_Inl_iff: "HourWindow e hours inc = Inl err \<longleftrightarrow> hours \<le> 0 \<and> err = WindowNotPositive"
  by (auto simp: HourWindow_def Let_def)

lemma HourWindow_eq:
  assumes "0 < hours" and "hours \<le> 2562047"
  shows "HourWindow e hours inc
    = Inr (map (\<lambda>i. (hour_slot e + (if inc then 1 else 0) - hours + int i) * Hour) [0..<nat hours])"
proof -
  have "hours_duration (- hours) = - hours * Hour"
    using hours_duration_small [of "- hours"] assms by simp
  moreover have "hours_duration (int i) = int i * Hour" if "i < nat hours" for i
    using hours_duration_small [of "int i"] assms that by simp
  ultimately show ?thesis
    using assms by (simp add: HourWindow_def Let_def truncate_hour algebra_simps)
qed

lemma HourWindow_length: "HourWindow e hours inc = Inr hs \<Longrightarrow> int (length hs) = hours"
  by (auto simp: HourWindow_def Let_def split: if_splits)

lemma HourWindow_slots:
  assumes "HourWindow e hours inc = Inr hs" and "hours \<le> 2562047"
  shows "h \<in> set hs \<longleftrightarrow> h mod Hour = 0 \<and>
           hour_slot e + (if inc then 1 else 0) - hours \<le> hour_slot h \<and>
           hour_slot h < hour_slot e + (if inc then 1 else 0)"
proof -
  define base where "base = hour_slot e + (if inc then 1 else 0) - hours"
  have pos: "0 < hours" using assms HourWindow_Inl_iff by (metis linorder_not_le sum.distinct(1))
  then have hs: "hs = map (\<lambda>i. (base + int i) * Hour) [0..<nat hours]"
    using assms HourWindow_eq [of hours e inc] by (simp add: base_def)
  show ?thesis
  proof
    assume "h \<in> set hs"
    then show "h mod Hour = 0 \<and> hour_slot e + (if inc then 1 else 0) - hours \<le> hour_slot h \<and>
           hour_slot h < hour_slot e + (if inc then 1 else 0)"
      by (auto simp: hs base_def)
  next
    assume h: "h mod Hour = 0 \<and> hour_slot e + (if inc then 1 else 0) - hours \<le> hour_slot h \<and>
           hour_slot h < hour_slot e + (if inc then 1 else 0)"
    then have "h = (base + int (nat (hour_slot h - base))) * Hour"
      by (simp add: base_def hour_slot_def minus_mod_eq_div_mult [symmetric])
    moreover have "nat (hour_slot h - base) < nat hours"
      using h by (simp add: base_def)
    ultimately show "h \<in> set hs" unfolding hs by (metis (no_types, lifting) atLeastLessThan_iff
        image_eqI list.set_map set_upt zero_le)
  qed
qed

section \<open>Retention outlives the windows\<close>

lemma ValidateRetention_iff:
  assumes "int64 (max low high + Hour)"
  shows "ValidateRetention retention low high = Inr () \<longleftrightarrow>
           0 < retention \<and> 0 < low \<and> 0 < high \<and> max low high + Hour < retention"
  using assms by (auto simp: ValidateRetention_def Let_def wrap64_id not_le)

lemma counter_outlives_window:
  assumes "HourWindow e hours inc = Inr hs" and "hours \<le> 2562047" and "h \<in> set hs"
    and "hours * Hour + Hour < retention"
  shows "e < CounterExpiry h retention"
proof -
  have "hour_slot e - hours \<le> hour_slot h"
    using assms HourWindow_slots by (auto split: if_splits)
  then have "(hour_slot e - hours) * Hour \<le> hour_slot h * Hour" by simp
  moreover have "e < hour_slot e * Hour + Hour"
    using truncate_hour_gt by (simp add: truncate_hour)
  ultimately show ?thesis
    using assms(4) Hour_pos unfolding CounterExpiry_def truncate_hour left_diff_distrib by linarith
qed

section \<open>Properties\<close>

text \<open>C29: an access key names one counter: two accesses share a key exactly when they agree on the
  instance, the bucket, the object and the UTC hour, whatever characters the names hold.\<close>

theorem access_key_identifies_counter:
  assumes "AccessKey i b obj t = Inr k"
  shows "AccessKey i' b' obj' t' = Inr k \<longleftrightarrow> i' = i \<and> b' = b \<and> obj' = obj \<and> hour_slot t' = hour_slot t"
  using AccessKey_fields_inject [OF _ assms, of i' b' obj' t'] AccessKey_same_hour [of t' t i b obj] assms
  by auto

theorem access_key_identifies_counter_witness:
  "AccessKey ''prod-1'' ''photos'' ''2026/a:b'' 0
     = Inr ''cwm-minio-tierer:v1:prod-1:access:1970:01:01:00:cGhvdG9z:MjAyNi9hOmI'' \<and>
   AccessKey ''prod-1'' ''photos'' ''2026/a:b'' Hour
     \<noteq> Inr ''cwm-minio-tierer:v1:prod-1:access:1970:01:01:00:cGhvdG9z:MjAyNi9hOmI''"
proof -
  have k: "AccessKey ''prod-1'' ''photos'' ''2026/a:b'' 0
     = Inr ''cwm-minio-tierer:v1:prod-1:access:1970:01:01:00:cGhvdG9z:MjAyNi9hOmI''"
    by code_simp
  then show ?thesis
    using access_key_identifies_counter [OF k, of "''prod-1''" "''photos''" "''2026/a:b''" Hour]
    by (simp add: hour_slot_def)
qed

text \<open>A window of \<open>hours\<close> hours is exactly that many whole hours, in order, ending before the
  current hour or, when it is included, with it.\<close>

theorem hour_window_exact:
  assumes "0 < hours" and "hours \<le> 2562047"
  shows "\<exists>hs. HourWindow e hours inc = Inr hs \<and> int (length hs) = hours \<and> sorted_wrt (<) hs \<and>
     set hs = {h. h mod Hour = 0 \<and> hour_slot e + (if inc then 1 else 0) - hours \<le> hour_slot h \<and>
                  hour_slot h < hour_slot e + (if inc then 1 else 0)}"
proof -
  obtain hs where hs: "HourWindow e hours inc = Inr hs" and
    eq: "hs = map (\<lambda>i. (hour_slot e + (if inc then 1 else 0) - hours + int i) * Hour) [0..<nat hours]"
    using HourWindow_eq [OF assms] by blast
  have "sorted_wrt (<) hs" unfolding eq by (simp add: sorted_wrt_iff_nth_less)
  moreover have "set hs = {h. h mod Hour = 0 \<and> hour_slot e + (if inc then 1 else 0) - hours \<le> hour_slot h \<and>
                  hour_slot h < hour_slot e + (if inc then 1 else 0)}"
    by (rule set_eqI) (simp only: HourWindow_slots [OF hs assms(2)] mem_Collect_eq)
  ultimately show ?thesis
    by (intro exI [of _ hs] conjI) (rule hs, rule HourWindow_length [OF hs])
qed

theorem hour_window_exact_witness:
  "\<exists>hs. HourWindow (10 * Hour) 3 True = Inr hs \<and> int (length hs) = 3 \<and> sorted_wrt (<) hs"
  using hour_window_exact [of 3 "10 * Hour" True] by auto

text \<open>C32: a retention that passes \<open>ValidateRetention\<close> keeps every counter of a usage window alive at
  any moment the window is read: no counter the evaluation needs has expired.\<close>

theorem counters_outlive_windows:
  assumes "ValidateRetention retention (low * Hour) (high * Hour) = Inr ()"
    and "low \<le> 2562046" and "high \<le> 2562046" and "hours = low \<or> hours = high"
    and "HourWindow e hours inc = Inr hs" and "h \<in> set hs"
  shows "e < CounterExpiry h retention"
proof (rule counter_outlives_window [OF assms(5) _ assms(6)])
  show le: "hours \<le> 2562047" using assms(2,3,4) by auto
  have "0 < low \<and> 0 < high"
    using assms(1) unfolding time_units
    by (auto simp: ValidateRetention_def Let_def zero_less_mult_iff not_le split: if_splits)
  then have "int64 (max (low * Hour) (high * Hour) + Hour)"
    using assms(2,3) by (auto simp: int64_def min_int64_def max_int64_def time_units max_def)
  then have "max (low * Hour) (high * Hour) + Hour < retention"
    using assms(1) ValidateRetention_iff by blast
  then show "hours * Hour + Hour < retention" using assms(4) by auto
qed

theorem counters_outlive_windows_witness: "10 * Hour + 5 < CounterExpiry (8 * Hour) (4 * Hour)"
proof (rule counters_outlive_windows [of _ 2 1 2 "10 * Hour + 5" False "[8 * Hour, 9 * Hour]"])
  show "ValidateRetention (4 * Hour) (2 * Hour) (1 * Hour) = Inr ()" by code_simp
  show "HourWindow (10 * Hour + 5) 2 False = Inr [8 * Hour, 9 * Hour]" by code_simp
qed simp_all

end
