(* ===== verification/Go_Text.thy ===== *)
theory Go_Text
  imports Decimal Clock
begin

text \<open>
  The functions of Go's standard library on text that the configuration and the request decoder call:
  \<^verbatim>\<open>strings.TrimSpace\<close>, \<^verbatim>\<open>strings.Split\<close>, \<^verbatim>\<open>net.SplitHostPort\<close> and \<^verbatim>\<open>time.ParseDuration\<close>. A string is
  the list of its bytes. The one thing left open is the floating-point arithmetic on the fraction of
  a duration, the parameter \<open>frac\<close>.
\<close>

text \<open>What \<^verbatim>\<open>os.LookupEnv\<close> gives, as a map.\<close>

type_synonym env = "string \<Rightarrow> string option"

section \<open>Space\<close>

text \<open>The code points of \<^verbatim>\<open>unicode.IsSpace\<close>, in UTF-8.\<close>

definition ascii_space :: "char \<Rightarrow> bool" where
  "ascii_space c \<longleftrightarrow> c = CHR '' '' \<or> (9 \<le> (of_char c :: nat) \<and> (of_char c :: nat) \<le> 13)"

definition space_runes :: "string list" where
  "space_runes =
     [[CHR 0xC2, CHR 0x85], [CHR 0xC2, CHR 0xA0], [CHR 0xE1, CHR 0x9A, CHR 0x80]] @
     map (\<lambda>c. [CHR 0xE2, CHR 0x80, c])
       [CHR 0x80, CHR 0x81, CHR 0x82, CHR 0x83, CHR 0x84, CHR 0x85, CHR 0x86, CHR 0x87, CHR 0x88, CHR 0x89,
        CHR 0x8A, CHR 0xA8, CHR 0xA9, CHR 0xAF] @
     [[CHR 0xE2, CHR 0x81, CHR 0x9F], [CHR 0xE3, CHR 0x80, CHR 0x80]]"

definition starts_with :: "'a list \<Rightarrow> 'a list \<Rightarrow> bool" where
  "starts_with s p \<longleftrightarrow> take (length p) s = p"

text \<open>The length of the space at the beginning of a string, none being 0.\<close>

definition leading_space :: "string list \<Rightarrow> string \<Rightarrow> nat" where
  "leading_space runes s =
     (case s of
        [] \<Rightarrow> 0
      | c # _ \<Rightarrow> if ascii_space c then 1
                else case find (starts_with s) runes of None \<Rightarrow> 0 | Some r \<Rightarrow> length r)"

function trim_left :: "string list \<Rightarrow> string \<Rightarrow> string" where
  "trim_left runes s =
     (if leading_space runes s = 0 then s else trim_left runes (drop (leading_space runes s) s))"
  by pat_completeness auto
termination
  by (relation "measure (\<lambda>(runes, s). length s)") (auto simp: leading_space_def split: list.splits)

declare trim_left.simps [simp del]

definition TrimSpace :: "string \<Rightarrow> string" where
  "TrimSpace s = rev (trim_left (map rev space_runes) (rev (trim_left space_runes s)))"

section \<open>Splitting\<close>

text \<open>\<^verbatim>\<open>strings.Split\<close> with a separator of one byte.\<close>

fun split_on :: "char \<Rightarrow> string \<Rightarrow> string list" where
  "split_on sep [] = [[]]"
| "split_on sep (c # cs) =
     (if c = sep then [] # split_on sep cs
      else case split_on sep cs of [] \<Rightarrow> [[c]] | part # parts \<Rightarrow> (c # part) # parts)"

lemma split_on_not_Nil [simp]: "split_on sep s \<noteq> []"
  by (induction s) (auto split: list.splits)

lemma split_on_join: "sep_join sep (split_on sep s) = s"
proof (induction s)
  case (Cons c s)
  obtain part parts where p: "split_on sep s = part # parts" by (metis list.exhaust split_on_not_Nil)
  then show ?case using Cons by (cases parts) auto
qed simp

lemma split_on_parts: "part \<in> set (split_on sep s) \<Longrightarrow> sep \<notin> set part"
proof (induction s arbitrary: part)
  case (Cons c s)
  obtain p ps where p: "split_on sep s = p # ps" by (metis list.exhaust split_on_not_Nil)
  then show ?case using Cons by (auto split: if_splits)
qed simp

lemma split_on_fresh: "sep \<notin> set part \<Longrightarrow> split_on sep part = [part]"
  by (induction part) auto

lemma split_on_append: "sep \<notin> set part \<Longrightarrow> split_on sep (part @ sep # s) = part # split_on sep s"
  by (induction part) auto

lemma split_on_sep_join:
  "parts \<noteq> [] \<Longrightarrow> \<forall>part\<in>set parts. sep \<notin> set part \<Longrightarrow> split_on sep (sep_join sep parts) = parts"
  by (induction parts rule: induct_list012) (simp_all add: split_on_fresh split_on_append)

section \<open>Addresses\<close>

definition last_index :: "char \<Rightarrow> string \<Rightarrow> nat option" where
  "last_index c s = (if c \<in> set s then Some (length s - 1 - length (takeWhile (\<lambda>d. d \<noteq> c) (rev s))) else None)"

definition first_index :: "char \<Rightarrow> string \<Rightarrow> nat option" where
  "first_index c s = (if c \<in> set s then Some (length (takeWhile (\<lambda>d. d \<noteq> c) s)) else None)"

definition SplitHostPort :: "string \<Rightarrow> (string \<times> string) option" where
  "SplitHostPort hostport =
     (case last_index CHR '':'' hostport of
        None \<Rightarrow> None
      | Some i \<Rightarrow>
          if hd hostport = CHR ''[''
          then case first_index CHR '']'' hostport of
                 None \<Rightarrow> None
               | Some e \<Rightarrow>
                   if e + 1 \<noteq> i then None
                   else if CHR ''['' \<in> set (drop 1 hostport) \<or> CHR '']'' \<in> set (drop (e + 1) hostport) then None
                   else Some (take (e - 1) (drop 1 hostport), drop (i + 1) hostport)
          else if CHR '':'' \<in> set (take i hostport) then None
          else if CHR ''['' \<in> set hostport \<or> CHR '']'' \<in> set hostport then None
          else Some (take i hostport, drop (i + 1) hostport))"

section \<open>Durations\<close>

text \<open>The digits of a fraction as far as they fit, with the power of ten they are counted in.\<close>

fun leading_fraction :: "string \<Rightarrow> int \<Rightarrow> int \<Rightarrow> bool \<Rightarrow> int \<times> int \<times> string" where
  "leading_fraction [] x scale overflow = (x, scale, [])"
| "leading_fraction (c # cs) x scale overflow =
     (if \<not> is_digit c then (x, scale, c # cs)
      else if overflow \<or> x > max_int64 div 10 \<or> x * 10 + int (digit_val c) > 9223372036854775808
      then leading_fraction cs x scale True
      else leading_fraction cs (x * 10 + int (digit_val c)) (scale * 10) False)"

definition unit_of :: "string \<Rightarrow> int option" where
  "unit_of u = map_of
     [(''ns'', 1), (''us'', 1000), ([CHR 0xC2, CHR 0xB5, CHR ''s''], 1000), ([CHR 0xCE, CHR 0xBC, CHR ''s''], 1000),
      (''ms'', 1000000), (''s'', 1000000000), (''m'', 60000000000), (''h'', 3600000000000)] u"

text \<open>The sums are those of \<^verbatim>\<open>uint64\<close>. One number with its unit: what it adds to the duration, and the rest of the text.\<close>

definition duration_part :: "(int \<Rightarrow> int \<Rightarrow> int \<Rightarrow> int) \<Rightarrow> string \<Rightarrow> (int \<times> string) option" where
  "duration_part frac s =
     (let digits = takeWhile is_digit s;
          v = int (dec_val digits);
          s1 = dropWhile is_digit s;
          point = (s1 \<noteq> [] \<and> hd s1 = CHR ''.'');
          (f, scale, s2) = (if point then leading_fraction (tl s1) 0 1 False else (0, 1, s1));
          post = (point \<and> length s2 \<noteq> length (tl s1));
          u = takeWhile (\<lambda>c. c \<noteq> CHR ''.'' \<and> \<not> is_digit c) s2;
          s3 = drop (length u) s2
      in if v > 9223372036854775808 \<or> (digits = [] \<and> \<not> post) then None
         else case unit_of u of
                None \<Rightarrow> None
              | Some unit \<Rightarrow>
                  if v > 9223372036854775808 div unit then None
                  else let v1 = v * unit + (if f > 0 then frac f scale unit else 0)
                       in if f > 0 \<and> v1 > 9223372036854775808 then None else Some (v1, s3))"

lemma leading_fraction_length: "leading_fraction s x scale o' = (f, sc, s2) \<Longrightarrow> length s2 \<le> length s"
  by (induction s arbitrary: x scale o') (fastforce split: if_splits)+

lemma duration_part_shorter: "duration_part frac s = Some (v, s3) \<Longrightarrow> length s3 < length s"
proof -
  assume run: "duration_part frac s = Some (v, s3)"
  define s1 where "s1 = dropWhile is_digit s"
  obtain f scale s2 where s2: "(if s1 \<noteq> [] \<and> hd s1 = CHR ''.'' then leading_fraction (tl s1) 0 1 False else (0, 1, s1))
      = (f, scale, s2)" by (metis prod_cases3)
  have "length s2 \<le> length (tl s1) \<or> s2 = s1"
    using s2 leading_fraction_length [of "tl s1" 0 1 False f scale s2] by (auto split: if_splits)
  then have len: "length s2 \<le> length s"
    using length_dropWhile_le [of is_digit s] unfolding s1_def by (auto simp: le_diff_conv)
  define u where "u = takeWhile (\<lambda>c. c \<noteq> CHR ''.'' \<and> \<not> is_digit c) s2"
  have "s3 = drop (length u) s2" "unit_of u \<noteq> None"
    using run s2 unfolding duration_part_def s1_def u_def by (auto simp: Let_def split: if_splits option.splits prod.splits)
  moreover have "unit_of [] = None" by (simp add: unit_of_def)
  moreover have "length u \<le> length s2" unfolding u_def by (rule length_takeWhile_le)
  ultimately show ?thesis using len by (cases u) auto
qed

function duration_loop :: "(int \<Rightarrow> int \<Rightarrow> int \<Rightarrow> int) \<Rightarrow> int \<Rightarrow> string \<Rightarrow> int option" where
  "duration_loop frac d s =
     (if s = [] then Some d
      else case duration_part frac s of
             None \<Rightarrow> None
           | Some (v, rest) \<Rightarrow>
               let d1 = (d + v) mod 18446744073709551616
               in if d1 > 9223372036854775808 then None else duration_loop frac d1 rest)"
  by pat_completeness auto
termination
  by (relation "measure (\<lambda>(frac, d, s). length s)") (auto simp: duration_part_shorter)

declare duration_loop.simps [simp del]

definition ParseDuration :: "(int \<Rightarrow> int \<Rightarrow> int \<Rightarrow> int) \<Rightarrow> string \<Rightarrow> duration option" where
  "ParseDuration frac s =
     (let neg = (s \<noteq> [] \<and> hd s = CHR ''-'');
          rest = (if s \<noteq> [] \<and> (hd s = CHR ''-'' \<or> hd s = CHR ''+'') then tl s else s)
      in if rest = ''0'' then Some 0
         else if rest = [] then None
         else case duration_loop frac 0 rest of
                None \<Rightarrow> None
              | Some d \<Rightarrow> if neg then Some (- d) else if d > max_int64 then None else Some d)"

end
