(* ===== verification/Updater_Config.thy ===== *)
theory Updater_Config
  imports Contracts Go_Text
begin

text \<open>
  \<^verbatim>\<open>internal/updater/config.go\<close>: the updater's configuration, read from the environment. The parameter
  \<open>frac\<close> is the floating-point part of \<^verbatim>\<open>time.ParseDuration\<close>. The sums over durations are the
  wrapping ones of \<^verbatim>\<open>int64\<close>, which \<open>worstCaseAcknowledgementTime\<close> guards one by one.
\<close>

section \<open>Values\<close>

datatype updater_error =
    RejectedValue string contract_error
  | MissingDuration string
  | BadDuration string
  | BadBoolean string
  | BadInteger string
  | BadAddress string
  | BadAddressPort string
  | DataLossNotAccepted
  | DuplicateRiskNotAccepted
  | RequestExceedsBatch
  | BatchTimeOverflows
  | BacklogOverflows
  | BudgetOverflows
  | DefaultTimeoutOverflows
  | WriteTimeoutTooShort
  | ShutdownTimeoutTooShort

definition value_or :: "env \<Rightarrow> string \<Rightarrow> string \<Rightarrow> string" where
  "value_or lookup key fallback = (case lookup key of Some raw \<Rightarrow> raw | None \<Rightarrow> fallback)"

definition boolValue :: "env \<Rightarrow> string \<Rightarrow> bool \<Rightarrow> updater_error + bool" where
  "boolValue lookup key fallback =
     (case lookup key of
        None \<Rightarrow> Inr fallback
      | Some raw \<Rightarrow> if raw = ''true'' then Inr True else if raw = ''false'' then Inr False else Inl (BadBoolean key))"

definition intValue :: "env \<Rightarrow> string \<Rightarrow> int \<Rightarrow> int \<Rightarrow> int \<Rightarrow> updater_error + int" where
  "intValue lookup key fallback minimum maximum =
     (case lookup key of
        None \<Rightarrow> Inr fallback
      | Some raw \<Rightarrow>
          (case parse_int64 raw of
             None \<Rightarrow> Inl (BadInteger key)
           | Some parsed \<Rightarrow> if parsed < minimum \<or> parsed > maximum then Inl (BadInteger key) else Inr parsed))"

definition int64Value :: "env \<Rightarrow> string \<Rightarrow> int \<Rightarrow> int \<Rightarrow> int \<Rightarrow> updater_error + int" where
  "int64Value lookup key fallback minimum maximum =
     (case lookup key of
        None \<Rightarrow> Inr fallback
      | Some raw \<Rightarrow>
          (case parse_int64 raw of
             None \<Rightarrow> Inl (BadInteger key)
           | Some parsed \<Rightarrow> if parsed < minimum \<or> parsed > maximum then Inl (BadInteger key) else Inr parsed))"

definition durationValue ::
    "(int \<Rightarrow> int \<Rightarrow> int \<Rightarrow> int) \<Rightarrow> env \<Rightarrow> string \<Rightarrow> string \<Rightarrow> bool \<Rightarrow> updater_error + duration" where
  "durationValue frac lookup key fallback must_set =
     (let raw = (case lookup key of Some v \<Rightarrow> v | None \<Rightarrow> fallback)
      in if must_set \<and> raw = [] then Inl (MissingDuration key)
         else case ParseDuration frac raw of
                None \<Rightarrow> Inl (BadDuration key)
              | Some parsed \<Rightarrow> if parsed \<le> 0 then Inl (BadDuration key) else Inr parsed)"

definition validateAddress :: "string \<Rightarrow> string \<Rightarrow> bool \<Rightarrow> updater_error + unit" where
  "validateAddress key addr allowEmptyHost =
     (if addr = [] \<or> TrimSpace addr \<noteq> addr then Inl (BadAddress key)
      else case SplitHostPort addr of
             None \<Rightarrow> Inl (BadAddress key)
           | Some (host, port) \<Rightarrow>
               if \<not> allowEmptyHost \<and> host = [] then Inl (BadAddress key)
               else case parse_int64 port of
                      None \<Rightarrow> Inl (BadAddressPort key)
                    | Some parsedPort \<Rightarrow>
                        if parsedPort < 1 \<or> parsedPort > 65535 then Inl (BadAddressPort key) else Inr ())"

section \<open>The configuration\<close>

record updater_config =
  U_InstanceID :: string
  U_AccessRetention :: duration
  U_ListenAddress :: string
  U_RedisAddress :: string
  U_RedisUsername :: string
  U_RedisPassword :: string
  U_RedisDB :: int
  U_RedisTLS :: bool
  U_SuccessStatus :: int
  U_FailureStatus :: int
  U_DataLossRisk :: bool
  U_DuplicateRisk :: bool
  U_MaxBodyBytes :: int
  U_MaxRecords :: int
  U_QueueSize :: int
  U_BatchMaxEvents :: int
  U_BatchMaxKeys :: int
  U_BatchMaxWait :: duration
  U_RedisOperationTimeout :: duration
  U_ShutdownTimeout :: duration
  U_ReadHeaderTimeout :: duration
  U_ReadTimeout :: duration
  U_WriteTimeout :: duration
  U_IdleTimeout :: duration
  U_MaxHeaderBytes :: int

definition worstCaseAcknowledgementTime :: "updater_config \<Rightarrow> updater_error + duration" where
  "worstCaseAcknowledgementTime config =
     (let perBatch = wrap64 (U_BatchMaxWait config + U_RedisOperationTimeout config)
      in if perBatch < U_BatchMaxWait config then Inl BatchTimeOverflows
         else let batchCount = wrap64 (U_QueueSize config + 1)
              in if perBatch > max_int64 div batchCount then Inl BacklogOverflows
                 else let backlog = wrap64 (batchCount * perBatch)
                      in if backlog > wrap64 (max_int64 - U_ReadTimeout config) then Inl BudgetOverflows
                         else Inr (wrap64 (U_ReadTimeout config + backlog)))"

definition accept_check :: "bool \<Rightarrow> updater_error \<Rightarrow> updater_error + unit" where
  "accept_check ok err = (if ok then Inr () else Inl err)"

definition rejected :: "string \<Rightarrow> contract_error + 'a \<Rightarrow> updater_error + 'a" where
  "rejected key r = (case r of Inl err \<Rightarrow> Inl (RejectedValue key err) | Inr x \<Rightarrow> Inr x)"

text \<open>The two answers and the risks accepted with them.\<close>

definition load_statuses :: "env \<Rightarrow> updater_error + int \<times> int \<times> bool \<times> bool" where
  "load_statuses lookup =
     bind_res (intValue lookup ''UPDATER_SUCCESS_STATUS'' 200 200 599) (\<lambda>success.
     bind_res (intValue lookup ''UPDATER_FAILURE_STATUS'' 500 200 599) (\<lambda>failure.
     bind_res (boolValue lookup ''UPDATER_ACCEPT_DATA_LOSS'' False) (\<lambda>loss.
     bind_res (boolValue lookup ''UPDATER_ACCEPT_DUPLICATE_RISK'' False) (\<lambda>dup.
     bind_res (accept_check (\<not> (failure < 500 \<and> \<not> loss)) DataLossNotAccepted) (\<lambda>_.
     bind_res (accept_check (\<not> ((success < 200 \<or> success \<ge> 300) \<and> \<not> dup)) DuplicateRiskNotAccepted) (\<lambda>_.
       Inr (success, failure, failure < 500 \<and> loss, (success < 200 \<or> success \<ge> 300) \<and> dup)))))))"

text \<open>The write timeout: the configured one, or the acknowledgement budget and a second.\<close>

definition load_write_timeout ::
    "(int \<Rightarrow> int \<Rightarrow> int \<Rightarrow> int) \<Rightarrow> env \<Rightarrow> duration \<Rightarrow> updater_error + duration" where
  "load_write_timeout frac lookup minimum =
     bind_res
       (if lookup ''UPDATER_WRITE_TIMEOUT'' \<noteq> None then durationValue frac lookup ''UPDATER_WRITE_TIMEOUT'' [] True
        else if minimum > max_int64 - Second then Inl DefaultTimeoutOverflows
        else Inr (wrap64 (minimum + Second)))
       (\<lambda>timeout. bind_res (accept_check (minimum < timeout) WriteTimeoutTooShort) (\<lambda>_. Inr timeout))"

definition LoadConfig_updater :: "(int \<Rightarrow> int \<Rightarrow> int \<Rightarrow> int) \<Rightarrow> env \<Rightarrow> updater_error + updater_config" where
  "LoadConfig_updater frac lookup =
     bind_res (rejected ''INSTANCE_ID'' (ValidateInstanceID (value_or lookup ''INSTANCE_ID'' []))) (\<lambda>_.
     bind_res (durationValue frac lookup ''ACCESS_RETENTION'' [] True) (\<lambda>retention.
     bind_res (rejected ''ACCESS_RETENTION'' (ValidateCounterRetention retention)) (\<lambda>_.
     bind_res (validateAddress ''UPDATER_LISTEN_ADDR'' (value_or lookup ''UPDATER_LISTEN_ADDR'' '':8080'') True) (\<lambda>_.
     bind_res (validateAddress ''REDIS_ADDR'' (value_or lookup ''REDIS_ADDR'' ''127.0.0.1:6379'') False) (\<lambda>_.
     bind_res (intValue lookup ''REDIS_DB'' 0 0 1000000) (\<lambda>db.
     bind_res (boolValue lookup ''REDIS_TLS'' False) (\<lambda>tls.
     bind_res (load_statuses lookup) (\<lambda>(success, failure, loss, dup).
     bind_res (int64Value lookup ''UPDATER_MAX_BODY_BYTES'' 1048576 1 1073741824) (\<lambda>maxBody.
     bind_res (intValue lookup ''UPDATER_MAX_RECORDS'' 1000 1 1000000) (\<lambda>maxRecords.
     bind_res (intValue lookup ''UPDATER_QUEUE_SIZE'' 128 1 1000000) (\<lambda>queueSize.
     bind_res (intValue lookup ''UPDATER_BATCH_MAX_EVENTS'' 5000 1 1000000) (\<lambda>maxEvents.
     bind_res (intValue lookup ''UPDATER_BATCH_MAX_KEYS'' 5000 1 1000000) (\<lambda>maxKeys.
     bind_res (accept_check (\<not> (maxEvents < maxRecords \<or> maxKeys < maxRecords)) RequestExceedsBatch) (\<lambda>_.
     bind_res (durationValue frac lookup ''UPDATER_BATCH_MAX_WAIT'' ''50ms'' False) (\<lambda>maxWait.
     bind_res (durationValue frac lookup ''REDIS_OPERATION_TIMEOUT'' ''5s'' False) (\<lambda>redisTimeout.
     bind_res (durationValue frac lookup ''UPDATER_SHUTDOWN_TIMEOUT'' ''30s'' False) (\<lambda>shutdown.
     bind_res (durationValue frac lookup ''UPDATER_READ_HEADER_TIMEOUT'' ''5s'' False) (\<lambda>readHeader.
     bind_res (durationValue frac lookup ''UPDATER_READ_TIMEOUT'' ''15s'' False) (\<lambda>readTimeout.
     bind_res (durationValue frac lookup ''UPDATER_IDLE_TIMEOUT'' ''60s'' False) (\<lambda>idle.
     bind_res (intValue lookup ''UPDATER_MAX_HEADER_BYTES'' 1048576 1024 16777216) (\<lambda>maxHeader.
     let config = \<lparr>U_InstanceID = value_or lookup ''INSTANCE_ID'' [], U_AccessRetention = retention,
           U_ListenAddress = value_or lookup ''UPDATER_LISTEN_ADDR'' '':8080'',
           U_RedisAddress = value_or lookup ''REDIS_ADDR'' ''127.0.0.1:6379'',
           U_RedisUsername = value_or lookup ''REDIS_USERNAME'' [], U_RedisPassword = value_or lookup ''REDIS_PASSWORD'' [],
           U_RedisDB = db, U_RedisTLS = tls, U_SuccessStatus = success, U_FailureStatus = failure,
           U_DataLossRisk = loss, U_DuplicateRisk = dup, U_MaxBodyBytes = maxBody, U_MaxRecords = maxRecords,
           U_QueueSize = queueSize, U_BatchMaxEvents = maxEvents, U_BatchMaxKeys = maxKeys, U_BatchMaxWait = maxWait,
           U_RedisOperationTimeout = redisTimeout, U_ShutdownTimeout = shutdown, U_ReadHeaderTimeout = readHeader,
           U_ReadTimeout = readTimeout, U_WriteTimeout = 0, U_IdleTimeout = idle, U_MaxHeaderBytes = maxHeader\<rparr>
     in bind_res (worstCaseAcknowledgementTime config) (\<lambda>minimum.
        bind_res (load_write_timeout frac lookup minimum) (\<lambda>timeout.
        bind_res (accept_check (\<not> shutdown < redisTimeout) ShutdownTimeoutTooShort) (\<lambda>_.
          Inr (config\<lparr>U_WriteTimeout := timeout\<rparr>)))))))))))))))))))))))))"

section \<open>What the readers return\<close>

lemma rejected_Inr [simp]: "rejected key r = Inr x \<longleftrightarrow> r = Inr x"
  by (simp add: rejected_def split: sum.splits)

lemma accept_check_Inr [simp]: "accept_check ok err = Inr u \<longleftrightarrow> ok"
  by (simp add: accept_check_def)

lemma intValue_Inr:
  "intValue lookup key fallback minimum maximum = Inr n \<Longrightarrow> minimum \<le> fallback \<Longrightarrow> fallback \<le> maximum \<Longrightarrow>
     minimum \<le> n \<and> n \<le> maximum"
  "int64Value lookup key fallback minimum maximum = Inr n \<Longrightarrow> minimum \<le> fallback \<Longrightarrow> fallback \<le> maximum \<Longrightarrow>
     minimum \<le> n \<and> n \<le> maximum"
  by (auto simp: intValue_def int64Value_def split: option.splits if_splits)

lemma boolValue_Inr: "boolValue lookup key False = Inr b \<Longrightarrow> b \<longleftrightarrow> lookup key = Some ''true''"
  by (auto simp: boolValue_def split: option.splits if_splits)

lemma duration_loop_nonneg: "duration_loop frac d s = Some e \<Longrightarrow> 0 \<le> d \<Longrightarrow> 0 \<le> e"
proof (induction frac d s rule: duration_loop.induct)
  case (1 frac d s)
  show ?case
  proof (cases "s = []")
    case True
    then show ?thesis using "1.prems" by (simp add: duration_loop.simps)
  next
    case False
    then obtain v rest where part: "duration_part frac s = Some (v, rest)"
      using "1.prems"(1) by (subst (asm) duration_loop.simps) (auto split: option.splits)
    then have rest: "\<not> (d + v) mod 18446744073709551616 > 9223372036854775808"
      "duration_loop frac ((d + v) mod 18446744073709551616) rest = Some e"
      using "1.prems"(1) False by (subst (asm) duration_loop.simps, simp add: Let_def split: if_splits)+
    show ?thesis using "1.IH" [OF False part refl refl] rest by simp
  qed
qed

lemma ParseDuration_bound: "ParseDuration frac s = Some d \<Longrightarrow> d \<le> max_int64"
  by (auto simp: ParseDuration_def Let_def max_int64_def dest!: duration_loop_nonneg split: if_splits option.splits)

definition positive_duration :: "duration \<Rightarrow> bool" where
  "positive_duration d \<longleftrightarrow> 0 < d \<and> d \<le> max_int64"

lemma durationValue_Inr: "durationValue frac lookup key fallback must_set = Inr d \<Longrightarrow> positive_duration d"
  by (auto simp: durationValue_def positive_duration_def Let_def dest: ParseDuration_bound split: option.splits if_splits)

lemma int_le_div_iff: "0 < q \<Longrightarrow> n \<le> m div q \<longleftrightarrow> n * q \<le> (m :: int)"
proof
  assume "0 < q" "n \<le> m div q"
  then have "n * q \<le> m div q * q" by (intro mult_right_mono) auto
  also have "\<dots> \<le> m" using \<open>0 < q\<close> pos_mod_sign [of q m] div_mult_mod_eq [of m q] by linarith
  finally show "n * q \<le> m" .
next
  assume "0 < q" "n * q \<le> m"
  then have "n * q div q \<le> m div q" by (intro zdiv_mono1)
  with \<open>0 < q\<close> show "n \<le> m div q" by simp
qed

lemma wrap64_sum:
  assumes "positive_duration a" and "positive_duration b"
  shows "wrap64 (a + b) = (if a + b \<le> max_int64 then a + b else a + b - 18446744073709551616)"
proof (cases "a + b \<le> max_int64")
  case True
  then have "int64 (a + b)" using assms by (simp add: int64_def min_int64_def positive_duration_def)
  then show ?thesis using True by (simp add: wrap64_id)
next
  case False
  define x where "x = a + b + 2 ^ 63 - 2 ^ 64"
  have "0 \<le> x" "x < 2 ^ 64"
    using False assms by (auto simp: positive_duration_def max_int64_def x_def)
  then have "(a + b + 2 ^ 63) mod 2 ^ 64 = x"
    using minus_mod_self2 [of "a + b + 2 ^ 63" "2 ^ 64 :: int"] unfolding x_def [symmetric]
    by (metis mod_pos_pos_trivial)
  then show ?thesis using False by (simp add: wrap64_mod x_def)
qed

text \<open>The budget of a configuration, in unbounded integers.\<close>

definition acknowledgement_budget :: "updater_config \<Rightarrow> int" where
  "acknowledgement_budget c =
     U_ReadTimeout c + (U_QueueSize c + 1) * (U_BatchMaxWait c + U_RedisOperationTimeout c)"

definition timed_config :: "updater_config \<Rightarrow> bool" where
  "timed_config c \<longleftrightarrow> positive_duration (U_BatchMaxWait c) \<and> positive_duration (U_RedisOperationTimeout c) \<and>
     positive_duration (U_ReadTimeout c) \<and> 0 < U_QueueSize c \<and> U_QueueSize c < max_int64"

lemma worst_case_iff:
  assumes "timed_config c"
  shows "worstCaseAcknowledgementTime c = Inr t \<longleftrightarrow> t = acknowledgement_budget c \<and> acknowledgement_budget c \<le> max_int64"
proof -
  define w r q read per where "w = U_BatchMaxWait c" and "r = U_RedisOperationTimeout c" and "q = U_QueueSize c + 1"
    and "read = U_ReadTimeout c" and "per = w + r"
  note names = w_def [symmetric] r_def [symmetric] q_def [symmetric] read_def [symmetric] per_def [symmetric]
  define backlog where "backlog = q * per"
  have budget: "acknowledgement_budget c = read + backlog" by (simp only: acknowledgement_budget_def names backlog_def)
  have t: "positive_duration w" "positive_duration r" "positive_duration read" "1 < q" "q \<le> max_int64"
    using assms by (auto simp: timed_config_def w_def r_def q_def read_def)
  have run: "worstCaseAcknowledgementTime c =
      (if wrap64 per < w then Inl BatchTimeOverflows
       else if wrap64 per > max_int64 div wrap64 q then Inl BacklogOverflows
       else if wrap64 (wrap64 q * wrap64 per) > wrap64 (max_int64 - read) then Inl BudgetOverflows
       else Inr (wrap64 (read + wrap64 (wrap64 q * wrap64 per))))"
    by (simp only: worstCaseAcknowledgementTime_def Let_def names)
  have q: "wrap64 q = q" using t by (intro wrap64_id) (simp add: int64_def min_int64_def)
  have read: "wrap64 (max_int64 - read) = max_int64 - read"
    using t(3) by (intro wrap64_id) (simp add: int64_def min_int64_def positive_duration_def)
  have pos: "0 < per" "0 < read" "w < per" using t by (simp_all add: per_def positive_duration_def)
  then have product: "per \<le> backlog"
    using t(4) mult_right_mono [of 1 q per] by (simp add: backlog_def)
  show ?thesis
  proof (cases "per \<le> max_int64")
    case False
    then have "wrap64 per < w"
      using wrap64_sum [OF t(1,2)] t(2) by (simp add: per_def positive_duration_def max_int64_def)
    then show ?thesis using False product pos by (simp add: run budget)
  next
    case True
    then have w: "wrap64 per = per" using wrap64_sum [OF t(1,2)] by (simp add: per_def)
    have div: "per > max_int64 div q \<longleftrightarrow> max_int64 < backlog"
      using t(4) int_le_div_iff [of q per max_int64] by (simp add: backlog_def mult.commute flip: not_le)
    show ?thesis
    proof (cases "max_int64 < backlog")
      case True
      then show ?thesis using pos w q div by (simp add: run budget)
    next
      case False
      then have b: "wrap64 backlog = backlog"
        using product pos by (intro wrap64_id) (simp add: int64_def min_int64_def)
      have "wrap64 (read + backlog) = read + backlog" if "read + backlog \<le> max_int64"
        using that product pos by (intro wrap64_id) (simp add: int64_def min_int64_def)
      then show ?thesis
        using w q div False read pos b by (auto simp: run budget backlog_def [symmetric])
    qed
  qed
qed

section \<open>Properties\<close>

definition valid_updater :: "updater_config \<Rightarrow> bool" where
  "valid_updater c \<longleftrightarrow>
     ValidateInstanceID (U_InstanceID c) = Inr () \<and> ValidateCounterRetention (U_AccessRetention c) = Inr () \<and>
     positive_duration (U_AccessRetention c) \<and>
     (500 \<le> U_FailureStatus c \<or> U_DataLossRisk c) \<and> (U_SuccessStatus c < 300 \<or> U_DuplicateRisk c) \<and>
     200 \<le> U_SuccessStatus c \<and> U_FailureStatus c \<le> 599 \<and>
     0 < U_MaxBodyBytes c \<and> U_MaxBodyBytes c \<le> 1073741824 \<and>
     0 < U_MaxRecords c \<and> U_MaxRecords c \<le> U_BatchMaxEvents c \<and> U_MaxRecords c \<le> U_BatchMaxKeys c \<and>
     U_BatchMaxEvents c \<le> 1000000 \<and> U_BatchMaxKeys c \<le> 1000000 \<and> 0 < U_QueueSize c \<and> U_QueueSize c \<le> 1000000 \<and>
     acknowledgement_budget c < U_WriteTimeout c \<and> U_WriteTimeout c \<le> max_int64 \<and>
     U_RedisOperationTimeout c \<le> U_ShutdownTimeout c"

lemma budget_WriteTimeout [simp]:
  "acknowledgement_budget (c\<lparr>U_WriteTimeout := t\<rparr>) = acknowledgement_budget c"
  by (simp add: acknowledgement_budget_def)

lemma write_timeout_Inr:
  assumes "load_write_timeout frac lookup minimum = Inr t" and "0 < minimum"
  shows "minimum < t \<and> t \<le> max_int64"
proof -
  have "wrap64 (minimum + Second) = minimum + Second" if "\<not> minimum > max_int64 - Second"
    using that assms(2) by (intro wrap64_id) (simp add: int64_def min_int64_def Second_def)
  then show ?thesis
    using assms by (auto simp: load_write_timeout_def bind_res_Inr_iff positive_duration_def dest: durationValue_Inr split: if_splits)
qed

text \<open>What a run of \<open>LoadConfig_updater\<close> that succeeds has read.\<close>

lemma LoadConfig_updater_reads:
  assumes "LoadConfig_updater frac lookup = Inr c"
  shows "\<exists>u. ValidateInstanceID (U_InstanceID c) = Inr u" "\<exists>u. ValidateCounterRetention (U_AccessRetention c) = Inr u"
    and "positive_duration (U_AccessRetention c)" "positive_duration (U_BatchMaxWait c)"
      "positive_duration (U_RedisOperationTimeout c)" "positive_duration (U_ReadTimeout c)"
    and "load_statuses lookup = Inr (U_SuccessStatus c, U_FailureStatus c, U_DataLossRisk c, U_DuplicateRisk c)"
    and "int64Value lookup ''UPDATER_MAX_BODY_BYTES'' 1048576 1 1073741824 = Inr (U_MaxBodyBytes c)"
      "intValue lookup ''UPDATER_MAX_RECORDS'' 1000 1 1000000 = Inr (U_MaxRecords c)"
      "intValue lookup ''UPDATER_QUEUE_SIZE'' 128 1 1000000 = Inr (U_QueueSize c)"
      "intValue lookup ''UPDATER_BATCH_MAX_EVENTS'' 5000 1 1000000 = Inr (U_BatchMaxEvents c)"
      "intValue lookup ''UPDATER_BATCH_MAX_KEYS'' 5000 1 1000000 = Inr (U_BatchMaxKeys c)"
    and "U_MaxRecords c \<le> U_BatchMaxEvents c" "U_MaxRecords c \<le> U_BatchMaxKeys c"
      "U_RedisOperationTimeout c \<le> U_ShutdownTimeout c"
    and "\<exists>minimum. worstCaseAcknowledgementTime (c\<lparr>U_WriteTimeout := 0\<rparr>) = Inr minimum \<and>
      load_write_timeout frac lookup minimum = Inr (U_WriteTimeout c)"
proof -
  note run = assms [unfolded LoadConfig_updater_def Let_def]
  show "\<exists>u. ValidateInstanceID (U_InstanceID c) = Inr u" "\<exists>u. ValidateCounterRetention (U_AccessRetention c) = Inr u"
    using run by (auto simp: bind_res_Inr_iff split: prod.splits)
  show "positive_duration (U_AccessRetention c)" "positive_duration (U_BatchMaxWait c)"
      "positive_duration (U_RedisOperationTimeout c)" "positive_duration (U_ReadTimeout c)"
    using run by (auto simp: bind_res_Inr_iff dest: durationValue_Inr split: prod.splits)
  show "load_statuses lookup = Inr (U_SuccessStatus c, U_FailureStatus c, U_DataLossRisk c, U_DuplicateRisk c)"
    using run by (auto simp: bind_res_Inr_iff split: prod.splits)
  show "int64Value lookup ''UPDATER_MAX_BODY_BYTES'' 1048576 1 1073741824 = Inr (U_MaxBodyBytes c)"
      "intValue lookup ''UPDATER_MAX_RECORDS'' 1000 1 1000000 = Inr (U_MaxRecords c)"
      "intValue lookup ''UPDATER_QUEUE_SIZE'' 128 1 1000000 = Inr (U_QueueSize c)"
      "intValue lookup ''UPDATER_BATCH_MAX_EVENTS'' 5000 1 1000000 = Inr (U_BatchMaxEvents c)"
      "intValue lookup ''UPDATER_BATCH_MAX_KEYS'' 5000 1 1000000 = Inr (U_BatchMaxKeys c)"
    using run by (auto simp: bind_res_Inr_iff split: prod.splits)
  show "U_MaxRecords c \<le> U_BatchMaxEvents c" "U_MaxRecords c \<le> U_BatchMaxKeys c"
      "U_RedisOperationTimeout c \<le> U_ShutdownTimeout c"
    using run by (auto simp: bind_res_Inr_iff split: prod.splits)
  show "\<exists>minimum. worstCaseAcknowledgementTime (c\<lparr>U_WriteTimeout := 0\<rparr>) = Inr minimum \<and>
      load_write_timeout frac lookup minimum = Inr (U_WriteTimeout c)"
    using run by (auto simp: bind_res_Inr_iff split: prod.splits)
qed

lemma LoadConfig_updater_valid:
  assumes "LoadConfig_updater frac lookup = Inr c"
  shows "valid_updater c"
proof -
  note r = LoadConfig_updater_reads [OF assms]
  obtain minimum where m: "worstCaseAcknowledgementTime (c\<lparr>U_WriteTimeout := 0\<rparr>) = Inr minimum"
    "load_write_timeout frac lookup minimum = Inr (U_WriteTimeout c)" using r(16) by blast
  have queue: "1 \<le> U_QueueSize c" "U_QueueSize c \<le> 1000000" using intValue_Inr(1) [OF r(10)] by auto
  then have "timed_config (c\<lparr>U_WriteTimeout := 0\<rparr>)" using r(4-6) by (simp add: timed_config_def max_int64_def)
  then have minimum: "minimum = acknowledgement_budget c" using worst_case_iff m(1) by simp
  have "0 < (U_QueueSize c + 1) * (U_BatchMaxWait c + U_RedisOperationTimeout c)"
    using r(4,5) queue by (intro mult_pos_pos) (simp_all add: positive_duration_def)
  then have "0 < minimum"
    unfolding minimum acknowledgement_budget_def using r(6) unfolding positive_duration_def by linarith
  then have "acknowledgement_budget c < U_WriteTimeout c" "U_WriteTimeout c \<le> max_int64"
    using write_timeout_Inr [OF m(2)] minimum by auto
  moreover have "200 \<le> U_SuccessStatus c" "U_FailureStatus c \<le> 599"
      "500 \<le> U_FailureStatus c \<or> U_DataLossRisk c" "U_SuccessStatus c < 300 \<or> U_DuplicateRisk c"
    using r(7) by (auto simp: load_statuses_def bind_res_Inr_iff dest!: intValue_Inr(1))
  ultimately show ?thesis
    using r(1-3,13-15) queue intValue_Inr(2) [OF r(8)] intValue_Inr(1) [OF r(9)]
      intValue_Inr(1) [OF r(11)] intValue_Inr(1) [OF r(12)]
    by (simp add: valid_updater_def)
qed


definition demo_updater_env :: env where
  "demo_updater_env = map_of
     [(''INSTANCE_ID'', ''prod''), (''ACCESS_RETENTION'', ''72h''), (''UPDATER_FAILURE_STATUS'', ''404''),
      (''UPDATER_ACCEPT_DATA_LOSS'', ''true''), (''UPDATER_QUEUE_SIZE'', ''2''), (''UPDATER_BATCH_MAX_WAIT'', ''1s'')]"

lemmas updater_eval = demo_updater_env_def value_or_def boolValue_def intValue_def int64Value_def durationValue_def
  validateAddress_def rejected_def accept_check_def load_statuses_def load_write_timeout_def
  worstCaseAcknowledgementTime_def ParseDuration_def duration_loop.simps duration_part_def is_digit_def Let_def
  dec_val_def digit_val_def unit_of_def Second_def Hour_def max_int64_def ValidateInstanceID_def instance_char_def
  ValidateCounterRetention_def SplitHostPort_def last_index_def first_index_def parse_int64_def int64_def
  min_int64_def TrimSpace_def trim_left.simps leading_space_def space_runes_def starts_with_def ascii_space_def wrap64_mod

lemma demo_updater_loads:
  "\<exists>c. LoadConfig_updater (\<lambda>f scale unit. f * unit div scale) demo_updater_env = Inr c \<and>
     U_WriteTimeout c = 34 * Second \<and> U_FailureStatus c = 404"
  by (simp add: LoadConfig_updater_def updater_eval)


text \<open>Losing or repeating events takes an explicit switch: a configuration that answers a failure with
  anything but a 5xx status, or a success with anything but a 2xx status, loads only when the
  operator has set the matching switch to \<open>true\<close>, and the configuration records exactly the risks
  taken, which the metrics and the log then show.\<close>

theorem risky_statuses_need_switches:
  assumes "LoadConfig_updater frac lookup = Inr c"
  shows "(U_DataLossRisk c \<longleftrightarrow> U_FailureStatus c < 500) \<and> (U_DuplicateRisk c \<longleftrightarrow> 300 \<le> U_SuccessStatus c) \<and>
    (lookup ''UPDATER_ACCEPT_DATA_LOSS'' = Some ''true'' \<or> 500 \<le> U_FailureStatus c) \<and>
    (lookup ''UPDATER_ACCEPT_DUPLICATE_RISK'' = Some ''true'' \<or> U_SuccessStatus c < 300)"
  using LoadConfig_updater_reads(7) [OF assms]
  by (auto simp: load_statuses_def bind_res_Inr_iff dest!: intValue_Inr(1) boolValue_Inr)

theorem risky_statuses_need_switches_witness:
  "\<exists>c. LoadConfig_updater (\<lambda>f scale unit. f * unit div scale) demo_updater_env = Inr c \<and> U_DataLossRisk c"
proof -
  obtain c where c: "LoadConfig_updater (\<lambda>f scale unit. f * unit div scale) demo_updater_env = Inr c" "U_FailureStatus c = 404"
    using demo_updater_loads by blast
  have "U_DataLossRisk c" using risky_statuses_need_switches [OF c(1)] c(2) by simp
  with c(1) show ?thesis by blast
qed

end
