(* ===== verification/Redis_Server.thy ===== *)
theory Redis_Server
  imports Decimal
begin

text \<open>
  The Redis commands the Lua scripts of the repository issue. Redis itself is not part of the
  repository: a server is a parameter \<open>redis\<close> of the script models, a record of the four
  commands the scripts call, and the documented behaviour they rely on is the contract
  \<open>redis_server\<close>. A server state is seen through \<open>val\<close> (the value of each key that has not
  expired), \<open>expiry\<close> (its absolute expiry in Unix seconds) and \<open>clock\<close> (the server's time,
  frozen while a script runs). \<open>mem_redis\<close> is an in-memory server that keeps the contract.
\<close>

section \<open>Commands and replies\<close>

text \<open>\<open>Inl\<close> is a command that raises an error, which aborts the script that issued it.\<close>

record 's redis =
  r_type :: "'s \<Rightarrow> string \<Rightarrow> string"
  r_get :: "'s \<Rightarrow> string \<Rightarrow> string option"
  r_incrby :: "'s \<Rightarrow> string \<Rightarrow> string \<Rightarrow> string + int \<times> 's"
  r_expireat :: "'s \<Rightarrow> string \<Rightarrow> string \<Rightarrow> string + 's"

text \<open>A script's reply as the client sees it: an error, an integer, a string, nil, an array.\<close>

datatype reply =
    ErrorReply string
  | IntReply int
  | BulkReply string
  | NilReply
  | ArrayReply "reply list"

datatype rvalue = RString string | ROther string

text \<open>The number a counter key stands for: a missing key is zero, a canonical decimal its value.\<close>

definition counter_of :: "rvalue option \<Rightarrow> nat option" where
  "counter_of v = (case v of None \<Rightarrow> Some 0
     | Some (RString s) \<Rightarrow> if valid_uint s then Some (dec_val s) else None
     | Some (ROther _) \<Rightarrow> None)"

text \<open>The largest absolute expiry in seconds that Redis accepts: it keeps milliseconds in 64 bits.\<close>

definition max_expiry :: nat where
  "max_expiry = 9223372036854775"

section \<open>The contract\<close>

locale redis_server =
  fixes redis :: "'s redis"
    and val :: "'s \<Rightarrow> string \<Rightarrow> rvalue option"
    and expiry :: "'s \<Rightarrow> string \<Rightarrow> int option"
    and clock :: "'s \<Rightarrow> int"
  assumes type_none: "val s k = None \<Longrightarrow> r_type redis s k = ''none''"
    and type_string: "val s k = Some (RString v) \<Longrightarrow> r_type redis s k = ''string''"
    and type_other: "val s k = Some (ROther ty) \<Longrightarrow>
          r_type redis s k \<noteq> ''none'' \<and> r_type redis s k \<noteq> ''string''"
    and get_string: "val s k = Some (RString v) \<Longrightarrow> r_get redis s k = Some v"
    and incrby: "counter_of (val s k) = Some n \<Longrightarrow> n + d \<le> 9223372036854775807 \<Longrightarrow>
          \<exists>s'. r_incrby redis s k (dec_nat d) = Inr (int (n + d), s') \<and>
               val s' = (val s)(k \<mapsto> RString (dec_nat (n + d))) \<and>
               expiry s' = expiry s \<and> clock s' = clock s"
    and expireat: "val s k \<noteq> None \<Longrightarrow> clock s < int t \<Longrightarrow> t \<le> max_expiry \<Longrightarrow>
          \<exists>s'. r_expireat redis s k (dec_nat t) = Inr s' \<and> val s' = val s \<and>
               expiry s' = (expiry s)(k \<mapsto> int t) \<and> clock s' = clock s"
begin

text \<open>What \<open>TYPE\<close> followed by \<open>GET\<close> tells a script about a key.\<close>

lemma string_value:
  "r_type redis s k = ''string'' \<longleftrightarrow> (\<exists>v. val s k = Some (RString v))"
proof (cases "val s k")
  case None
  then show ?thesis using type_none by simp
next
  case (Some r)
  then show ?thesis using type_string type_other by (cases r) auto
qed

lemma none_value: "r_type redis s k = ''none'' \<longleftrightarrow> val s k = None"
proof (cases "val s k")
  case None
  then show ?thesis using type_none by simp
next
  case (Some r)
  then show ?thesis using type_string [of s k] type_other by (cases r) auto
qed

text \<open>
  The write a script makes for one key, \<open>INCRBY\<close> then \<open>EXPIREAT\<close>: it succeeds where the sum
  fits and the expiry lies ahead, and it touches no other key.
\<close>

lemma incr_expire:
  assumes "counter_of (val s k) = Some n" and "n + d \<le> 9223372036854775807"
    and "clock s < int t" and "t \<le> max_expiry"
  shows "\<exists>s1 s2. r_incrby redis s k (dec_nat d) = Inr (int (n + d), s1) \<and>
           r_expireat redis s1 k (dec_nat t) = Inr s2 \<and>
           val s2 = (val s)(k \<mapsto> RString (dec_nat (n + d))) \<and>
           expiry s2 = (expiry s)(k \<mapsto> int t) \<and> clock s2 = clock s"
proof -
  obtain s1 where s1: "r_incrby redis s k (dec_nat d) = Inr (int (n + d), s1)"
      "val s1 = (val s)(k \<mapsto> RString (dec_nat (n + d)))" "expiry s1 = expiry s" "clock s1 = clock s"
    using incrby [OF assms(1,2)] by blast
  then obtain s2 where "r_expireat redis s1 k (dec_nat t) = Inr s2" "val s2 = val s1"
      "expiry s2 = (expiry s1)(k \<mapsto> int t)" "clock s2 = clock s1"
    using expireat [of s1 k t] assms(3,4) by auto
  with s1 show ?thesis by auto
qed

end

section \<open>An in-memory server\<close>

record mem_state =
  mem_val :: "string \<Rightarrow> rvalue option"
  mem_expiry :: "string \<Rightarrow> int option"
  mem_clock :: int

definition mem_type :: "mem_state \<Rightarrow> string \<Rightarrow> string" where
  "mem_type s k = (case mem_val s k of None \<Rightarrow> ''none'' | Some (RString _) \<Rightarrow> ''string''
     | Some (ROther ty) \<Rightarrow> if ty = ''none'' \<or> ty = ''string'' then ''hash'' else ty)"

definition mem_get :: "mem_state \<Rightarrow> string \<Rightarrow> string option" where
  "mem_get s k = (case mem_val s k of Some (RString v) \<Rightarrow> Some v | _ \<Rightarrow> None)"

definition mem_number :: "rvalue option \<Rightarrow> int option" where
  "mem_number v = (case v of None \<Rightarrow> Some 0 | Some (RString s) \<Rightarrow> parse_int64 s | Some (ROther _) \<Rightarrow> None)"

definition mem_incrby :: "mem_state \<Rightarrow> string \<Rightarrow> string \<Rightarrow> string + int \<times> mem_state" where
  "mem_incrby s k d =
     (case mem_val s k of
        Some (ROther _) \<Rightarrow> Inl ''WRONGTYPE Operation against a key holding the wrong kind of value''
      | v \<Rightarrow> (case (mem_number v, parse_int64 d) of
          (Some n, Some i) \<Rightarrow>
            if int64 (n + i)
            then Inr (n + i, s\<lparr>mem_val := (mem_val s)(k \<mapsto> RString (format_int (n + i)))\<rparr>)
            else Inl ''ERR increment or decrement would overflow''
        | _ \<Rightarrow> Inl ''ERR value is not an integer or out of range''))"

definition mem_expireat :: "mem_state \<Rightarrow> string \<Rightarrow> string \<Rightarrow> string + mem_state" where
  "mem_expireat s k ts =
     (case parse_int64 ts of
        None \<Rightarrow> Inl ''ERR value is not an integer or out of range''
      | Some t \<Rightarrow>
          if t > 9223372036854775 then Inl ''ERR invalid expire time in 'expireat' command''
          else if mem_val s k = None then Inr s
          else if t \<le> mem_clock s
          then Inr (s\<lparr>mem_val := (mem_val s)(k := None), mem_expiry := (mem_expiry s)(k := None)\<rparr>)
          else Inr (s\<lparr>mem_expiry := (mem_expiry s)(k \<mapsto> t)\<rparr>))"

definition mem_redis :: "mem_state redis" where
  "mem_redis = \<lparr>r_type = mem_type, r_get = mem_get, r_incrby = mem_incrby, r_expireat = mem_expireat\<rparr>"

definition mem_empty :: "int \<Rightarrow> mem_state" where
  "mem_empty now = \<lparr>mem_val = Map.empty, mem_expiry = Map.empty, mem_clock = now\<rparr>"

lemma mem_number_counter: "counter_of v = Some n \<Longrightarrow> mem_number v = Some (int n)"
  by (auto simp: counter_of_def mem_number_def valid_uint_ex parse_int64_dec_nat
      split: option.splits rvalue.splits if_splits)

interpretation mem: redis_server mem_redis mem_val mem_expiry mem_clock
proof
  fix s :: mem_state and k v ty n d t
  show "mem_val s k = None \<Longrightarrow> r_type mem_redis s k = ''none''"
    and "mem_val s k = Some (RString v) \<Longrightarrow> r_type mem_redis s k = ''string''"
    and "mem_val s k = Some (ROther ty) \<Longrightarrow>
          r_type mem_redis s k \<noteq> ''none'' \<and> r_type mem_redis s k \<noteq> ''string''"
    and "mem_val s k = Some (RString v) \<Longrightarrow> r_get mem_redis s k = Some v"
    by (simp_all add: mem_redis_def mem_type_def mem_get_def)
  show "\<exists>s'. r_incrby mem_redis s k (dec_nat d) = Inr (int (n + d), s') \<and>
               mem_val s' = (mem_val s)(k \<mapsto> RString (dec_nat (n + d))) \<and>
               mem_expiry s' = mem_expiry s \<and> mem_clock s' = mem_clock s"
    if c: "counter_of (mem_val s k) = Some n" and le: "n + d \<le> 9223372036854775807"
  proof -
    have "int64 (int n + int d)"
      using le by (simp add: int64_def min_int64_def max_int64_def)
    moreover have "parse_int64 (dec_nat d) = Some (int d)"
      using le by (simp add: parse_int64_dec_nat)
    moreover have "format_int (int n + int d) = dec_nat (n + d)"
      using format_int_nat [of "n + d"] by simp
    ultimately show ?thesis
      using mem_number_counter [OF c] c
      by (auto simp: mem_redis_def mem_incrby_def counter_of_def split: option.splits rvalue.splits)
  qed
  show "\<exists>s'. r_expireat mem_redis s k (dec_nat t) = Inr s' \<and> mem_val s' = mem_val s \<and>
               mem_expiry s' = (mem_expiry s)(k \<mapsto> int t) \<and> mem_clock s' = mem_clock s"
    if "mem_val s k \<noteq> None" "mem_clock s < int t" "t \<le> max_expiry"
    using that by (auto simp: mem_redis_def mem_expireat_def parse_int64_dec_nat max_expiry_def)
qed

end
