(* ===== verification/Counter_Store.thy ===== *)
theory Counter_Store
  imports Redis_Server Clock
begin

text \<open>
  \<^verbatim>\<open>internal/redisstore/store.go\<close> and \<^verbatim>\<open>client.go\<close>: the store the updater's batches go to. First the
  Lua script \<open>counterScript\<close> over a Redis server, then \<open>commandArguments\<close>, the script cache with
  its reload on \<^verbatim>\<open>NOSCRIPT\<close>, and \<open>Apply\<close> with its classification of errors.

  The script client (\<^verbatim>\<open>ScriptLoad\<close> and \<^verbatim>\<open>EvalSHA\<close> of go-redis, behind the interface
  \<^verbatim>\<open>scriptClient\<close>) is a parameter \<open>client\<close> over a state of its own; \<open>lua_client\<close> is the client that
  runs the script's model on a Redis server.
\<close>

record increment =
  Key :: string
  Delta :: int
  ExpireAt :: time

section \<open>The counter script\<close>

text \<open>
  The first loop of \<open>counterScript\<close>: the checks of every key before any write. The arguments
  come in pairs, a delta and an expiry; a missing argument is Lua's \<^verbatim>\<open>nil\<close>, which is no valid
  number. \<open>Inl\<close> is the \<^verbatim>\<open>redis.error_reply\<close> the script returns, \<open>Inr\<close> the list \<^verbatim>\<open>sums\<close>.
\<close>

definition valid_arg :: "string option \<Rightarrow> bool" where
  "valid_arg value = (case value of None \<Rightarrow> False | Some v \<Rightarrow> valid_uint v)"

fun arg_at :: "string list \<Rightarrow> nat \<Rightarrow> string option" where
  "arg_at [] i = None"
| "arg_at (a # as) i = (case i of 0 \<Rightarrow> Some a | Suc j \<Rightarrow> arg_at as j)"

fun counter_check :: "'s redis \<Rightarrow> 's \<Rightarrow> string list \<Rightarrow> string list \<Rightarrow> string + string list" where
  "counter_check redis s [] argv = Inr []"
| "counter_check redis s (key # keys) argv =
     (let delta = arg_at argv 0; expiry = arg_at argv 1;
          key_type = r_type redis s key;
          current = (if key_type = ''string'' then r_get redis s key else Some ''0'')
      in if \<not> valid_arg delta \<or> delta = Some ''0'' then Inl ''CWM_VALIDATION invalid delta''
         else if \<not> valid_arg expiry then Inl ''CWM_VALIDATION invalid expiry''
         else if key_type \<noteq> ''string'' \<and> key_type \<noteq> ''none'' then Inl ''CWM_VALIDATION wrong key type''
         else if \<not> valid_arg current then Inl ''CWM_VALIDATION malformed or negative counter''
         else case add_uint (the current) (the delta) of
                None \<Rightarrow> Inl ''CWM_VALIDATION counter overflow''
              | Some sum_i \<Rightarrow>
                  bind_res (counter_check redis s keys (drop 2 argv)) (\<lambda>sums. Inr (sum_i # sums)))"

text \<open>
  The second loop: \<^verbatim>\<open>INCRBY\<close> then \<^verbatim>\<open>EXPIREAT\<close> for each key. A command that raises an error ends the
  script where it stands, with the writes made so far.
\<close>

fun counter_write :: "'s redis \<Rightarrow> string list \<Rightarrow> string list \<Rightarrow> 's \<Rightarrow> string option \<times> 's" where
  "counter_write redis [] argv s = (None, s)"
| "counter_write redis (key # keys) argv s =
     (case r_incrby redis s key (the (arg_at argv 0)) of
        Inl err \<Rightarrow> (Some err, s)
      | Inr (_, s1) \<Rightarrow>
          (case r_expireat redis s1 key (the (arg_at argv 1)) of
             Inl err \<Rightarrow> (Some err, s1)
           | Inr s2 \<Rightarrow> counter_write redis keys (drop 2 argv) s2))"

definition counter_script :: "'s redis \<Rightarrow> string list \<Rightarrow> string list \<Rightarrow> 's \<Rightarrow> reply \<times> 's" where
  "counter_script redis keys argv s =
     (case counter_check redis s keys argv of
        Inl err \<Rightarrow> (ErrorReply err, s)
      | Inr sums \<Rightarrow>
          (case counter_write redis keys argv s of
             (Some err, s') \<Rightarrow> (ErrorReply err, s')
           | (None, s') \<Rightarrow> (IntReply (int (length keys)), s')))"

section \<open>The store\<close>

datatype apply_error =
    EmptyBatch
  | EmptyKey
  | DuplicateKey string
  | DeltaNotPositive string
  | ExpiryNotAfterEpoch string
  | LoadFailed string
  | ScriptUnavailable string
  | BatchRejected string
  | Ambiguous string

text \<open>
  \<open>ScriptLoad\<close> returns the SHA of the loaded script, \<open>EvalSHA\<close> the script's reply; \<open>Inl\<close> is the
  text of the error (\<^verbatim>\<open>err.Error()\<close>), which is all the store looks at.
\<close>

record 'c script_client =
  ScriptLoad :: "'c \<Rightarrow> (string + string) \<times> 'c"
  EvalSHA :: "'c \<Rightarrow> string \<Rightarrow> string list \<Rightarrow> int list \<Rightarrow> (string + reply) \<times> 'c"

record 'c store =
  conn :: 'c
  sha :: string

definition NewStore :: "'c \<Rightarrow> 'c store" where
  "NewStore c = \<lparr>conn = c, sha = []\<rparr>"

definition Load :: "'c script_client \<Rightarrow> 'c store \<Rightarrow> apply_error option \<times> 'c store" where
  "Load client st =
     (case ScriptLoad client (conn st) of
        (Inl err, c) \<Rightarrow> (Some (LoadFailed err), st\<lparr>conn := c\<rparr>)
      | (Inr new_sha, c) \<Rightarrow> (None, st\<lparr>conn := c, sha := new_sha\<rparr>))"

fun argument_loop :: "increment list \<Rightarrow> string set \<Rightarrow> apply_error + string list \<times> int list" where
  "argument_loop [] seen = Inr ([], [])"
| "argument_loop (inc # incs) seen =
     (if Key inc = [] then Inl EmptyKey
      else if Key inc \<in> seen then Inl (DuplicateKey (Key inc))
      else if Delta inc \<le> 0 then Inl (DeltaNotPositive (Key inc))
      else if unix (ExpireAt inc) \<le> 0 then Inl (ExpiryNotAfterEpoch (Key inc))
      else bind_res (argument_loop incs (insert (Key inc) seen))
             (\<lambda>(keys, args). Inr (Key inc # keys, Delta inc # unix (ExpireAt inc) # args)))"

definition commandArguments :: "increment list \<Rightarrow> apply_error + string list \<times> int list" where
  "commandArguments increments =
     (if increments = [] then Inl EmptyBatch else argument_loop increments {})"

text \<open>\<^verbatim>\<open>strings.HasPrefix\<close> and \<^verbatim>\<open>strings.Contains\<close>.\<close>

fun has_prefix :: "string \<Rightarrow> string \<Rightarrow> bool" where
  "has_prefix s [] = True"
| "has_prefix s (p # ps) = (case s of [] \<Rightarrow> False | c # cs \<Rightarrow> c = p \<and> has_prefix cs ps)"

fun contains :: "string \<Rightarrow> string \<Rightarrow> bool" where
  "contains [] p = has_prefix [] p"
| "contains (c # cs) p = (has_prefix (c # cs) p \<or> contains cs p)"

definition isNoScript :: "string \<Rightarrow> bool" where
  "isNoScript err = has_prefix err ''NOSCRIPT ''"

definition IsAmbiguous :: "apply_error \<Rightarrow> bool" where
  "IsAmbiguous err = (case err of Ambiguous _ \<Rightarrow> True | _ \<Rightarrow> False)"

text \<open>What \<open>Apply\<close> makes of the outcome of its last \<open>EvalSHA\<close>.\<close>

definition classify :: "string + reply \<Rightarrow> apply_error option" where
  "classify outcome =
     (case outcome of
        Inr _ \<Rightarrow> None
      | Inl err \<Rightarrow>
          if isNoScript err then Some (ScriptUnavailable err)
          else if contains err ''CWM_VALIDATION'' then Some (BatchRejected err)
          else Some (Ambiguous err))"

definition eval_store ::
    "'c script_client \<Rightarrow> string list \<Rightarrow> int list \<Rightarrow> 'c store \<Rightarrow> (string + reply) \<times> 'c store" where
  "eval_store client keys args st =
     (case EvalSHA client (conn st) (sha st) keys args of (outcome, c) \<Rightarrow> (outcome, st\<lparr>conn := c\<rparr>))"

definition Apply ::
    "'c script_client \<Rightarrow> 'c store \<Rightarrow> increment list \<Rightarrow> apply_error option \<times> 'c store" where
  "Apply client st increments =
     (case commandArguments increments of
        Inl err \<Rightarrow> (Some err, st)
      | Inr (keys, args) \<Rightarrow>
          (case (if sha st = [] then Load client st else (None, st)) of
             (Some err, st1) \<Rightarrow> (Some err, st1)
           | (None, st1) \<Rightarrow>
               (case eval_store client keys args st1 of
                  (outcome, st2) \<Rightarrow>
                    if (case outcome of Inl err \<Rightarrow> isNoScript err | Inr _ \<Rightarrow> False)
                    then (case Load client st2 of
                            (Some err, st3) \<Rightarrow> (Some err, st3)
                          | (None, st3) \<Rightarrow>
                              (case eval_store client keys args st3 of
                                 (outcome', st4) \<Rightarrow> (classify outcome', st4)))
                    else (classify outcome, st2))))"

section \<open>What the script does\<close>

text \<open>The argument list of a batch of keys with their deltas and expiries.\<close>

definition pair_args :: "(string \<times> nat \<times> nat) list \<Rightarrow> string list" where
  "pair_args ps = concat (map (\<lambda>(k, d, t). [dec_nat d, dec_nat t]) ps)"

lemma pair_args_simps [simp]:
  "pair_args [] = []"
  "pair_args ((k, d, t) # ps) = dec_nat d # dec_nat t # pair_args ps"
  by (simp_all add: pair_args_def)

context redis_server
begin

definition counter_fits :: "'s \<Rightarrow> string \<Rightarrow> nat \<Rightarrow> bool" where
  "counter_fits s k d \<longleftrightarrow> (\<exists>n. counter_of (val s k) = Some n \<and> n + d \<le> 9223372036854775807)"

lemma current_value:
  assumes "current = (if r_type redis s k = ''string'' then r_get redis s k else Some ''0'')"
    and "r_type redis s k = ''string'' \<or> r_type redis s k = ''none''"
  shows "valid_arg current \<longleftrightarrow> counter_of (val s k) \<noteq> None"
    and "valid_arg current \<Longrightarrow> current = Some (dec_nat (the (counter_of (val s k))))"
proof -
  have "valid_uint ''0''" by (simp add: valid_uint_def)
  then have "(valid_arg current \<longleftrightarrow> counter_of (val s k) \<noteq> None) \<and>
     (valid_arg current \<longrightarrow> current = Some (dec_nat (the (counter_of (val s k)))))"
    using assms get_string string_value [of s k] none_value [of s k]
    by (auto simp: valid_arg_def counter_of_def valid_uint_iff dec_nat_of_val
        split: option.splits if_splits)
  then show "valid_arg current \<longleftrightarrow> counter_of (val s k) \<noteq> None"
    and "valid_arg current \<Longrightarrow> current = Some (dec_nat (the (counter_of (val s k))))"
    by blast+
qed

lemma counter_check_Inr:
  "counter_check redis s (map fst ps) (pair_args ps) = Inr sums \<Longrightarrow> (k, d, t) \<in> set ps \<Longrightarrow>
     0 < d \<and> counter_fits s k d"
proof (induction ps arbitrary: sums)
  case (Cons p ps)
  obtain k' d' t' where p: "p = (k', d', t')" by (cases p)
  define current where "current = (if r_type redis s k' = ''string'' then r_get redis s k' else Some ''0'')"
  have types: "r_type redis s k' = ''string'' \<or> r_type redis s k' = ''none''"
    and valid: "valid_arg current" and d': "valid_uint (dec_nat d')" "dec_nat d' \<noteq> ''0''"
    and rest: "\<exists>sums'. counter_check redis s (map fst ps) (pair_args ps) = Inr sums'"
    and sum: "add_uint (the current) (dec_nat d') \<noteq> None"
    using Cons.prems(1) p
    by (auto simp: Let_def valid_arg_def current_def bind_res_Inr_iff split: if_splits option.splits)
  have "0 < d' \<and> counter_fits s k' d'"
    using d'(2) sum current_value [OF current_def types] valid
    by (auto simp: counter_fits_def dec_nat_zero_iff add_uint_dec_nat split: if_splits)
  with rest Cons.IH Cons.prems(2) p show ?case by auto
qed simp

lemma counter_check_total:
  "(\<And>k d t. (k, d, t) \<in> set ps \<Longrightarrow>
      0 < d \<and> counter_fits s k d \<and> t \<le> 9223372036854775807) \<Longrightarrow>
   \<exists>sums. counter_check redis s (map fst ps) (pair_args ps) = Inr sums"
proof (induction ps)
  case (Cons p ps)
  obtain k d t where p: "p = (k, d, t)" by (cases p)
  define current where "current = (if r_type redis s k = ''string'' then r_get redis s k else Some ''0'')"
  have k: "0 < d" "t \<le> 9223372036854775807" and "counter_fits s k d"
    using Cons.prems p by auto
  then obtain n where n: "counter_of (val s k) = Some n" "n + d \<le> 9223372036854775807"
    by (auto simp: counter_fits_def)
  then have types: "r_type redis s k = ''string'' \<or> r_type redis s k = ''none''"
    using string_value none_value by (auto simp: counter_of_def split: option.splits rvalue.splits)
  then have "valid_arg current" "current = Some (dec_nat n)"
    using current_value [OF current_def types] n by auto
  moreover obtain sums where "counter_check redis s (map fst ps) (pair_args ps) = Inr sums"
    using Cons by auto
  ultimately show ?case
    using p k n types
    by (auto simp: Let_def valid_arg_def current_def [symmetric] add_uint_dec_nat valid_uint_dec_nat
        dec_nat_zero_iff)
qed simp

lemma counter_write_all:
  assumes "distinct (map fst ps)"
    and "\<And>k d t. (k, d, t) \<in> set ps \<Longrightarrow> counter_fits s k d \<and> clock s < int t \<and> t \<le> max_expiry"
  shows "\<exists>s'. counter_write redis (map fst ps) (pair_args ps) s = (None, s') \<and> clock s' = clock s \<and>
           (\<forall>k. k \<notin> fst ` set ps \<longrightarrow> val s' k = val s k \<and> expiry s' k = expiry s k) \<and>
           (\<forall>(k, d, t)\<in>set ps. val s' k = Some (RString (dec_nat (the (counter_of (val s k)) + d))) \<and>
              expiry s' k = Some (int t))"
  using assms
proof (induction ps arbitrary: s)
  case (Cons p ps)
  obtain k d t where p: "p = (k, d, t)" by (cases p)
  then obtain n where n: "counter_of (val s k) = Some n" "n + d \<le> 9223372036854775807"
      "clock s < int t" "t \<le> max_expiry"
    using Cons.prems(2) [of k d t] by (auto simp: counter_fits_def)
  then obtain s1 s2 where s12: "r_incrby redis s k (dec_nat d) = Inr (int (n + d), s1)"
      "r_expireat redis s1 k (dec_nat t) = Inr s2" and v: "val s2 = (val s)(k \<mapsto> RString (dec_nat (n + d)))"
    and e: "expiry s2 = (expiry s)(k \<mapsto> int t)" and c: "clock s2 = clock s"
    using incr_expire [OF n] by blast
  have other: "k' \<noteq> k" if "(k', d', t') \<in> set ps" for k' d' t'
    using that Cons.prems(1) p by (force simp: image_iff)
  have "\<exists>s'. counter_write redis (map fst ps) (pair_args ps) s2 = (None, s') \<and> clock s' = clock s2 \<and>
           (\<forall>k. k \<notin> fst ` set ps \<longrightarrow> val s' k = val s2 k \<and> expiry s' k = expiry s2 k) \<and>
           (\<forall>(k, d, t)\<in>set ps. val s' k = Some (RString (dec_nat (the (counter_of (val s2 k)) + d))) \<and>
              expiry s' k = Some (int t))"
  proof (rule Cons.IH)
    show "distinct (map fst ps)" using Cons.prems(1) by simp
    show "counter_fits s2 k' d' \<and> clock s2 < int t' \<and> t' \<le> max_expiry"
      if "(k', d', t') \<in> set ps" for k' d' t'
      using Cons.prems(2) [of k' d' t'] that other [OF that] v c by (simp add: counter_fits_def)
  qed
  then obtain s' where w: "counter_write redis (map fst ps) (pair_args ps) s2 = (None, s')"
    and c': "clock s' = clock s2"
    and frame: "\<And>k. k \<notin> fst ` set ps \<Longrightarrow> val s' k = val s2 k \<and> expiry s' k = expiry s2 k"
    and upd: "\<And>k d t. (k, d, t) \<in> set ps \<Longrightarrow>
       val s' k = Some (RString (dec_nat (the (counter_of (val s2 k)) + d))) \<and> expiry s' k = Some (int t)"
    by (auto split: prod.splits)
  have k: "k \<notin> fst ` set ps" using Cons.prems(1) p by auto
  have "\<forall>(k', d', t')\<in>set (p # ps). val s' k' = Some (RString (dec_nat (the (counter_of (val s k')) + d'))) \<and>
          expiry s' k' = Some (int t')"
    using frame [OF k] upd other v e n p by (auto split: prod.splits)
  moreover have "counter_write redis (map fst (p # ps)) (pair_args (p # ps)) s = (None, s')"
    using w s12 p by (simp add: numeral_2_eq_2)
  moreover have "\<forall>k'. k' \<notin> fst ` set (p # ps) \<longrightarrow> val s' k' = val s k' \<and> expiry s' k' = expiry s k'"
    using frame v e p by auto
  ultimately show ?case using c c' by (intro exI [of _ s']) simp
qed simp

text \<open>All or nothing: an error leaves the server as it was, success adds every delta once.\<close>

lemma counter_script_error:
  assumes "counter_script redis (map fst ps) (pair_args ps) s = (ErrorReply err, s')"
    and "distinct (map fst ps)"
    and "\<And>k d t. (k, d, t) \<in> set ps \<Longrightarrow> clock s < int t \<and> t \<le> max_expiry"
  shows "s' = s"
proof (cases "counter_check redis s (map fst ps) (pair_args ps)")
  case (Inr sums)
  then have "\<And>k d t. (k, d, t) \<in> set ps \<Longrightarrow> counter_fits s k d \<and> clock s < int t \<and> t \<le> max_expiry"
    using counter_check_Inr assms(3) by blast
  then obtain s'' where "counter_write redis (map fst ps) (pair_args ps) s = (None, s'')"
    using counter_write_all [OF assms(2)] by blast
  then show ?thesis
    using Inr assms(1) by (simp add: counter_script_def)
qed (use assms(1) in \<open>simp add: counter_script_def\<close>)

lemma counter_script_success:
  assumes "counter_script redis (map fst ps) (pair_args ps) s = (IntReply n, s')"
    and "distinct (map fst ps)"
    and "\<And>k d t. (k, d, t) \<in> set ps \<Longrightarrow> clock s < int t \<and> t \<le> max_expiry"
  shows "n = int (length ps) \<and> clock s' = clock s \<and>
     (\<forall>k. k \<notin> fst ` set ps \<longrightarrow> val s' k = val s k \<and> expiry s' k = expiry s k) \<and>
     (\<forall>(k, d, t)\<in>set ps. counter_fits s k d \<and>
        val s' k = Some (RString (dec_nat (the (counter_of (val s k)) + d))) \<and> expiry s' k = Some (int t))"
proof (cases "counter_check redis s (map fst ps) (pair_args ps)")
  case (Inl err)
  with assms(1) show ?thesis by (simp add: counter_script_def)
next
  case (Inr sums)
  then have ok: "\<And>k d t. (k, d, t) \<in> set ps \<Longrightarrow> counter_fits s k d \<and> clock s < int t \<and> t \<le> max_expiry"
    using counter_check_Inr assms(3) by blast
  then obtain s'' where w: "counter_write redis (map fst ps) (pair_args ps) s = (None, s'')"
    and post: "clock s'' = clock s \<and>
     (\<forall>k. k \<notin> fst ` set ps \<longrightarrow> val s'' k = val s k \<and> expiry s'' k = expiry s k) \<and>
     (\<forall>(k, d, t)\<in>set ps. val s'' k = Some (RString (dec_nat (the (counter_of (val s k)) + d))) \<and>
        expiry s'' k = Some (int t))"
    using counter_write_all [OF assms(2)] by blast
  have "s'' = s'" "n = int (length ps)"
    using w Inr assms(1) by (simp_all add: counter_script_def)
  with post ok show ?thesis by (auto split: prod.splits)
qed

lemma counter_script_cases:
  "\<exists>r s'. counter_script redis keys argv s = (r, s') \<and> ((\<exists>e. r = ErrorReply e) \<or> (\<exists>n. r = IntReply n))"
  by (auto simp: counter_script_def split: sum.splits prod.splits option.splits)

end

section \<open>The arguments \<open>Apply\<close> sends\<close>

definition inc_pairs :: "increment list \<Rightarrow> (string \<times> nat \<times> nat) list" where
  "inc_pairs incs = map (\<lambda>i. (Key i, nat (Delta i), nat (unix (ExpireAt i)))) incs"

lemma inc_pairs_keys [simp]: "map fst (inc_pairs incs) = map Key incs"
  by (simp add: inc_pairs_def)

lemma in_inc_pairs:
  "(k, d, t) \<in> set (inc_pairs incs) \<longleftrightarrow>
     (\<exists>i\<in>set incs. k = Key i \<and> d = nat (Delta i) \<and> t = nat (unix (ExpireAt i)))"
  by (auto simp: inc_pairs_def image_iff)

lemma argument_loop_Inr:
  "argument_loop incs seen = Inr (keys, args) \<Longrightarrow>
     keys = map Key incs \<and> distinct keys \<and> (\<forall>k\<in>set keys. k \<notin> seen) \<and>
     (\<forall>i\<in>set incs. Key i \<noteq> [] \<and> 0 < Delta i \<and> 0 < unix (ExpireAt i)) \<and>
     map format_int args = pair_args (inc_pairs incs)"
proof (induction incs arbitrary: seen keys args)
  case (Cons inc incs)
  then obtain keys' args' where rest: "argument_loop incs (insert (Key inc) seen) = Inr (keys', args')"
    and ka: "keys = Key inc # keys'" "args = Delta inc # unix (ExpireAt inc) # args'"
    and inc: "Key inc \<noteq> []" "Key inc \<notin> seen" "0 < Delta inc" "0 < unix (ExpireAt inc)"
    by (auto simp: bind_res_Inr_iff split: if_splits)
  then show ?case
    using Cons.IH [OF rest] by (auto simp: inc_pairs_def format_int_def)
qed (simp add: inc_pairs_def)

lemma commandArguments_Inr:
  assumes "commandArguments incs = Inr (keys, args)"
  shows "incs \<noteq> []" and "keys = map Key incs" and "distinct (map Key incs)"
    and "i \<in> set incs \<Longrightarrow> Key i \<noteq> [] \<and> 0 < Delta i \<and> 0 < unix (ExpireAt i)"
    and "map format_int args = pair_args (inc_pairs incs)"
  using assms argument_loop_Inr [of incs "{}" keys args]
  by (auto simp: commandArguments_def split: if_splits)

text \<open>How much a batch adds to a key.\<close>

definition delta_of :: "increment list \<Rightarrow> string \<Rightarrow> nat" where
  "delta_of incs k = (\<Sum>i\<leftarrow>filter (\<lambda>i. Key i = k) incs. nat (Delta i))"

lemma delta_of_Nil [simp]: "delta_of [] k = 0"
  by (simp add: delta_of_def)

lemma delta_of_Cons: "delta_of (i # incs) k = (if Key i = k then nat (Delta i) else 0) + delta_of incs k"
  by (simp add: delta_of_def)

lemma delta_of_append: "delta_of (incs @ incs') k = delta_of incs k + delta_of incs' k"
  by (simp add: delta_of_def)

lemma delta_of_notin: "k \<notin> Key ` set incs \<Longrightarrow> delta_of incs k = 0"
  by (induction incs) (auto simp: delta_of_Cons)

lemma delta_of_distinct:
  "distinct (map Key incs) \<Longrightarrow> i \<in> set incs \<Longrightarrow> delta_of incs (Key i) = nat (Delta i)"
proof (induction incs)
  case (Cons j incs)
  then show ?case
    using delta_of_notin [of "Key j" incs] by (auto simp: delta_of_Cons image_iff)
qed simp

section \<open>The interface the batcher relies on\<close>

text \<open>
  \<^verbatim>\<open>CounterStore\<close> of \<^verbatim>\<open>internal/updater/batcher.go\<close>. An acknowledged batch adds each of its deltas
  exactly once; a batch refused for good (any error but \<open>Ambiguous\<close>) adds nothing; an ambiguous
  result adds the whole batch or nothing, never a part and never twice. \<open>accepts\<close> is the client's
  side: the expiries lie ahead of the server's clock and within its range.
\<close>

locale counter_store =
  fixes apply_batch :: "'c \<Rightarrow> increment list \<Rightarrow> apply_error option \<times> 'c"
    and counter :: "'c \<Rightarrow> string \<Rightarrow> nat"
    and accepts :: "'c \<Rightarrow> increment list \<Rightarrow> bool"
  assumes acknowledged: "accepts c incs \<Longrightarrow> apply_batch c incs = (None, c') \<Longrightarrow>
          counter c' k = counter c k + delta_of incs k"
    and refused: "accepts c incs \<Longrightarrow> apply_batch c incs = (Some err, c') \<Longrightarrow> \<not> IsAmbiguous err \<Longrightarrow>
          counter c' = counter c"
    and ambiguous: "accepts c incs \<Longrightarrow> apply_batch c incs = (Some err, c') \<Longrightarrow> IsAmbiguous err \<Longrightarrow>
          counter c' = counter c \<or> counter c' = (\<lambda>k. counter c k + delta_of incs k)"
begin

text \<open>A batch is counted at most once, whatever the result.\<close>

lemma at_most_once:
  assumes "accepts c incs" and "apply_batch c incs = (res, c')"
  shows "counter c' = counter c \<or> counter c' = (\<lambda>k. counter c k + delta_of incs k)"
  using assms acknowledged [of c incs c'] refused [of c incs _ c'] ambiguous [of c incs _ c']
  by (cases res) (auto simp: fun_eq_iff)

end

text \<open>
  A store that accepts a batch by the expiries of its increments alone, and goes on accepting the
  same expiries after it applied one.
\<close>

locale timed_store = counter_store +
  fixes in_time :: "'a \<Rightarrow> time \<Rightarrow> bool"
  assumes accepts_in_time: "(\<And>i. i \<in> set incs \<Longrightarrow> in_time c (ExpireAt i)) \<Longrightarrow> accepts c incs"
    and in_time_stable: "accepts c incs \<Longrightarrow> apply_batch c incs = (res, c') \<Longrightarrow> in_time c' = in_time c"

section \<open>The store over a Redis server\<close>

text \<open>
  A connection that may lose a request or a reply: \<open>faults\<close> says for each \<open>EvalSHA\<close> to come what
  the network does to it, and \<open>loaded\<close> whether the server's script cache holds the script.
\<close>

datatype fault = NoFault | RequestLost | ReplyLost

record 's lua_conn =
  server :: 's
  loaded :: bool
  faults :: "fault list"

definition counter_sha :: string where
  "counter_sha = ''counter-script-sha''"

definition lua_load :: "'s lua_conn \<Rightarrow> (string + string) \<times> 's lua_conn" where
  "lua_load c = (Inr counter_sha, c\<lparr>loaded := True\<rparr>)"

definition timeout_text :: string where
  "timeout_text = ''i/o timeout''"

definition lua_eval ::
    "'s redis \<Rightarrow> 's lua_conn \<Rightarrow> string \<Rightarrow> string list \<Rightarrow> int list \<Rightarrow> (string + reply) \<times> 's lua_conn" where
  "lua_eval redis c script_sha keys args =
     (let fault = (case faults c of [] \<Rightarrow> NoFault | f # _ \<Rightarrow> f);
          c1 = c\<lparr>faults := tl (faults c)\<rparr>
      in if fault = RequestLost then (Inl timeout_text, c1)
         else if \<not> loaded c \<or> script_sha \<noteq> counter_sha
         then (Inl (if fault = ReplyLost then timeout_text else ''NOSCRIPT No matching script.''), c1)
         else case counter_script redis keys (map format_int args) (server c) of
                (r, s) \<Rightarrow>
                  (if fault = ReplyLost then Inl timeout_text
                   else case r of ErrorReply err \<Rightarrow> Inl err | _ \<Rightarrow> Inr r, c1\<lparr>server := s\<rparr>))"

definition lua_client :: "'s redis \<Rightarrow> 's lua_conn script_client" where
  "lua_client redis = \<lparr>ScriptLoad = lua_load, EvalSHA = lua_eval redis\<rparr>"

definition batch_in_range :: "int \<Rightarrow> increment list \<Rightarrow> bool" where
  "batch_in_range now incs \<longleftrightarrow>
     (\<forall>i\<in>set incs. now < unix (ExpireAt i) \<and> unix (ExpireAt i) \<le> int max_expiry)"

text \<open>
  What the store's clients see of a server: the number behind each key, and the effect of a batch
  on it, every delta added once, the expiry of its keys set and no other key touched.
\<close>

definition counter_at :: "('s \<Rightarrow> string \<Rightarrow> rvalue option) \<Rightarrow> 's \<Rightarrow> string \<Rightarrow> nat" where
  "counter_at val s k = (case counter_of (val s k) of None \<Rightarrow> 0 | Some n \<Rightarrow> n)"

definition applied ::
    "('s \<Rightarrow> string \<Rightarrow> rvalue option) \<Rightarrow> ('s \<Rightarrow> string \<Rightarrow> int option) \<Rightarrow> ('s \<Rightarrow> int) \<Rightarrow>
     's \<Rightarrow> increment list \<Rightarrow> 's \<Rightarrow> bool" where
  "applied val expiry clock s incs s' \<longleftrightarrow>
     clock s' = clock s \<and> (\<forall>k. counter_at val s' k = counter_at val s k + delta_of incs k) \<and>
     (\<forall>i\<in>set incs. expiry s' (Key i) = Some (unix (ExpireAt i))) \<and>
     (\<forall>k. k \<notin> Key ` set incs \<longrightarrow> val s' k = val s k \<and> expiry s' k = expiry s k)"

lemma timeout_classified [simp]:
  "isNoScript timeout_text = False" "classify (Inl timeout_text) = Some (Ambiguous timeout_text)"
  by (simp_all add: timeout_text_def isNoScript_def classify_def)

lemma noscript_text [simp]: "isNoScript ''NOSCRIPT No matching script.''"
  by (simp add: isNoScript_def)

context redis_server
begin

text \<open>The script on the arguments of a batch: an error changes nothing, success applies the batch.\<close>

lemma counter_script_batch:
  assumes args: "commandArguments incs = Inr (keys, args)" and range: "batch_in_range (clock s) incs"
    and run: "counter_script redis keys (map format_int args) s = (r, s')"
  shows "(\<exists>err. r = ErrorReply err \<and> s' = s) \<or> ((\<exists>n. r = IntReply n) \<and> applied val expiry clock s incs s')"
proof -
  have run': "counter_script redis (map fst (inc_pairs incs)) (pair_args (inc_pairs incs)) s = (r, s')"
    using run commandArguments_Inr(2,5) [OF args] by simp
  have dist: "distinct (map fst (inc_pairs incs))"
    using commandArguments_Inr(3) [OF args] by simp
  have ahead: "clock s < int t \<and> t \<le> max_expiry" if "(k, d, t) \<in> set (inc_pairs incs)" for k d t
  proof -
    obtain i where i: "i \<in> set incs" "t = nat (unix (ExpireAt i))"
      using \<open>(k, d, t) \<in> set (inc_pairs incs)\<close> unfolding in_inc_pairs by blast
    then have "0 < unix (ExpireAt i)" "clock s < unix (ExpireAt i)" "unix (ExpireAt i) \<le> int max_expiry"
      using commandArguments_Inr(4) [OF args] range by (auto simp: batch_in_range_def)
    with i(2) show ?thesis by linarith
  qed
  consider (err) err where "r = ErrorReply err" | (ok) n where "r = IntReply n"
    using counter_script_cases [of keys "map format_int args" s] run by auto
  then show ?thesis
  proof cases
    case err
    have "s' = s" by (rule counter_script_error [OF run' [unfolded err] dist ahead])
    with err show ?thesis by blast
  next
    case ok
    note post = counter_script_success [OF run' [unfolded ok] dist ahead]
    have keys: "fst ` set (inc_pairs incs) = Key ` set incs"
      by (force simp: inc_pairs_def)
    have each: "counter_fits s (Key i) (nat (Delta i)) \<and>
        val s' (Key i) = Some (RString (dec_nat (the (counter_of (val s (Key i))) + nat (Delta i)))) \<and>
        expiry s' (Key i) = Some (unix (ExpireAt i))" if "i \<in> set incs" for i
    proof -
      have "(Key i, nat (Delta i), nat (unix (ExpireAt i))) \<in> set (inc_pairs incs)"
        using that unfolding in_inc_pairs by blast
      moreover have "0 < unix (ExpireAt i)" using commandArguments_Inr(4) [OF args that] by blast
      ultimately show ?thesis
        using post [THEN conjunct2, THEN conjunct2, THEN conjunct2, THEN bspec] by fastforce
    qed
    have "counter_at val s' k = counter_at val s k + delta_of incs k" for k
    proof (cases "k \<in> Key ` set incs")
      case True
      then obtain i where i: "i \<in> set incs" "k = Key i" by blast
      with each [OF i(1)] delta_of_distinct [OF commandArguments_Inr(3) [OF args] i(1)]
      show ?thesis
        by (auto simp: counter_at_def counter_fits_def counter_of_def valid_uint_dec_nat)
    next
      case False
      then show ?thesis using post keys delta_of_notin [OF False] by (simp add: counter_at_def)
    qed
    then have "applied val expiry clock s incs s'"
      using post each keys by (simp add: applied_def)
    with ok show ?thesis by blast
  qed
qed

text \<open>One round trip: \<open>EvalSHA\<close> through a connection that may lose messages.\<close>

lemma lua_eval_batch:
  assumes args: "commandArguments incs = Inr (keys, args)" and range: "batch_in_range (clock (server c)) incs"
    and run: "lua_eval redis c h keys args = (outcome, c')"
  shows "(\<exists>err. outcome = Inl err \<and> server c' = server c) \<or>
         ((outcome = Inl timeout_text \<or> (\<exists>n. outcome = Inr (IntReply n))) \<and> applied val expiry clock (server c) incs (server c'))"
  using run counter_script_batch [OF args range]
  by (fastforce simp: lua_eval_def Let_def split: if_splits prod.splits list.splits reply.splits)

end

section \<open>\<open>Apply\<close> keeps the interface\<close>

definition conn_counter :: "('s \<Rightarrow> string \<Rightarrow> rvalue option) \<Rightarrow> 's lua_conn store \<Rightarrow> string \<Rightarrow> nat" where
  "conn_counter val st k = counter_at val (server (conn st)) k"

definition conn_accepts :: "('s \<Rightarrow> int) \<Rightarrow> 's lua_conn store \<Rightarrow> increment list \<Rightarrow> bool" where
  "conn_accepts clock st incs = batch_in_range (clock (server (conn st))) incs"

definition conn_in_time :: "('s \<Rightarrow> int) \<Rightarrow> 's lua_conn store \<Rightarrow> time \<Rightarrow> bool" where
  "conn_in_time clock st t \<longleftrightarrow>
     clock (server (conn st)) < unix t \<and> unix t \<le> int max_expiry"

lemma Load_lua [simp]:
  "Load (lua_client redis) st = (None, st\<lparr>conn := (conn st)\<lparr>loaded := True\<rparr>, sha := counter_sha\<rparr>)"
  by (simp add: Load_def lua_client_def lua_load_def)

context redis_server
begin

text \<open>One evaluation, with what \<open>Apply\<close> makes of its outcome.\<close>

lemma eval_store_batch:
  assumes args: "commandArguments incs = Inr (keys, args)"
    and range: "batch_in_range (clock (server (conn st))) incs"
    and run: "eval_store (lua_client redis) keys args st = (outcome, st')"
  shows "(\<exists>err. outcome = Inl err \<and> server (conn st') = server (conn st)) \<or>
         ((outcome = Inl timeout_text \<or> (\<exists>n. outcome = Inr (IntReply n))) \<and>
          applied val expiry clock (server (conn st)) incs (server (conn st')))"
proof -
  obtain c' where c': "lua_eval redis (conn st) (sha st) keys args = (outcome, c')" "st' = st\<lparr>conn := c'\<rparr>"
    using run by (auto simp: eval_store_def lua_client_def split: prod.splits)
  then show ?thesis using lua_eval_batch [OF args range c'(1)] by simp
qed

lemma classify_None: "classify outcome = None \<longleftrightarrow> (\<exists>r. outcome = Inr r)"
  by (auto simp: classify_def split: sum.splits)

text \<open>The three outcomes of \<open>Apply\<close>.\<close>

lemma Apply_outcome:
  assumes run: "Apply (lua_client redis) st incs = (res, st')"
    and range: "batch_in_range (clock (server (conn st))) incs"
  shows "case res of
      None \<Rightarrow> applied val expiry clock (server (conn st)) incs (server (conn st'))
    | Some err \<Rightarrow> server (conn st') = server (conn st) \<or>
        (IsAmbiguous err \<and> applied val expiry clock (server (conn st)) incs (server (conn st')))"
proof (cases "commandArguments incs")
  case (Inl err)
  with run show ?thesis by (auto simp: Apply_def)
next
  case (Inr ka)
  then obtain keys args where args: "commandArguments incs = Inr (keys, args)" by (cases ka) auto
  define st1 where "st1 = (if sha st = [] then snd (Load (lua_client redis) st) else st)"
  have server1: "server (conn st1) = server (conn st)" by (simp add: st1_def)
  obtain outcome st2 where ev1: "eval_store (lua_client redis) keys args st1 = (outcome, st2)"
    by (meson surj_pair)
  note one = eval_store_batch [OF args _ ev1, unfolded server1, OF range]
  show ?thesis
  proof (cases "\<exists>err. outcome = Inl err \<and> isNoScript err")
    case False
    then have "res = classify outcome" "st' = st2"
      using run args ev1 by (auto simp: Apply_def st1_def split: if_splits sum.splits)
    with one show ?thesis
      by (auto simp: classify_None IsAmbiguous_def split: option.splits)
        (auto simp: classify_def)
  next
    case True
    then have server2: "server (conn st2) = server (conn st)" using one by auto
    define st3 where "st3 = snd (Load (lua_client redis) st2)"
    have server3: "server (conn st3) = server (conn st)" by (simp add: st3_def server2)
    obtain outcome' st4 where ev2: "eval_store (lua_client redis) keys args st3 = (outcome', st4)"
      by (meson surj_pair)
    have "res = classify outcome'" "st' = st4"
      using run args ev1 ev2 True by (auto simp: Apply_def st1_def st3_def split: if_splits)
    with eval_store_batch [OF args _ ev2, unfolded server3, OF range] show ?thesis
      by (auto simp: classify_None IsAmbiguous_def split: option.splits)
        (auto simp: classify_def)
  qed
qed

end

sublocale redis_server \<subseteq> cs: counter_store "Apply (lua_client redis)" "conn_counter val" "conn_accepts clock"
proof
  fix st st' incs k err
  have count: "conn_counter val x = counter_at val (server (conn x))" for x
    by (simp add: conn_counter_def fun_eq_iff)
  show "conn_counter val st' k = conn_counter val st k + delta_of incs k"
    if "conn_accepts clock st incs" "Apply (lua_client redis) st incs = (None, st')"
    using Apply_outcome [OF that(2)] that(1) by (simp add: conn_accepts_def count applied_def)
  show "conn_counter val st' = conn_counter val st"
    if "conn_accepts clock st incs" "Apply (lua_client redis) st incs = (Some err, st')" "\<not> IsAmbiguous err"
    using Apply_outcome [OF that(2)] that(1,3) by (simp add: conn_accepts_def count)
  show "conn_counter val st' = conn_counter val st \<or>
        conn_counter val st' = (\<lambda>k. conn_counter val st k + delta_of incs k)"
    if "conn_accepts clock st incs" "Apply (lua_client redis) st incs = (Some err, st')" "IsAmbiguous err"
    using Apply_outcome [OF that(2)] that(1) by (auto simp: conn_accepts_def count applied_def fun_eq_iff)
qed

sublocale redis_server \<subseteq> ts: timed_store "Apply (lua_client redis)" "conn_counter val" "conn_accepts clock"
  "conn_in_time clock"
proof
  fix st st' incs res
  show "(\<And>i. i \<in> set incs \<Longrightarrow> conn_in_time clock st (ExpireAt i)) \<Longrightarrow> conn_accepts clock st incs"
    by (simp add: conn_accepts_def batch_in_range_def conn_in_time_def)
  assume "conn_accepts clock st incs" and "Apply (lua_client redis) st incs = (res, st')"
  then have "clock (server (conn st')) = clock (server (conn st))"
    using Apply_outcome [of st incs res st']
    by (auto simp: conn_accepts_def applied_def split: option.splits)
  then show "conn_in_time clock st' = conn_in_time clock st"
    by (simp add: conn_in_time_def fun_eq_iff)
qed

section \<open>Properties\<close>

text \<open>C30: the counter script is all or nothing: on any arguments whose expiries Redis accepts, an error
  reply leaves the server as it was, and success adds every delta to a well-formed counter without
  overflow, sets every expiry and touches no other key.\<close>

theorem counter_script_all_or_nothing:
  assumes "redis_server redis val expiry clock"
    and "counter_script redis (map fst ps) (pair_args ps) s = (r, s')"
    and "distinct (map fst ps)"
    and "\<And>k d t. (k, d, t) \<in> set ps \<Longrightarrow> clock s < int t \<and> t \<le> max_expiry"
  shows "case r of
      ErrorReply err \<Rightarrow> s' = s
    | IntReply n \<Rightarrow> n = int (length ps) \<and> clock s' = clock s \<and>
        (\<forall>k. k \<notin> fst ` set ps \<longrightarrow> val s' k = val s k \<and> expiry s' k = expiry s k) \<and>
        (\<forall>(k, d, t)\<in>set ps. \<exists>n. counter_of (val s k) = Some n \<and> n + d \<le> 9223372036854775807 \<and>
           val s' k = Some (RString (dec_nat (n + d))) \<and> expiry s' k = Some (int t))
    | _ \<Rightarrow> False"
proof -
  consider (err) e where "r = ErrorReply e" | (ok) n where "r = IntReply n"
    using redis_server.counter_script_cases [OF assms(1), of "map fst ps" "pair_args ps" s] assms(2) by auto
  then show ?thesis
  proof cases
    case err
    then show ?thesis using redis_server.counter_script_error [OF assms(1) _ assms(3,4)] assms(2) by auto
  next
    case ok
    note post = redis_server.counter_script_success [OF assms(1) assms(2) [unfolded ok] assms(3,4)]
    then have "\<forall>(k, d, t)\<in>set ps. \<exists>n. counter_of (val s k) = Some n \<and> n + d \<le> 9223372036854775807 \<and>
           val s' k = Some (RString (dec_nat (n + d))) \<and> expiry s' k = Some (int t)"
      by (fastforce simp: redis_server.counter_fits_def [OF assms(1)])
    with post ok show ?thesis by simp
  qed
qed

definition half_bad :: mem_state where
  "half_bad = (mem_empty 5)\<lparr>mem_val := [''b'' \<mapsto> ROther ''hash'']\<rparr>"

theorem counter_script_all_or_nothing_witness:
  "mem_val (snd (counter_script mem_redis [''a'', ''b''] [''2'', ''100'', ''3'', ''100''] half_bad)) ''a'' = None \<and>
   mem_val (snd (counter_script mem_redis [''a''] [''2'', ''100''] half_bad)) ''a'' = Some (RString ''2'')"
proof -
  let ?two = "[(''a'', 2, 100), (''b'', 3, 100)] :: (string \<times> nat \<times> nat) list"
  let ?one = "[(''a'', 2, 100)] :: (string \<times> nat \<times> nat) list"
  have args: "pair_args ?two = [''2'', ''100'', ''3'', ''100'']" "pair_args ?one = [''2'', ''100'']" by code_simp+
  obtain r2 s2 where two: "counter_script mem_redis (map fst ?two) (pair_args ?two) half_bad = (r2, s2)" by fastforce
  have "\<exists>e. r2 = ErrorReply e"
  proof -
    have "case fst (counter_script mem_redis (map fst ?two) (pair_args ?two) half_bad) of
        ErrorReply e \<Rightarrow> True | _ \<Rightarrow> False"
      by code_simp
    then show ?thesis using two by (simp split: reply.splits)
  qed
  moreover have range: "mem_clock half_bad < int t \<and> t \<le> max_expiry" if "(k, d, t) \<in> set ?two" for k d t
    using that by (auto simp: half_bad_def mem_empty_def max_expiry_def)
  ultimately have "s2 = half_bad"
    using counter_script_all_or_nothing [OF mem.redis_server_axioms two _ range] by auto
  obtain r1 s1 where one: "counter_script mem_redis (map fst ?one) (pair_args ?one) half_bad = (r1, s1)" by fastforce
  have "fst (counter_script mem_redis (map fst ?one) (pair_args ?one) half_bad) = IntReply 1" by code_simp
  then have "r1 = IntReply 1" using one by simp
  moreover have "mem_clock half_bad < int t \<and> t \<le> max_expiry" if "(k, d, t) \<in> set ?one" for k d t
    using that by (intro range) auto
  ultimately have "mem_val s1 ''a'' = Some (RString (dec_nat 2))"
    using counter_script_all_or_nothing [OF mem.redis_server_axioms one]
    by (simp add: half_bad_def mem_empty_def counter_of_def del: dec_nat.simps)
  moreover have "dec_nat 2 = ''2''" by code_simp
  ultimately show ?thesis
    using one two \<open>s2 = half_bad\<close> unfolding args by (simp add: half_bad_def mem_empty_def)
qed

text \<open>C18: \<open>Apply\<close> over a connection that may lose the request or the reply of any evaluation: no error
  means the batch was applied exactly once; an unambiguous error that nothing was; an ambiguous
  one that it was applied once or not at all, never in part and never twice.\<close>

theorem apply_outcome:
  assumes "redis_server redis val expiry clock"
    and "Apply (lua_client redis) st incs = (res, st')" and "batch_in_range (clock (server (conn st))) incs"
  shows "case res of
      None \<Rightarrow> applied val expiry clock (server (conn st)) incs (server (conn st'))
    | Some err \<Rightarrow> server (conn st') = server (conn st) \<or>
        (IsAmbiguous err \<and> applied val expiry clock (server (conn st)) incs (server (conn st')))"
  by (rule redis_server.Apply_outcome [OF assms])

definition small_batch :: "increment list" where
  "small_batch = [\<lparr>Key = ''k'', Delta = 4, ExpireAt = 100 * Second\<rparr>]"

definition lossy_store :: "mem_state lua_conn store" where
  "lossy_store = NewStore \<lparr>server = mem_empty 5, loaded = False, faults = [ReplyLost]\<rparr>"

theorem apply_outcome_witness:
  "IsAmbiguous (the (fst (Apply (lua_client mem_redis) lossy_store small_batch))) \<and>
   (server (conn (snd (Apply (lua_client mem_redis) lossy_store small_batch))) = mem_empty 5 \<or>
    applied mem_val mem_expiry mem_clock (mem_empty 5) small_batch
      (server (conn (snd (Apply (lua_client mem_redis) lossy_store small_batch)))))"
proof -
  obtain res st' where run: "Apply (lua_client mem_redis) lossy_store small_batch = (res, st')" by fastforce
  have amb: "case fst (Apply (lua_client mem_redis) lossy_store small_batch) of None \<Rightarrow> False | Some e \<Rightarrow> IsAmbiguous e"
    by code_simp
  have server: "server (conn lossy_store) = mem_empty 5" by (simp add: lossy_store_def NewStore_def)
  have "batch_in_range (mem_clock (server (conn lossy_store))) small_batch"
    by (simp add: server batch_in_range_def small_batch_def mem_empty_def unix_def Second_def max_expiry_def)
  from apply_outcome [OF mem.redis_server_axioms run this] amb run server show ?thesis
    by (auto split: option.splits)
qed

end
