(* ===== verification/Tierer_Scripts.thy ===== *)
theory Tierer_Scripts
  imports Counter_Store
begin

text \<open>
  The three Lua scripts of \<^verbatim>\<open>internal/tierer/redis.go\<close> over a Redis server: the two readers, which
  write nothing, and \<open>reserveBudgetScript\<close>, which checks both budgets before it counts an attempt.
  Their helpers \<^verbatim>\<open>valid_uint\<close>, \<^verbatim>\<open>add_uint\<close> and \<^verbatim>\<open>less_or_equal\<close> are those of theory \<open>Decimal\<close>.
\<close>

section \<open>Reading\<close>

text \<open>The reader of counters: \<open>Inl\<close> is the error reply.\<close>

definition read_counter :: "'s redis \<Rightarrow> 's \<Rightarrow> string \<Rightarrow> string + string" where
  "read_counter redis s key =
     (let kind = r_type redis s key
      in if kind = ''none'' then Inr ''0''
         else if kind \<noteq> ''string'' then Inl ''CWM_VALIDATION wrong counter type''
         else case r_get redis s key of
                None \<Rightarrow> Inl ''bad argument #1 to 'match' (string expected, got boolean)''
              | Some v \<Rightarrow>
                  if v \<noteq> ''0'' \<and> \<not> match_positive v then Inl ''CWM_VALIDATION malformed counter''
                  else if length v > length MAX_INT64 \<or> (length v = length MAX_INT64 \<and> v > MAX_INT64)
                  then Inl ''CWM_VALIDATION counter overflow''
                  else Inr v)"

definition read_unsigned_script :: "'s redis \<Rightarrow> string list \<Rightarrow> 's \<Rightarrow> reply" where
  "read_unsigned_script redis keys s =
     (case traverse (read_counter redis s) keys of
        Inl err \<Rightarrow> ErrorReply err | Inr out \<Rightarrow> ArrayReply (map BulkReply out))"

definition read_optional :: "'s redis \<Rightarrow> 's \<Rightarrow> string \<Rightarrow> string + reply" where
  "read_optional redis s key =
     (let kind = r_type redis s key
      in if kind = ''none'' then Inr NilReply
         else if kind \<noteq> ''string'' then Inl ''CWM_VALIDATION wrong coverage type''
         else case r_get redis s key of None \<Rightarrow> Inr NilReply | Some v \<Rightarrow> Inr (BulkReply v))"

definition read_optional_script :: "'s redis \<Rightarrow> string list \<Rightarrow> 's \<Rightarrow> reply" where
  "read_optional_script redis keys s =
     (case traverse (read_optional redis s) keys of Inl err \<Rightarrow> ErrorReply err | Inr out \<Rightarrow> ArrayReply out)"

section \<open>Reserving\<close>

text \<open>
  An integer reply of \<^verbatim>\<open>redis.call\<close> is a Lua number, a double, and becomes an integer again when the
  script returns it: above \<open>2 ^ 53\<close> it is rounded to the nearest double, ties to even, and the
  largest integers round to \<open>2 ^ 63\<close>, which the conversion back cannot represent.
\<close>

function double_unit :: "int \<Rightarrow> int" where
  "double_unit n = (if n < 2 ^ 53 then 1 else 2 * double_unit (n div 2))"
  by pat_completeness auto
termination
  by (relation "measure nat") auto

declare double_unit.simps [simp del]

definition round_double :: "int \<Rightarrow> int" where
  "round_double n =
     (if n < 2 ^ 53 then n
      else let unit = double_unit n;
               q = n div unit; r = n mod unit
           in (if 2 * r > unit \<or> (2 * r = unit \<and> odd q) then q + 1 else q) * unit)"

definition lua_integer :: "int \<Rightarrow> int" where
  "lua_integer n = (if round_double n > max_int64 then min_int64 else round_double n)"

text \<open>The script's \<^verbatim>\<open>current(key)\<close>.\<close>

definition budget_current :: "'s redis \<Rightarrow> 's \<Rightarrow> string \<Rightarrow> string option" where
  "budget_current redis s key =
     (let kind = r_type redis s key
      in if kind = ''none'' then Some ''0''
         else if kind \<noteq> ''string'' then None
         else case r_get redis s key of None \<Rightarrow> None | Some raw \<Rightarrow> if valid_uint raw then Some raw else None)"

definition incr_then_expire ::
    "'s redis \<Rightarrow> 's \<Rightarrow> string \<Rightarrow> string \<Rightarrow> string \<Rightarrow> (string + int) \<times> 's" where
  "incr_then_expire redis s key delta expires =
     (case r_incrby redis s key delta of
        Inl err \<Rightarrow> (Inl err, s)
      | Inr (n, s1) \<Rightarrow>
          (case r_expireat redis s1 key expires of Inl err \<Rightarrow> (Inl err, s1) | Inr s2 \<Rightarrow> (Inr n, s2)))"

definition reserve_script ::
    "'s redis \<Rightarrow> string \<Rightarrow> string \<Rightarrow> string \<Rightarrow> string \<Rightarrow> string \<Rightarrow> string \<Rightarrow> 's \<Rightarrow> reply \<times> 's" where
  "reserve_script redis key1 key2 attemptLimit byteLimit byteDelta expires s =
     (case (budget_current redis s key1, budget_current redis s key2) of
        (Some attempts, Some bytes) \<Rightarrow>
          if \<not> valid_uint attemptLimit \<or> attemptLimit = ''0'' \<or> \<not> valid_uint byteLimit \<or>
             byteLimit = ''0'' \<or> \<not> valid_uint byteDelta
          then (ErrorReply ''CWM_VALIDATION invalid budget arguments'', s)
          else (case (add_uint attempts ''1'', add_uint bytes byteDelta) of
              (Some newAttemptValue, Some newByteValue) \<Rightarrow>
                if \<not> less_or_equal newAttemptValue attemptLimit \<or> \<not> less_or_equal newByteValue byteLimit
                then (ArrayReply [IntReply 0, BulkReply attempts, BulkReply bytes], s)
                else (case incr_then_expire redis s key1 ''1'' expires of
                    (Inl err, s1) \<Rightarrow> (ErrorReply err, s1)
                  | (Inr newAttempts, s1) \<Rightarrow>
                      if byteDelta \<noteq> ''0''
                      then (case incr_then_expire redis s1 key2 byteDelta expires of
                              (Inl err, s2) \<Rightarrow> (ErrorReply err, s2)
                            | (Inr newBytes, s2) \<Rightarrow>
                                (ArrayReply [IntReply 1, IntReply (lua_integer newAttempts),
                                   IntReply (lua_integer newBytes)], s2))
                      else (ArrayReply [IntReply 1, IntReply (lua_integer newAttempts), BulkReply bytes], s1))
            | _ \<Rightarrow> (ArrayReply [IntReply 0, BulkReply attempts, BulkReply bytes], s))
      | _ \<Rightarrow> (ErrorReply ''CWM_VALIDATION malformed budget'', s))"

section \<open>What the scripts do\<close>

lemma valid_uint_alt:
  "valid_uint v \<longleftrightarrow> \<not> (v \<noteq> ''0'' \<and> \<not> match_positive v) \<and>
     \<not> (length v > length MAX_INT64 \<or> (length v = length MAX_INT64 \<and> v > MAX_INT64))"
  by (auto simp: valid_uint_def MAX_INT64_def)

context redis_server
begin

lemma read_counter_eq:
  "read_counter redis s k = Inr v \<longleftrightarrow> (\<exists>n. counter_of (val s k) = Some n \<and> v = dec_nat n)"
proof (cases "val s k")
  case None
  then show ?thesis using none_value [of s k] by (auto simp: read_counter_def counter_of_def)
next
  case (Some r)
  show ?thesis
  proof (cases r)
    case (RString raw)
    then have "r_type redis s k = ''string''" "r_get redis s k = Some raw"
      using Some type_string get_string by auto
    then have "read_counter redis s k = Inr v \<longleftrightarrow> valid_uint raw \<and> v = raw"
      unfolding read_counter_def valid_uint_alt by auto
    also have "\<dots> \<longleftrightarrow> (\<exists>n. counter_of (val s k) = Some n \<and> v = dec_nat n)"
      using Some RString by (auto simp: counter_of_def valid_uint_iff dec_nat_of_val)
    finally show ?thesis .
  next
    case (ROther ty)
    then show ?thesis using Some type_other [of s k ty] by (auto simp: read_counter_def counter_of_def)
  qed
qed

lemma budget_current_eq:
  "budget_current redis s k = map_option dec_nat (counter_of (val s k))"
proof (cases "val s k")
  case None
  then show ?thesis using none_value [of s k] by (simp add: budget_current_def counter_of_def)
next
  case (Some r)
  then show ?thesis
    using type_string [of s k] type_other [of s k] get_string [of s k]
    by (cases r) (auto simp: budget_current_def counter_of_def valid_uint_iff dec_nat_of_val)
qed

lemma incr_then_expire_ok:
  assumes "counter_of (val s k) = Some n" and "n + d \<le> 9223372036854775807"
    and "clock s < int t" and "t \<le> max_expiry"
  obtains s' where "incr_then_expire redis s k (dec_nat d) (dec_nat t) = (Inr (int (n + d)), s')"
    and "val s' = (val s)(k \<mapsto> RString (dec_nat (n + d)))" and "expiry s' = (expiry s)(k \<mapsto> int t)"
    and "clock s' = clock s"
  using incr_expire [OF assms] by (auto simp: incr_then_expire_def)

text \<open>
  The reservation: it is granted exactly when both new totals keep their limits, and then counts
  one attempt and the bytes; a denial and an error write nothing.
\<close>

lemma reserve_script_cases:
  assumes "k1 \<noteq> k2" and "clock s < int t" and "t \<le> max_expiry"
    and "0 < al" and "0 < bl" and "al \<le> 9223372036854775807" and "bl \<le> 9223372036854775807"
    and "d \<le> 9223372036854775807"
  shows "case (counter_of (val s k1), counter_of (val s k2)) of
      (Some a, Some b) \<Rightarrow>
        if a + 1 \<le> al \<and> b + d \<le> bl
        then \<exists>n1 n2 s'. reserve_script redis k1 k2 (dec_nat al) (dec_nat bl) (dec_nat d) (dec_nat t) s
               = (ArrayReply [IntReply 1, n1, n2], s') \<and> clock s' = clock s \<and>
             n1 = IntReply (lua_integer (int (a + 1))) \<and>
             n2 = (if d = 0 then BulkReply (dec_nat b) else IntReply (lua_integer (int (b + d)))) \<and>
             counter_at val s' k1 = a + 1 \<and> counter_at val s' k2 = b + d \<and>
             (\<forall>k. k \<noteq> k1 \<longrightarrow> k \<noteq> k2 \<longrightarrow> val s' k = val s k)
        else reserve_script redis k1 k2 (dec_nat al) (dec_nat bl) (dec_nat d) (dec_nat t) s
               = (ArrayReply [IntReply 0, BulkReply (dec_nat a), BulkReply (dec_nat b)], s)
    | _ \<Rightarrow> \<exists>err. reserve_script redis k1 k2 (dec_nat al) (dec_nat bl) (dec_nat d) (dec_nat t) s = (ErrorReply err, s)"
proof (cases "counter_of (val s k1)")
  case None
  then show ?thesis by (simp add: reserve_script_def budget_current_eq)
next
  case a: (Some a)
  show ?thesis
  proof (cases "counter_of (val s k2)")
    case None
    with a show ?thesis by (simp add: reserve_script_def budget_current_eq)
  next
    case b: (Some b)
    have one: "''1'' = dec_nat 1" by code_simp
    have args: "valid_uint (dec_nat al)" "dec_nat al \<noteq> ''0''" "valid_uint (dec_nat bl)" "dec_nat bl \<noteq> ''0''"
      "valid_uint (dec_nat d)" "dec_nat d \<noteq> ''0'' \<longleftrightarrow> 0 < d"
      using assms(4-8) by (simp_all add: valid_uint_dec_nat dec_nat_zero_iff del: dec_nat.simps)
    let ?run = "reserve_script redis k1 k2 (dec_nat al) (dec_nat bl) (dec_nat d) (dec_nat t) s"
    show ?thesis
    proof (cases "a + 1 \<le> al \<and> b + d \<le> bl")
      case False
      then have "?run = (ArrayReply [IntReply 0, BulkReply (dec_nat a), BulkReply (dec_nat b)], s)"
        using a b args unfolding reserve_script_def one
        by (auto simp: budget_current_eq add_uint_dec_nat less_or_equal_dec_nat simp del: dec_nat.simps)
      with a b False show ?thesis by simp
    next
      case True
      then have fits: "a + 1 \<le> 9223372036854775807" "b + d \<le> 9223372036854775807" using assms(6,7) by linarith+
      obtain s1 where s1: "incr_then_expire redis s k1 (dec_nat 1) (dec_nat t) = (Inr (int (a + 1)), s1)"
        and v1: "val s1 = (val s)(k1 \<mapsto> RString (dec_nat (a + 1)))" and c1: "clock s1 = clock s"
        using incr_then_expire_ok [OF a fits(1) assms(2,3)] .
      have b1: "counter_of (val s1 k2) = Some b" using b v1 assms(1) by simp
      obtain s2 where s2: "incr_then_expire redis s1 k2 (dec_nat d) (dec_nat t) = (Inr (int (b + d)), s2)"
        and v2: "val s2 = (val s1)(k2 \<mapsto> RString (dec_nat (b + d)))" and c2: "clock s2 = clock s1"
        using incr_then_expire_ok [OF b1 fits(2), of t] assms(2,3) c1 by auto
      have run: "?run = (ArrayReply [IntReply 1, IntReply (lua_integer (int (a + 1))),
          if d = 0 then BulkReply (dec_nat b) else IntReply (lua_integer (int (b + d)))], if d = 0 then s1 else s2)"
        using a b args True fits s1 s2 unfolding reserve_script_def one
        by (auto simp: budget_current_eq add_uint_dec_nat less_or_equal_dec_nat simp del: dec_nat.simps)
      have c: "counter_of (Some (RString (dec_nat m))) = Some m" if "m \<le> 9223372036854775807" for m
        using that by (simp add: counter_of_def valid_uint_dec_nat)
      have "counter_at val (if d = 0 then s1 else s2) k1 = a + 1 \<and>
          counter_at val (if d = 0 then s1 else s2) k2 = b + d"
        using v1 v2 b1 assms(1) fits c by (auto simp: counter_at_def simp del: dec_nat.simps)
      then show ?thesis
        using a b True run v1 v2 c1 c2 by (auto simp del: dec_nat.simps)
    qed
  qed
qed

end

end
