(* ===== verification/Evaluator.thy ===== *)
theory Evaluator
  imports Clock
begin

text \<open>
  \<^verbatim>\<open>internal/tierer/evaluator.go\<close>: the decision whether an object's usage is low or high, and the
  action that follows from the decision and the object's transition state. The sums are Go
  \<^verbatim>\<open>int64\<close> sums with the code's own overflow guard.
\<close>

record policy =
  LowThreshold :: int
  LowWindowHours :: int
  HighThreshold :: int
  HighWindowHours :: int
  HighIncludeCurrent :: bool

record evaluation =
  EvalHour :: time
  EvalLastModified :: time
  LowCounts :: "int list"
  LowCoverage :: "bool list"
  HighCounts :: "int list"

record result =
  Low :: bool
  High :: bool
  CoverageComplete :: bool

datatype sum_error = NegativeCount | SumOverflow

datatype eval_error =
    InvalidPolicy
  | UsageMismatch
  | LowWindowError sum_error
  | HighWindowError sum_error

fun sum_loop :: "int \<Rightarrow> int list \<Rightarrow> sum_error + int" where
  "sum_loop tot [] = Inr tot"
| "sum_loop tot (cnt # counts) =
     (if cnt < 0 then Inl NegativeCount
      else if cnt > wrap64 (max_int64 - tot) then Inl SumOverflow
      else sum_loop (wrap64 (tot + cnt)) counts)"

definition sumCounts :: "int list \<Rightarrow> sum_error + int" where
  "sumCounts counts = sum_loop 0 counts"

definition Evaluate :: "evaluation \<Rightarrow> policy \<Rightarrow> eval_error + result" where
  "Evaluate input policy =
     (if LowThreshold policy < 0 \<or> HighThreshold policy < 0 \<or>
         LowWindowHours policy \<le> 0 \<or> HighWindowHours policy \<le> 0
      then Inl InvalidPolicy
      else if int (length (LowCounts input)) \<noteq> LowWindowHours policy \<or>
              int (length (LowCoverage input)) \<noteq> LowWindowHours policy \<or>
              int (length (HighCounts input)) \<noteq> HighWindowHours policy
      then Inl UsageMismatch
      else case sumCounts (LowCounts input) of
             Inl err \<Rightarrow> Inl (LowWindowError err)
           | Inr lowSum \<Rightarrow>
               (case sumCounts (HighCounts input) of
                  Inl err \<Rightarrow> Inl (HighWindowError err)
                | Inr highSum \<Rightarrow>
                    let complete = foldl (\<and>) True (LowCoverage input);
                        hour = truncate_time (EvalHour input) Hour;
                        oldEnough = (\<not> after (EvalLastModified input)
                                          (hour + hours_duration (- LowWindowHours policy)))
                    in Inr \<lparr>Low = complete \<and> oldEnough \<and> lowSum < LowThreshold policy,
                            High = highSum > HighThreshold policy,
                            CoverageComplete = complete\<rparr>))"

record restore_state =
  Ongoing :: bool
  Expires :: time

record object_state =
  Transitioned :: bool
  Restore :: "restore_state option"

datatype action = ActionNone | ActionMark | ActionRestore | ActionRenew

definition DecideAction :: "object_state \<Rightarrow> bool \<Rightarrow> bool \<Rightarrow> time \<Rightarrow> action" where
  "DecideAction state low high now =
     (if \<not> Transitioned state then (if low then ActionMark else ActionNone)
      else if \<not> high \<or> (case Restore state of None \<Rightarrow> False | Some r \<Rightarrow> Ongoing r) then ActionNone
      else if (case Restore state of None \<Rightarrow> False | Some r \<Rightarrow> after (Expires r) now) then ActionRenew
      else ActionRestore)"

section \<open>The sum\<close>

lemma sum_loop_eq:
  assumes "0 \<le> tot" and "tot \<le> max_int64"
  shows "sum_loop tot counts = Inr s \<longleftrightarrow>
     (\<forall>c\<in>set counts. 0 \<le> c) \<and> tot + sum_list counts \<le> max_int64 \<and> s = tot + sum_list counts"
  using assms
proof (induction counts arbitrary: tot)
  case (Cons c counts)
  have guard: "wrap64 (max_int64 - tot) = max_int64 - tot"
    using Cons.prems by (intro wrap64_id) (simp add: int64_def min_int64_def max_int64_def)
  have pos: "(\<forall>c\<in>set counts. 0 \<le> c) \<Longrightarrow> 0 \<le> sum_list counts"
    by (intro sum_list_nonneg) auto
  show ?case
  proof (cases "0 \<le> c \<and> c \<le> max_int64 - tot")
    case True
    then have "wrap64 (tot + c) = tot + c"
      using Cons.prems by (intro wrap64_id) (simp add: int64_def min_int64_def)
    with True Cons.IH [of "tot + c"] Cons.prems show ?thesis
      by (auto simp: guard add.assoc)
  next
    case False
    with pos show ?thesis by (auto simp: guard)
  qed
qed auto

lemma sumCounts_eq:
  "sumCounts counts = Inr s \<longleftrightarrow>
     (\<forall>c\<in>set counts. 0 \<le> c) \<and> sum_list counts \<le> max_int64 \<and> s = sum_list counts"
  using sum_loop_eq [of 0 counts s] by (simp add: sumCounts_def max_int64_def)

lemma sumCounts_Inl:
  "sumCounts counts = Inl e \<Longrightarrow> (\<exists>c\<in>set counts. c < 0) \<or> max_int64 < sum_list counts"
proof -
  assume "sumCounts counts = Inl e"
  then have "sumCounts counts \<noteq> Inr (sum_list counts)" by simp
  then show ?thesis unfolding sumCounts_eq by (simp add: not_le)
qed

lemma foldl_and: "foldl (\<and>) b cs \<longleftrightarrow> b \<and> list_all id cs"
  by (induction cs arbitrary: b) auto

lemma Evaluate_Inr:
  assumes "Evaluate input policy = Inr r"
  shows "int (length (LowCounts input)) = LowWindowHours policy"
    and "int (length (LowCoverage input)) = LowWindowHours policy"
    and "int (length (HighCounts input)) = HighWindowHours policy"
    and "0 \<le> LowThreshold policy" and "0 \<le> HighThreshold policy"
    and "0 < LowWindowHours policy" and "0 < HighWindowHours policy"
    and "sumCounts (LowCounts input) = Inr (sum_list (LowCounts input))"
    and "sumCounts (HighCounts input) = Inr (sum_list (HighCounts input))"
    and "CoverageComplete r \<longleftrightarrow> list_all id (LowCoverage input)"
    and "High r \<longleftrightarrow> HighThreshold policy < sum_list (HighCounts input)"
    and "Low r \<longleftrightarrow> list_all id (LowCoverage input) \<and> sum_list (LowCounts input) < LowThreshold policy \<and>
           EvalLastModified input
             \<le> truncate_time (EvalHour input) Hour + hours_duration (- LowWindowHours policy)"
  using assms
  by (auto simp: Evaluate_def Let_def foldl_and after_def sumCounts_eq not_less
      split: if_splits sum.splits)

lemma Evaluate_total:
  assumes "0 \<le> LowThreshold policy" and "0 \<le> HighThreshold policy"
    and "0 < LowWindowHours policy" and "0 < HighWindowHours policy"
    and "int (length (LowCounts input)) = LowWindowHours policy"
    and "int (length (LowCoverage input)) = LowWindowHours policy"
    and "int (length (HighCounts input)) = HighWindowHours policy"
    and "\<forall>c\<in>set (LowCounts input). 0 \<le> c" and "\<forall>c\<in>set (HighCounts input). 0 \<le> c"
    and "sum_list (LowCounts input) \<le> max_int64" and "sum_list (HighCounts input) \<le> max_int64"
  shows "\<exists>r. Evaluate input policy = Inr r"
proof -
  have "sumCounts (LowCounts input) = Inr (sum_list (LowCounts input))"
    and "sumCounts (HighCounts input) = Inr (sum_list (HighCounts input))"
    using assms by (simp_all add: sumCounts_eq)
  with assms show ?thesis by (simp add: Evaluate_def Let_def)
qed

section \<open>The action\<close>

lemma DecideAction_mark: "DecideAction st low high now = ActionMark \<longleftrightarrow> \<not> Transitioned st \<and> low"
  by (simp add: DecideAction_def)

lemma DecideAction_restore_or_renew:
  "DecideAction st low high now \<in> {ActionRestore, ActionRenew} \<longleftrightarrow>
     Transitioned st \<and> high \<and> (\<forall>r. Restore st = Some r \<longrightarrow> \<not> Ongoing r)"
  by (auto simp: DecideAction_def split: option.splits)

lemma DecideAction_renew:
  "DecideAction st low high now = ActionRenew \<longleftrightarrow>
     Transitioned st \<and> high \<and> (\<exists>r. Restore st = Some r \<and> \<not> Ongoing r \<and> now < Expires r)"
  by (auto simp: DecideAction_def after_def split: option.splits)

lemma DecideAction_none_if_idle: "DecideAction st False False now = ActionNone"
  by (simp add: DecideAction_def)

section \<open>Properties\<close>

text \<open>The verdict the documentation promises, over unbounded integers.\<close>

definition usage_matches :: "evaluation \<Rightarrow> policy \<Rightarrow> bool" where
  "usage_matches input policy \<longleftrightarrow>
     0 \<le> LowThreshold policy \<and> 0 \<le> HighThreshold policy \<and>
     0 < LowWindowHours policy \<and> 0 < HighWindowHours policy \<and>
     int (length (LowCounts input)) = LowWindowHours policy \<and>
     int (length (LowCoverage input)) = LowWindowHours policy \<and>
     int (length (HighCounts input)) = HighWindowHours policy \<and>
     (\<forall>c\<in>set (LowCounts input) \<union> set (HighCounts input). 0 \<le> c) \<and>
     sum_list (LowCounts input) \<le> max_int64 \<and> sum_list (HighCounts input) \<le> max_int64"

definition verdict :: "evaluation \<Rightarrow> policy \<Rightarrow> result" where
  "verdict input policy =
     \<lparr>Low = (list_all id (LowCoverage input) \<and> sum_list (LowCounts input) < LowThreshold policy \<and>
             EvalLastModified input \<le> (hour_slot (EvalHour input) - LowWindowHours policy) * Hour),
      High = HighThreshold policy < sum_list (HighCounts input),
      CoverageComplete = list_all id (LowCoverage input)\<rparr>"

lemma Evaluate_verdict:
  assumes "Evaluate input policy = Inr r" and "LowWindowHours policy \<le> 2562047"
  shows "r = verdict input policy"
proof -
  note e = Evaluate_Inr [OF assms(1)]
  have "truncate_time (EvalHour input) Hour + hours_duration (- LowWindowHours policy)
      = (hour_slot (EvalHour input) - LowWindowHours policy) * Hour"
    using hours_duration_small [of "- LowWindowHours policy"] e(6) assms(2)
    by (simp add: truncate_hour left_diff_distrib)
  with e(10-12) show ?thesis
    by (intro result.equality) (simp_all add: verdict_def)
qed

text \<open>C35: \<open>Evaluate\<close> succeeds exactly on a valid policy with matching, non-negative usage whose sums
  fit 64 bits, and then gives the documented verdict: low needs complete coverage, an object older
  than the whole low window and a sum below the threshold; high a sum above it.\<close>

theorem evaluate_gives_verdict:
  assumes "LowWindowHours policy \<le> 2562047"
  shows "Evaluate input policy = Inr r \<longleftrightarrow> usage_matches input policy \<and> r = verdict input policy"
proof
  assume run: "Evaluate input policy = Inr r"
  have "usage_matches input policy"
    using Evaluate_Inr(1-9) [OF run] by (auto simp: usage_matches_def sumCounts_eq)
  then show "usage_matches input policy \<and> r = verdict input policy"
    using Evaluate_verdict [OF run assms] by blast
next
  assume u: "usage_matches input policy \<and> r = verdict input policy"
  then obtain r' where "Evaluate input policy = Inr r'"
    using Evaluate_total [of policy input] by (auto simp: usage_matches_def)
  then show "Evaluate input policy = Inr r"
    using Evaluate_verdict [OF _ assms] u by blast
qed

theorem evaluate_gives_verdict_witness:
  "Evaluate \<lparr>EvalHour = 100 * Hour, EvalLastModified = 98 * Hour, LowCounts = [1, 2],
       LowCoverage = [True, True], HighCounts = [7]\<rparr>
     \<lparr>LowThreshold = 4, LowWindowHours = 2, HighThreshold = 7, HighWindowHours = 1, HighIncludeCurrent = False\<rparr>
     = Inr \<lparr>Low = True, High = False, CoverageComplete = True\<rparr>"
  by (subst evaluate_gives_verdict) (simp_all add: usage_matches_def verdict_def max_int64_def)

text \<open>The four actions: an object that was not transitioned is only ever marked, on low usage;
  a transitioned one is only ever restored or renewed, on high usage, and never while a restore is
  running; an unexpired restored copy is renewed, any other restored anew.\<close>

theorem decide_action_cases:
  "DecideAction st low high now =
     (if \<not> Transitioned st then (if low then ActionMark else ActionNone)
      else if high \<and> (\<nexists>r. Restore st = Some r \<and> Ongoing r)
      then (if \<exists>r. Restore st = Some r \<and> now < Expires r then ActionRenew else ActionRestore)
      else ActionNone)"
  by (auto simp: DecideAction_def after_def split: option.splits)

end
