(* ===== verification/Minio_Adapter.thy ===== *)
theory Minio_Adapter
  imports Evaluator "HOL-Library.AList" "HOL-Library.Char_ord" "HOL-Library.List_Lexorder"
begin

text \<open>
  \<^verbatim>\<open>internal/tierer/minio.go\<close>: the adapter between the scanner and the MinIO client. The client
  (\<^verbatim>\<open>minio-go\<close>, the interface \<^verbatim>\<open>minioSDK\<close>) is the parameter \<open>sdk\<close>, a record of its calls over a state
  of the server; \<open>tagged_objects\<close> is the documented behaviour of its tagging calls, and
  \<open>mem_minio\<close> an in-memory server that keeps it.

  A tag set is an association list with distinct keys, an error of the client the S3 error code
  that \<^verbatim>\<open>minio.ToErrorResponse\<close> reads from it. \<^verbatim>\<open>Metadata.Get("X-Amz-Storage-Class")\<close> of a response is
  the field \<open>MetadataClass\<close>, \<open>None\<close> where the response has no metadata. The goroutine behind
  \<open>Objects\<close> is the list of results it sends.
\<close>

section \<open>The client\<close>

type_synonym sdk_error = string
type_synonym tag_set = "(string \<times> string) list"

record object_info =
  InfoErr :: "sdk_error option"
  InfoKey :: string
  InfoETag :: string
  InfoLastModified :: time
  InfoSize :: int
  InfoVersionID :: string
  InfoStorageClass :: string
  MetadataClass :: "string option"
  InfoRestore :: "(bool \<times> time) option"

record 'w minio_sdk =
  ListBuckets :: "'w \<Rightarrow> (sdk_error + string list) \<times> 'w"
  ListObjects :: "'w \<Rightarrow> string \<Rightarrow> string \<Rightarrow> object_info list \<times> 'w"
  StatObject :: "'w \<Rightarrow> string \<Rightarrow> string \<Rightarrow> (sdk_error + object_info) \<times> 'w"
  GetObjectTagging :: "'w \<Rightarrow> string \<Rightarrow> string \<Rightarrow> string \<Rightarrow> (sdk_error + tag_set) \<times> 'w"
  PutObjectTagging :: "'w \<Rightarrow> string \<Rightarrow> string \<Rightarrow> tag_set \<Rightarrow> string \<Rightarrow> sdk_error option \<times> 'w"
  RestoreObject :: "'w \<Rightarrow> string \<Rightarrow> string \<Rightarrow> string \<Rightarrow> int \<Rightarrow> sdk_error option \<times> 'w"
  NewTags :: "tag_set \<Rightarrow> bool"

section \<open>Objects\<close>

record object =
  Bucket :: string
  Name :: string
  ETag :: string
  LastModified :: time
  Size :: int
  VersionID :: string
  State :: object_state
  StateKnown :: bool

datatype adapter_error =
    ListBucketsFailed sdk_error
  | ListFailed sdk_error
  | NotSorted string
  | StatFailed sdk_error
  | GetTagsFailed sdk_error
  | ConstructTagsFailed
  | PutTagsFailed sdk_error
  | VerifyFailed sdk_error
  | TagCountChanged
  | TagMismatch string
  | RestoreDaysInvalid
  | RestoreFailed sdk_error

text \<open>\<^verbatim>\<open>strings.Trim(value, `"`)\<close>.\<close>

definition trim_quotes :: "string \<Rightarrow> string" where
  "trim_quotes s = rev (dropWhile (\<lambda>c. c = CHR 0x22) (rev (dropWhile (\<lambda>c. c = CHR 0x22) s)))"

text \<open>
  \<^verbatim>\<open>strings.EqualFold\<close> against an ASCII constant without a \<^verbatim>\<open>K\<close>: ASCII letters fold to each other, and
  U+017F, the bytes C5 BF, folds to \<^verbatim>\<open>S\<close>.
\<close>

definition ascii_upper :: "char \<Rightarrow> char" where
  "ascii_upper c = (if CHR ''a'' \<le> c \<and> c \<le> CHR ''z'' then char_of (of_char c - 32 :: nat) else c)"

fun equal_fold :: "string \<Rightarrow> string \<Rightarrow> bool" where
  "equal_fold s [] = (s = [])"
| "equal_fold [] (t # ts) = False"
| "equal_fold [c] (t # ts) = (ascii_upper c = ascii_upper t \<and> ts = [])"
| "equal_fold (c # d # cs) (t # ts) =
     (if ascii_upper c = ascii_upper t then equal_fold (d # cs) ts
      else c = CHR 0xC5 \<and> d = CHR 0xBF \<and> ascii_upper t = CHR ''S'' \<and> equal_fold cs ts)"

definition stateFromInfo :: "object_info \<Rightarrow> object_state \<times> bool" where
  "stateFromInfo info =
     (let storage_class =
            (if InfoStorageClass info = []
             then (case MetadataClass info of None \<Rightarrow> [] | Some v \<Rightarrow> v)
             else InfoStorageClass info);
          known = (storage_class \<noteq> []);
          transitioned = (storage_class \<noteq> [] \<and> \<not> equal_fold storage_class ''STANDARD'')
      in case InfoRestore info of
           None \<Rightarrow> (\<lparr>Transitioned = transitioned, Restore = None\<rparr>, known)
         | Some (ongoing, expires) \<Rightarrow>
             (\<lparr>Transitioned = True, Restore = Some \<lparr>Ongoing = ongoing, Expires = expires\<rparr>\<rparr>, True))"

definition objectFromInfo :: "string \<Rightarrow> object_info \<Rightarrow> bool \<Rightarrow> object" where
  "objectFromInfo bucket info stat =
     (case stateFromInfo info of
        (state, known) \<Rightarrow>
          \<lparr>Bucket = bucket, Name = InfoKey info, ETag = trim_quotes (InfoETag info),
           LastModified = InfoLastModified info, Size = InfoSize info, VersionID = InfoVersionID info,
           State = state, StateKnown = (if stat \<and> \<not> known then True else known)\<rparr>)"

section \<open>Listing\<close>

definition Buckets :: "'w minio_sdk \<Rightarrow> 'w \<Rightarrow> (adapter_error + string list) \<times> 'w" where
  "Buckets sdk w =
     (case ListBuckets sdk w of
        (Inl err, w1) \<Rightarrow> (Inl (ListBucketsFailed err), w1)
      | (Inr names, w1) \<Rightarrow> (Inr (sort names), w1))"

fun objects_loop :: "string \<Rightarrow> string \<Rightarrow> object_info list \<Rightarrow> (adapter_error + object) list" where
  "objects_loop bucket previous [] = []"
| "objects_loop bucket previous (info # source) =
     (case InfoErr info of
        Some err \<Rightarrow> [Inl (ListFailed err)]
      | None \<Rightarrow>
          if InfoKey info \<le> previous then [Inl (NotSorted previous)]
          else Inr (objectFromInfo bucket info False) # objects_loop bucket (InfoKey info) source)"

definition Objects :: "'w minio_sdk \<Rightarrow> 'w \<Rightarrow> string \<Rightarrow> string \<Rightarrow> (adapter_error + object) list \<times> 'w" where
  "Objects sdk w bucket startAfter =
     (case ListObjects sdk w bucket startAfter of
        (source, w1) \<Rightarrow> (objects_loop bucket startAfter source, w1))"

definition Stat :: "'w minio_sdk \<Rightarrow> 'w \<Rightarrow> object \<Rightarrow> (adapter_error + object) \<times> 'w" where
  "Stat sdk w obj =
     (case StatObject sdk w (Bucket obj) (Name obj) of
        (Inl err, w1) \<Rightarrow> (Inl (StatFailed err), w1)
      | (Inr info, w1) \<Rightarrow>
          let info1 = (if InfoKey info = [] then info\<lparr>InfoKey := Name obj\<rparr> else info)
          in (Inr (objectFromInfo (Bucket obj) info1 True), w1))"

definition ResolveState :: "'w minio_sdk \<Rightarrow> 'w \<Rightarrow> object \<Rightarrow> (adapter_error + object) \<times> 'w" where
  "ResolveState sdk w obj = (if StateKnown obj then (Inr obj, w) else Stat sdk w obj)"

section \<open>Identity\<close>

definition sameLastModified :: "time \<Rightarrow> time \<Rightarrow> bool" where
  "sameLastModified listed current \<longleftrightarrow>
     listed = current \<or> (nanosecond current = 0 \<and> truncate_time listed Second = current)"

definition SameIdentity :: "object \<Rightarrow> object \<Rightarrow> bool" where
  "SameIdentity listed current =
     (if trim_quotes (ETag listed) \<noteq> trim_quotes (ETag current) \<or>
         \<not> sameLastModified (LastModified listed) (LastModified current) \<or> Size listed \<noteq> Size current
      then False
      else VersionID listed = [] \<or> VersionID listed = VersionID current)"

section \<open>Markers\<close>

datatype marker_outcome = MarkerMatched | MarkerAdded | MarkerReplaced | MarkerTagLimit

record marker_plan =
  Required :: bool
  Outcome :: marker_outcome
  Tags :: tag_set

definition PlanMarker ::
    "'w minio_sdk \<Rightarrow> 'w \<Rightarrow> object \<Rightarrow> string \<Rightarrow> string \<Rightarrow> (adapter_error + marker_plan) \<times> 'w" where
  "PlanMarker sdk w obj key val =
     (case GetObjectTagging sdk w (Bucket obj) (Name obj) (VersionID obj) of
        (Inl err, w1) \<Rightarrow> (Inl (GetTagsFailed err), w1)
      | (Inr values, w1) \<Rightarrow>
          (Inr (case map_of values key of
                  Some existing \<Rightarrow>
                    if existing = val then \<lparr>Required = False, Outcome = MarkerMatched, Tags = values\<rparr>
                    else \<lparr>Required = True, Outcome = MarkerReplaced, Tags = AList.update key val values\<rparr>
                | None \<Rightarrow>
                    if length values \<ge> 10
                    then \<lparr>Required = False, Outcome = MarkerTagLimit, Tags = values\<rparr>
                    else \<lparr>Required = True, Outcome = MarkerAdded, Tags = AList.update key val values\<rparr>),
           w1))"

definition tag_value :: "tag_set \<Rightarrow> string \<Rightarrow> string" where
  "tag_value tags key = (case map_of tags key of None \<Rightarrow> [] | Some v \<Rightarrow> v)"

fun verify_tags :: "tag_set \<Rightarrow> tag_set \<Rightarrow> adapter_error option" where
  "verify_tags actual [] = None"
| "verify_tags actual ((key, val) # tags) =
     (if tag_value actual key \<noteq> val then Some (TagMismatch key) else verify_tags actual tags)"

definition ApplyMarker ::
    "'w minio_sdk \<Rightarrow> 'w \<Rightarrow> object \<Rightarrow> marker_plan \<Rightarrow> adapter_error option \<times> 'w" where
  "ApplyMarker sdk w obj plan =
     (if \<not> Required plan then (None, w)
      else if \<not> NewTags sdk (Tags plan) then (Some ConstructTagsFailed, w)
      else case PutObjectTagging sdk w (Bucket obj) (Name obj) (Tags plan) (VersionID obj) of
             (Some err, w1) \<Rightarrow> (Some (PutTagsFailed err), w1)
           | (None, w1) \<Rightarrow>
               (case GetObjectTagging sdk w1 (Bucket obj) (Name obj) (VersionID obj) of
                  (Inl err, w2) \<Rightarrow> (Some (VerifyFailed err), w2)
                | (Inr actual, w2) \<Rightarrow>
                    if length actual \<noteq> length (Tags plan) then (Some TagCountChanged, w2)
                    else (verify_tags actual (Tags plan), w2)))"

section \<open>Restore\<close>

text \<open>\<open>Inr True\<close> is a restore that was already in progress. The request also names the standard tier.\<close>

definition RestoreCall ::
    "'w minio_sdk \<Rightarrow> 'w \<Rightarrow> object \<Rightarrow> int \<Rightarrow> (adapter_error + bool) \<times> 'w" where
  "RestoreCall sdk w obj days =
     (if days \<le> 0 then (Inl RestoreDaysInvalid, w)
      else case RestoreObject sdk w (Bucket obj) (Name obj) (VersionID obj) days of
             (None, w1) \<Rightarrow> (Inr False, w1)
           | (Some code, w1) \<Rightarrow>
               (if code = ''RestoreAlreadyInProgress'' then Inr True else Inl (RestoreFailed code), w1))"

section \<open>The listing is strictly sorted\<close>

text \<open>The objects of a result stream up to its first error.\<close>

fun listed :: "(adapter_error + object) list \<Rightarrow> object list" where
  "listed (Inr obj # rs) = obj # listed rs"
| "listed _ = []"

fun stream_error :: "(adapter_error + object) list \<Rightarrow> adapter_error option" where
  "stream_error [] = None"
| "stream_error (Inl err # rs) = Some err"
| "stream_error (Inr obj # rs) = stream_error rs"

lemma Name_objectFromInfo [simp]: "Name (objectFromInfo bucket info stat) = InfoKey info"
  and Bucket_objectFromInfo [simp]: "Bucket (objectFromInfo bucket info stat) = bucket"
  by (simp_all add: objectFromInfo_def split: prod.splits)

lemma objects_loop_sorted:
  "sorted_wrt (<) (previous # map Name (listed (objects_loop bucket previous source)))"
proof (induction source arbitrary: previous)
  case (Cons info source)
  then show ?case by (force split: option.splits simp: not_le)
qed simp

lemma objects_loop_stream:
  "objects_loop bucket previous source = map Inr (listed (objects_loop bucket previous source)) @
     (case stream_error (objects_loop bucket previous source) of None \<Rightarrow> [] | Some err \<Rightarrow> [Inl err])"
  by (induction source arbitrary: previous) (auto split: option.splits)

text \<open>A listing that is strictly sorted and free of errors comes through whole.\<close>

lemma objects_loop_complete:
  "sorted_wrt (<) (previous # map InfoKey source) \<Longrightarrow> \<forall>info\<in>set source. InfoErr info = None \<Longrightarrow>
     objects_loop bucket previous source = map (\<lambda>info. Inr (objectFromInfo bucket info False)) source"
proof (induction source arbitrary: previous)
  case (Cons info source)
  then have "previous < InfoKey info" by simp
  with Cons show ?case by (auto simp: not_le)
qed simp

section \<open>Tags\<close>

text \<open>
  The behaviour of the tagging calls the adapter relies on. \<open>tags w (b, n, v)\<close> are the tags of one
  version of an object, the empty version standing for the current one. A failed put may or may
  not have taken effect, and no put reaches an object of another name.
\<close>

locale tagged_objects =
  fixes sdk :: "'w minio_sdk"
    and tags :: "'w \<Rightarrow> string \<times> string \<times> string \<Rightarrow> string \<Rightarrow> string option"
  assumes get_tags: "GetObjectTagging sdk w b n v = (Inr ts, w') \<Longrightarrow>
          distinct (map fst ts) \<and> map_of ts = tags w (b, n, v) \<and> tags w' = tags w"
    and get_failed: "GetObjectTagging sdk w b n v = (Inl err, w') \<Longrightarrow> tags w' = tags w"
    and put_tags: "PutObjectTagging sdk w b n ts v = (None, w') \<Longrightarrow> distinct (map fst ts) \<Longrightarrow>
          tags w' (b, n, v) = map_of ts"
    and put_frame: "PutObjectTagging sdk w b n ts v = (res, w') \<Longrightarrow> (b', n') \<noteq> (b, n) \<Longrightarrow>
          tags w' (b', n', v') = tags w (b', n', v')"
begin

lemma PlanMarker_plan:
  assumes "PlanMarker sdk w obj key val = (Inr plan, w')"
  shows "distinct (map fst (Tags plan))" and "tags w' = tags w"
    and "Required plan \<Longrightarrow> map_of (Tags plan) = (tags w (Bucket obj, Name obj, VersionID obj))(key \<mapsto> val)"
    and "\<not> Required plan \<Longrightarrow> map_of (Tags plan) = tags w (Bucket obj, Name obj, VersionID obj)"
    and "Outcome plan = MarkerMatched \<Longrightarrow> tags w (Bucket obj, Name obj, VersionID obj) key = Some val"
    and "Outcome plan = MarkerTagLimit \<Longrightarrow> 10 \<le> length (Tags plan) \<and> \<not> Required plan"
    and "Outcome plan = MarkerAdded \<Longrightarrow> length (Tags plan) \<le> 10"
    and "Required plan \<longleftrightarrow> Outcome plan = MarkerAdded \<or> Outcome plan = MarkerReplaced"
proof -
  obtain vs where get: "GetObjectTagging sdk w (Bucket obj) (Name obj) (VersionID obj) = (Inr vs, w')"
    using assms by (auto simp: PlanMarker_def split: prod.splits sum.splits)
  note v = get_tags [OF get]
  have len: "length (AList.update key val vs) = Suc (length vs)" if "map_of vs key = None"
  proof -
    have "key \<notin> fst ` set vs" using that by (simp add: map_of_eq_None_iff)
    then show ?thesis by (induction vs) auto
  qed
  have "distinct (map fst (AList.update key val vs))" using v by (simp add: distinct_update)
  with assms get v len show "distinct (map fst (Tags plan))" and "tags w' = tags w"
    and "Required plan \<Longrightarrow> map_of (Tags plan) = (tags w (Bucket obj, Name obj, VersionID obj))(key \<mapsto> val)"
    and "\<not> Required plan \<Longrightarrow> map_of (Tags plan) = tags w (Bucket obj, Name obj, VersionID obj)"
    and "Outcome plan = MarkerMatched \<Longrightarrow> tags w (Bucket obj, Name obj, VersionID obj) key = Some val"
    and "Outcome plan = MarkerTagLimit \<Longrightarrow> 10 \<le> length (Tags plan) \<and> \<not> Required plan"
    and "Outcome plan = MarkerAdded \<Longrightarrow> length (Tags plan) \<le> 10"
    and "Required plan \<longleftrightarrow> Outcome plan = MarkerAdded \<or> Outcome plan = MarkerReplaced"
    by (auto simp: PlanMarker_def update_conv' split: option.splits if_splits)
qed

lemma verify_tags_None: "verify_tags actual ts = None \<longleftrightarrow> (\<forall>(k, v)\<in>set ts. tag_value actual k = v)"
  by (induction ts) (auto split: if_splits)

lemma ApplyMarker_done:
  assumes "ApplyMarker sdk w obj plan = (None, w')" and "Required plan" and "distinct (map fst (Tags plan))"
  shows "tags w' (Bucket obj, Name obj, VersionID obj) = map_of (Tags plan)"
    and "(b', n') \<noteq> (Bucket obj, Name obj) \<Longrightarrow> tags w' (b', n', v') = tags w (b', n', v')"
proof -
  obtain w1 actual where put: "PutObjectTagging sdk w (Bucket obj) (Name obj) (Tags plan) (VersionID obj) = (None, w1)"
    and get: "GetObjectTagging sdk w1 (Bucket obj) (Name obj) (VersionID obj) = (Inr actual, w')"
    using assms(1,2) by (auto simp: ApplyMarker_def split: if_splits prod.splits option.splits sum.splits)
  show "tags w' (Bucket obj, Name obj, VersionID obj) = map_of (Tags plan)"
    using get_tags [OF get] put_tags [OF put assms(3)] by simp
  show "(b', n') \<noteq> (Bucket obj, Name obj) \<Longrightarrow> tags w' (b', n', v') = tags w (b', n', v')"
    using get_tags [OF get] put_frame [OF put] by simp
qed

lemma ApplyMarker_frame:
  assumes "ApplyMarker sdk w obj plan = (res, w')" and "(b', n') \<noteq> (Bucket obj, Name obj)"
  shows "tags w' (b', n', v') = tags w (b', n', v')"
proof -
  have put: "tags w1 (b', n', v') = tags w (b', n', v')"
    if "PutObjectTagging sdk w (Bucket obj) (Name obj) (Tags plan) (VersionID obj) = (r, w1)" for r w1
    using put_frame [OF that assms(2)] .
  have get: "tags w2 = tags w1" if "GetObjectTagging sdk w1 (Bucket obj) (Name obj) (VersionID obj) = (r, w2)" for r w1 w2
    using that get_tags get_failed by (cases r) blast+
  show ?thesis
    using assms(1) put get
    by (auto simp: ApplyMarker_def split: if_splits prod.splits option.splits sum.splits)
qed

end

section \<open>An in-memory server\<close>

record mem_objects =
  mo_listing :: "(string \<times> object_info) list"
  mo_tags :: "string \<times> string \<Rightarrow> tag_set"

definition mem_stat :: "mem_objects \<Rightarrow> string \<Rightarrow> string \<Rightarrow> object_info option" where
  "mem_stat w b n = (case filter (\<lambda>(b', i). b' = b \<and> InfoKey i = n) (mo_listing w) of
     [] \<Rightarrow> None | (_, i) # _ \<Rightarrow> Some i)"

definition start_restore :: "string \<Rightarrow> string \<Rightarrow> string \<times> object_info \<Rightarrow> string \<times> object_info" where
  "start_restore b n e = (if fst e = b \<and> InfoKey (snd e) = n
     then (b, snd e\<lparr>InfoRestore := Some (True, zero_time)\<rparr>) else e)"

definition mem_minio :: "mem_objects minio_sdk" where
  "mem_minio =
     \<lparr>ListBuckets = (\<lambda>w. (Inr (remdups (map fst (mo_listing w))), w)),
      ListObjects = (\<lambda>w b after_key. (sort_key InfoKey
        (map snd (filter (\<lambda>(b', i). b' = b \<and> after_key < InfoKey i) (mo_listing w))), w)),
      StatObject = (\<lambda>w b n. (case mem_stat w b n of None \<Rightarrow> Inl ''NoSuchKey'' | Some i \<Rightarrow> Inr i, w)),
      GetObjectTagging = (\<lambda>w b n v. (Inr (AList.clearjunk (mo_tags w (b, n))), w)),
      PutObjectTagging = (\<lambda>w b n ts v. (None, w\<lparr>mo_tags := (mo_tags w)((b, n) := ts)\<rparr>)),
      RestoreObject = (\<lambda>w b n v days. (case mem_stat w b n of
          None \<Rightarrow> (Some ''NoSuchKey'', w)
        | Some i \<Rightarrow> if InfoRestore i \<noteq> None then (Some ''RestoreAlreadyInProgress'', w)
            else (None, w\<lparr>mo_listing := map (start_restore b n) (mo_listing w)\<rparr>))),
      NewTags = (\<lambda>ts. length ts \<le> 10)\<rparr>"

definition mem_tags :: "mem_objects \<Rightarrow> string \<times> string \<times> string \<Rightarrow> string \<Rightarrow> string option" where
  "mem_tags w o3 = map_of (mo_tags w (fst o3, fst (snd o3)))"

interpretation mem_minio: tagged_objects mem_minio mem_tags
  by unfold_locales
    (auto simp: mem_minio_def mem_tags_def map_of_clearjunk distinct_clearjunk fun_eq_iff)

section \<open>Properties\<close>


definition plain_object :: "string \<Rightarrow> string \<Rightarrow> object" where
  "plain_object b n = \<lparr>Bucket = b, Name = n, ETag = ''e'', LastModified = 0, Size = 1, VersionID = [],
     State = \<lparr>Transitioned = False, Restore = None\<rparr>, StateKnown = True\<rparr>"


text \<open>The objects a listing yields come in strictly ascending order after the start key, so none
  comes twice, all belong to the bucket, and nothing follows an error.\<close>

theorem listing_strictly_sorted:
  "sorted_wrt (<) (startAfter # map Name (listed (fst (Objects sdk w bucket startAfter)))) \<and>
   fst (Objects sdk w bucket startAfter) = map Inr (listed (fst (Objects sdk w bucket startAfter))) @
     (case stream_error (fst (Objects sdk w bucket startAfter)) of None \<Rightarrow> [] | Some err \<Rightarrow> [Inl err])"
proof -
  obtain source w1 where list: "ListObjects sdk w bucket startAfter = (source, w1)" by fastforce
  show ?thesis
    using objects_loop_sorted [of startAfter bucket source] objects_loop_stream [of bucket startAfter source]
    by (simp add: Objects_def list)
qed

lemma sameLastModified_unix: "sameLastModified s t \<Longrightarrow> unix s = unix t"
proof -
  have "unix (truncate_time s Second) = unix s" by (simp add: truncate_second unix_def)
  then show "sameLastModified s t \<Longrightarrow> unix s = unix t" by (auto simp: sameLastModified_def)
qed

text \<open>An object that did not change between its listing and its stat is recognised although the
  stat drops the fraction of a second and may or may not quote the ETag; and what is recognised
  has the listed size, ETag and second of modification, and the listed version where one was listed.\<close>

theorem identity_survives_stat:
  assumes "stat_info = info\<lparr>InfoLastModified := truncate_time (InfoLastModified info) Second, InfoETag := e\<rparr>"
    and "trim_quotes e = trim_quotes (InfoETag info)"
  shows "SameIdentity (objectFromInfo b info False) (objectFromInfo b stat_info True) \<and>
    (SameIdentity l c \<longrightarrow> Size l = Size c \<and> trim_quotes (ETag l) = trim_quotes (ETag c) \<and>
       unix (LastModified l) = unix (LastModified c) \<and> (VersionID l \<noteq> [] \<longrightarrow> VersionID l = VersionID c))"
proof (intro conjI impI)
  have "nanosecond (truncate_time t Second) = 0" for t
    by (simp add: truncate_second nanosecond_def)
  then show "SameIdentity (objectFromInfo b info False) (objectFromInfo b stat_info True)"
    using assms by (auto simp: SameIdentity_def sameLastModified_def objectFromInfo_def stateFromInfo_def Let_def
        split: option.splits if_splits)
qed (auto simp: SameIdentity_def sameLastModified_unix split: if_splits)

theorem identity_survives_stat_witness:
  "SameIdentity (objectFromInfo ''b'' \<lparr>InfoErr = None, InfoKey = ''o'', InfoETag = ''x'', InfoLastModified = 1700,
      InfoSize = 3, InfoVersionID = [], InfoStorageClass = [], MetadataClass = None, InfoRestore = None\<rparr> False)
    (objectFromInfo ''b'' \<lparr>InfoErr = None, InfoKey = ''o'', InfoETag = [CHR 0x22, CHR ''x'', CHR 0x22],
      InfoLastModified = 0, InfoSize = 3, InfoVersionID = [], InfoStorageClass = [], MetadataClass = None,
      InfoRestore = None\<rparr> True)"
proof -
  let ?info = "\<lparr>InfoErr = None, InfoKey = ''o'', InfoETag = ''x'', InfoLastModified = 1700,
      InfoSize = 3, InfoVersionID = [], InfoStorageClass = [], MetadataClass = None, InfoRestore = None\<rparr>"
  have "trim_quotes [CHR 0x22, CHR ''x'', CHR 0x22] = trim_quotes (InfoETag ?info)"
    by (simp add: trim_quotes_def)
  moreover have "truncate_time 1700 Second = 0" by (simp add: truncate_second unix_def) (simp add: Second_def)
  ultimately show ?thesis
    using identity_survives_stat [OF refl, of "[CHR 0x22, CHR ''x'', CHR 0x22]" ?info "''b''"
        "plain_object ''b'' ''o''" "plain_object ''b'' ''o''"] by simp
qed

end
