(* ===== verification/Tierer_Store.thy ===== *)
theory Tierer_Store
  imports Tierer_Scripts Minio_Adapter Contracts
begin

text \<open>
  \<^verbatim>\<open>internal/tierer/redis.go\<close>: the tierer's Redis store. It reads the counters and the coverage of a
  chunk, reserves budget, and keeps the scan cursor; with \<open>validateAggregateAccessKeys\<close> of
  \<^verbatim>\<open>config.go\<close>, which bounds a chunk's read.

  The client (\<^verbatim>\<open>redisCommands\<close>) is the parameter \<open>cmds\<close> over a connection; \<open>lua_commands\<close> is the client
  that runs the scripts' models on a Redis server through a connection that loses messages.
  Parameters too are the coverage layout's \<open>fmt\<close> and the JSON codec of the cursor, with the SHA-256
  digest of the scope.
\<close>

section \<open>The client\<close>

datatype script = ReadUnsignedStrings | ReadOptionalStrings | ReserveBudget

datatype get_result = GotNil | GotError string | GotValue string

record 'c redis_commands =
  EvalScript :: "'c \<Rightarrow> script \<Rightarrow> string list \<Rightarrow> int list \<Rightarrow> (string + reply) \<times> 'c"
  GetKey :: "'c \<Rightarrow> string \<Rightarrow> get_result \<times> 'c"
  SetKey :: "'c \<Rightarrow> string \<Rightarrow> string \<Rightarrow> string option \<times> 'c"
  DelKey :: "'c \<Rightarrow> string \<Rightarrow> string option \<times> 'c"

record cursor =
  CursorBucket :: string
  CursorObject :: string
  UpdatedAt :: time

text \<open>\<open>Unmarshal\<close> is strict decoding with unknown fields and trailing JSON refused.\<close>

record cursor_codec =
  Marshal :: "int \<Rightarrow> cursor \<Rightarrow> string option"
  Unmarshal :: "string \<Rightarrow> (int \<times> cursor) option"

record redis_store =
  instance_id :: string
  coverageTemplate :: string
  coverageValue :: string
  coverageEnabled :: bool

definition NewRedisStore :: "string \<Rightarrow> string \<Rightarrow> string \<Rightarrow> bool \<Rightarrow> redis_store" where
  "NewRedisStore inst template value enabled =
     \<lparr>instance_id = inst, coverageTemplate = template, coverageValue = value, coverageEnabled = enabled\<rparr>"

datatype store_error =
    WindowEmpty
  | BadKey contract_error
  | EvalFailed string
  | UnexpectedResponse
  | UnexpectedValue
  | MalformedCount nat
  | AggregateNotPositive
  | AggregateOverflow
  | AggregateExceedsLimit
  | InvalidBudgetKind
  | InvalidReservation
  | BadInteger
  | ScopeNotDigest
  | ScopeNotHex
  | CursorIncomplete
  | CursorNotEncoded
  | SaveFailed string
  | LoadCursorFailed string
  | CursorNotDecoded
  | CursorUnsupported
  | ResetFailed string

section \<open>Replies\<close>

definition redisArray :: "reply \<Rightarrow> nat \<Rightarrow> store_error + reply list" where
  "redisArray r len =
     (case r of ArrayReply xs \<Rightarrow> if length xs = len then Inr xs else Inl UnexpectedResponse
      | _ \<Rightarrow> Inl UnexpectedResponse)"

definition redisInt64 :: "reply \<Rightarrow> store_error + int" where
  "redisInt64 r =
     (case r of
        IntReply n \<Rightarrow> Inr n
      | BulkReply s \<Rightarrow> (case parse_int64 s of None \<Rightarrow> Inl BadInteger | Some n \<Rightarrow> Inr n)
      | _ \<Rightarrow> Inl UnexpectedValue)"

text \<open>One counter of a reply; \<open>i\<close> is its index in the error message.\<close>

definition decode_count :: "nat \<Rightarrow> reply \<Rightarrow> store_error + int" where
  "decode_count i r =
     (case r of
        BulkReply s \<Rightarrow>
          (case parse_int64 s of
             None \<Rightarrow> Inl (MalformedCount i)
           | Some n \<Rightarrow>
               if n < 0 \<or> (length s > 1 \<and> hd s = CHR ''0'') then Inl (MalformedCount i) else Inr n)
      | _ \<Rightarrow> Inl UnexpectedValue)"

definition decodeCounts :: "reply list \<Rightarrow> store_error + int list" where
  "decodeCounts values = traverse (\<lambda>(i, r). decode_count i r) (enumerate 0 values)"

section \<open>Reading usage\<close>

definition accessKey :: "string \<Rightarrow> string \<Rightarrow> string \<Rightarrow> time \<Rightarrow> store_error + string" where
  "accessKey inst bucket obj hour =
     (case AccessKey inst bucket obj hour of Inl err \<Rightarrow> Inl (BadKey err) | Inr key \<Rightarrow> Inr key)"

definition eval_array ::
    "'c redis_commands \<Rightarrow> 'c \<Rightarrow> script \<Rightarrow> string list \<Rightarrow> (store_error + reply list) \<times> 'c" where
  "eval_array cmds c scr keys =
     (case EvalScript cmds c scr keys [] of
        (Inl err, c1) \<Rightarrow> (Inl (EvalFailed err), c1)
      | (Inr raw, c1) \<Rightarrow> (redisArray raw (length keys), c1))"

definition ReadCounts ::
    "'c redis_commands \<Rightarrow> redis_store \<Rightarrow> 'c \<Rightarrow> string \<Rightarrow> string \<Rightarrow> time list \<Rightarrow> (store_error + int list) \<times> 'c" where
  "ReadCounts cmds s c bucket obj hours =
     (if hours = [] then (Inl WindowEmpty, c)
      else case traverse (accessKey (instance_id s) bucket obj) hours of
             Inl err \<Rightarrow> (Inl err, c)
           | Inr keys \<Rightarrow>
               (case eval_array cmds c ReadUnsignedStrings keys of
                  (Inl err, c1) \<Rightarrow> (Inl err, c1)
                | (Inr values, c1) \<Rightarrow> (decodeCounts values, c1)))"

definition decode_coverage :: "redis_store \<Rightarrow> reply \<Rightarrow> store_error + bool" where
  "decode_coverage s r =
     (case r of
        NilReply \<Rightarrow> Inr False
      | BulkReply text \<Rightarrow> Inr (text = coverageValue s)
      | _ \<Rightarrow> Inl UnexpectedValue)"

definition ReadCoverage ::
    "(string \<Rightarrow> time \<Rightarrow> string) \<Rightarrow> 'c redis_commands \<Rightarrow> redis_store \<Rightarrow> 'c \<Rightarrow> time list \<Rightarrow>
       (store_error + bool list) \<times> 'c" where
  "ReadCoverage fmt cmds s c hours =
     (if hours = [] then (Inl WindowEmpty, c)
      else if \<not> coverageEnabled s then (Inr (map (\<lambda>_. True) hours), c)
      else case eval_array cmds c ReadOptionalStrings (map (CoverageKey fmt (coverageTemplate s)) hours) of
             (Inl err, c1) \<Rightarrow> (Inl err, c1)
           | (Inr values, c1) \<Rightarrow> (traverse (decode_coverage s) values, c1))"

text \<open>\<^verbatim>\<open>config.go\<close>: at most \<open>limit\<close> keys in one read; the sum of the windows cannot overflow.\<close>

definition validateAggregateAccessKeys :: "int \<Rightarrow> int \<Rightarrow> int \<Rightarrow> int \<Rightarrow> store_error + unit" where
  "validateAggregateAccessKeys objects lowHours highHours limit =
     (if objects \<le> 0 \<or> lowHours \<le> 0 \<or> highHours \<le> 0 \<or> limit \<le> 0 then Inl AggregateNotPositive
      else if lowHours > max_int64 - highHours then Inl AggregateOverflow
      else if objects > limit div (lowHours + highHours) then Inl AggregateExceedsLimit
      else Inr ())"

definition maxRedisAccessKeysPerChunk :: int where
  "maxRedisAccessKeysPerChunk = 10000"

record object_usage =
  UsageLow :: "int list"
  UsageHigh :: "int list"

text \<open>The keys of a chunk: for each object the low hours, then the high hours.\<close>

definition object_keys :: "redis_store \<Rightarrow> time list \<Rightarrow> time list \<Rightarrow> object \<Rightarrow> store_error + string list" where
  "object_keys s lowHours highHours obj =
     traverse (accessKey (instance_id s) (Bucket obj) (Name obj)) (lowHours @ highHours)"

text \<open>The loop that slices the reply; \<open>values\<close> is what is left from \<^verbatim>\<open>offset\<close> on.\<close>

fun usage_loop :: "nat \<Rightarrow> nat \<Rightarrow> object list \<Rightarrow> reply list \<Rightarrow> store_error + object_usage list" where
  "usage_loop low high [] values = Inr []"
| "usage_loop low high (obj # objs) values =
     (case decodeCounts (take low values) of
        Inl err \<Rightarrow> Inl err
      | Inr lows \<Rightarrow>
          (case decodeCounts (take high (drop low values)) of
             Inl err \<Rightarrow> Inl err
           | Inr highs \<Rightarrow>
               (case usage_loop low high objs (drop (low + high) values) of
                  Inl err \<Rightarrow> Inl err
                | Inr usage \<Rightarrow> Inr (\<lparr>UsageLow = lows, UsageHigh = highs\<rparr> # usage))))"

definition ReadChunk ::
    "(string \<Rightarrow> time \<Rightarrow> string) \<Rightarrow> 'c redis_commands \<Rightarrow> redis_store \<Rightarrow> 'c \<Rightarrow> object list \<Rightarrow> time list \<Rightarrow>
       time list \<Rightarrow> (store_error + object_usage list \<times> bool list) \<times> 'c" where
  "ReadChunk fmt cmds s c objects lowHours highHours =
     (if objects = [] \<or> lowHours = [] \<or> highHours = [] then (Inl WindowEmpty, c)
      else case validateAggregateAccessKeys (int (length objects)) (int (length lowHours))
                  (int (length highHours)) maxRedisAccessKeysPerChunk of
             Inl err \<Rightarrow> (Inl err, c)
           | Inr _ \<Rightarrow>
               (case traverse (object_keys s lowHours highHours) objects of
                  Inl err \<Rightarrow> (Inl err, c)
                | Inr keys \<Rightarrow>
                    (case eval_array cmds c ReadUnsignedStrings (concat keys) of
                       (Inl err, c1) \<Rightarrow> (Inl err, c1)
                     | (Inr values, c1) \<Rightarrow>
                         (case usage_loop (length lowHours) (length highHours) objects values of
                            Inl err \<Rightarrow> (Inl err, c1)
                          | Inr usage \<Rightarrow>
                              (case ReadCoverage fmt cmds s c1 lowHours of
                                 (Inl err, c2) \<Rightarrow> (Inl err, c2)
                               | (Inr coverage, c2) \<Rightarrow> (Inr (usage, coverage), c2))))))"

section \<open>Budgets\<close>

type_synonym budget_kind = string

definition BudgetTransition :: budget_kind where
  "BudgetTransition = ''transition''"

definition BudgetRestore :: budget_kind where
  "BudgetRestore = ''restore''"

record budget_limit =
  Attempts :: int
  Bytes :: int

record reservation =
  Allowed :: bool
  UsedAttempts :: int
  UsedBytes :: int

definition budget_prefix :: "redis_store \<Rightarrow> time \<Rightarrow> budget_kind \<Rightarrow> string" where
  "budget_prefix s now kind =
     Namespace @ '':'' @ instance_id s @ '':budget:'' @ format_date now @ '':'' @ kind"

definition budget_expiry :: "time \<Rightarrow> int" where
  "budget_expiry now = unix (truncate_time now (24 * Hour) + 72 * Hour)"

definition Reserve ::
    "'c redis_commands \<Rightarrow> redis_store \<Rightarrow> 'c \<Rightarrow> time \<Rightarrow> budget_kind \<Rightarrow> budget_limit \<Rightarrow> int \<Rightarrow>
       (store_error + reservation) \<times> 'c" where
  "Reserve cmds s c now kind limit bytes =
     (if kind \<noteq> BudgetTransition \<and> kind \<noteq> BudgetRestore then (Inl InvalidBudgetKind, c)
      else if Attempts limit < 0 \<or> Bytes limit < 0 \<or> bytes < 0 then (Inl InvalidReservation, c)
      else if Attempts limit = 0 \<and> Bytes limit = 0
      then (Inr \<lparr>Allowed = True, UsedAttempts = 0, UsedBytes = 0\<rparr>, c)
      else let attemptLimit = (if Attempts limit = 0 then max_int64 else Attempts limit);
               byteLimit = (if Bytes limit = 0 then max_int64 else Bytes limit);
               prefix = budget_prefix s now kind;
               keys = [prefix @ ''-attempts'', prefix @ ''-bytes'']
           in case EvalScript cmds c ReserveBudget keys [attemptLimit, byteLimit, bytes, budget_expiry now] of
                (Inl err, c1) \<Rightarrow> (Inl (EvalFailed err), c1)
              | (Inr raw, c1) \<Rightarrow>
                  (bind_res (redisArray raw 3) (\<lambda>values.
                     bind_res (redisInt64 (values ! 0)) (\<lambda>allowed.
                     bind_res (redisInt64 (values ! 1)) (\<lambda>usedAttempts.
                     bind_res (redisInt64 (values ! 2)) (\<lambda>usedBytes.
                       Inr \<lparr>Allowed = (allowed = 1), UsedAttempts = usedAttempts, UsedBytes = usedBytes\<rparr>)))),
                   c1))"

section \<open>The cursor\<close>

definition CursorBefore :: "cursor \<Rightarrow> cursor \<Rightarrow> bool" where
  "CursorBefore left right \<longleftrightarrow> CursorBucket left < CursorBucket right \<or>
     (CursorBucket left = CursorBucket right \<and> CursorObject left < CursorObject right)"

definition is_hex :: "char \<Rightarrow> bool" where
  "is_hex c \<longleftrightarrow> (CHR ''0'' \<le> c \<and> c \<le> CHR ''9'') \<or> (CHR ''a'' \<le> c \<and> c \<le> CHR ''f'') \<or>
     (CHR ''A'' \<le> c \<and> c \<le> CHR ''F'')"

definition cursorKey :: "redis_store \<Rightarrow> string \<Rightarrow> store_error + string" where
  "cursorKey s scope =
     (if length scope \<noteq> 64 then Inl ScopeNotDigest
      else if \<not> list_all is_hex scope then Inl ScopeNotHex
      else Inr (Namespace @ '':'' @ instance_id s @ '':cursor:'' @ scope))"

definition SaveCursor ::
    "cursor_codec \<Rightarrow> 'c redis_commands \<Rightarrow> redis_store \<Rightarrow> 'c \<Rightarrow> string \<Rightarrow> cursor \<Rightarrow> store_error option \<times> 'c" where
  "SaveCursor codec cmds s c scope cur =
     (case cursorKey s scope of
        Inl err \<Rightarrow> (Some err, c)
      | Inr key \<Rightarrow>
          if CursorBucket cur = [] \<or> CursorObject cur = [] \<or> is_zero (UpdatedAt cur)
          then (Some CursorIncomplete, c)
          else case Marshal codec 1 cur of
                 None \<Rightarrow> (Some CursorNotEncoded, c)
               | Some payload \<Rightarrow>
                   (case SetKey cmds c key payload of
                      (Some err, c1) \<Rightarrow> (Some (SaveFailed err), c1)
                    | (None, c1) \<Rightarrow> (None, c1)))"

definition LoadCursor ::
    "cursor_codec \<Rightarrow> 'c redis_commands \<Rightarrow> redis_store \<Rightarrow> 'c \<Rightarrow> string \<Rightarrow> (store_error + cursor option) \<times> 'c" where
  "LoadCursor codec cmds s c scope =
     (case cursorKey s scope of
        Inl err \<Rightarrow> (Inl err, c)
      | Inr key \<Rightarrow>
          (case GetKey cmds c key of
             (GotNil, c1) \<Rightarrow> (Inr None, c1)
           | (GotError err, c1) \<Rightarrow> (Inl (LoadCursorFailed err), c1)
           | (GotValue raw, c1) \<Rightarrow>
               (case Unmarshal codec raw of
                  None \<Rightarrow> (Inl CursorNotDecoded, c1)
                | Some (version, cur) \<Rightarrow>
                    (if version \<noteq> 1 \<or> CursorBucket cur = [] \<or> CursorObject cur = [] \<or> is_zero (UpdatedAt cur)
                     then Inl CursorUnsupported else Inr (Some cur), c1))))"

definition ResetCursor ::
    "'c redis_commands \<Rightarrow> redis_store \<Rightarrow> 'c \<Rightarrow> string \<Rightarrow> store_error option \<times> 'c" where
  "ResetCursor cmds s c scope =
     (case cursorKey s scope of
        Inl err \<Rightarrow> (Some err, c)
      | Inr key \<Rightarrow>
          (case DelKey cmds c key of
             (Some err, c1) \<Rightarrow> (Some (ResetFailed err), c1)
           | (None, c1) \<Rightarrow> (None, c1)))"

section \<open>Sorting and the scope\<close>

text \<open>The inner loop of \<open>slicesSort\<close>: swap the element at \<open>j\<close> down while it is smaller than its neighbour.\<close>

fun sift :: "nat \<Rightarrow> 'a::linorder list \<Rightarrow> 'a list" where
  "sift 0 values = values"
| "sift (Suc j) values =
     (if values ! Suc j < values ! j
      then sift j (values[Suc j := values ! j, j := values ! Suc j])
      else values)"

definition slicesSort :: "'a::linorder list \<Rightarrow> 'a list" where
  "slicesSort values = fold sift [1..<length values] values"

record scope_payload =
  ScopeVersion :: int
  ScopeBuckets :: "string list"
  ScopePrefixes :: "string list"
  ScopeMarkerKey :: string
  ScopeMarkerValue :: string

definition ScopeHash ::
    "(scope_payload \<Rightarrow> string) \<Rightarrow> string list \<Rightarrow> string list \<Rightarrow> string \<Rightarrow> string \<Rightarrow> string" where
  "ScopeHash digest excludedBuckets excludedPrefixes markerKey markerValue =
     digest \<lparr>ScopeVersion = 1, ScopeBuckets = slicesSort excludedBuckets,
       ScopePrefixes = slicesSort excludedPrefixes, ScopeMarkerKey = markerKey, ScopeMarkerValue = markerValue\<rparr>"

section \<open>The sort\<close>

lemma sift_insort:
  "sorted xs \<Longrightarrow> sift (length xs) (xs @ x # ys) = insort x xs @ ys"
proof (induction xs arbitrary: x ys rule: rev_induct)
  case (snoc y xs)
  have len: "length (xs @ [y]) = Suc (length xs)" by simp
  show ?case
  proof (cases "x < y")
    case True
    have "insort x (xs @ [y]) = insort x xs @ [y]"
      using snoc.prems True by (induction xs) (auto simp: sorted_append)
    moreover have "sift (length xs) (xs @ x # y # ys) = insort x xs @ y # ys"
      using snoc by (simp add: sorted_append)
    moreover have "((xs @ [y]) @ x # ys)[Suc (length xs) := y, length xs := x] = xs @ x # y # ys"
      by (simp add: list_update_append)
    ultimately show ?thesis using True unfolding len by (simp add: nth_append)
  next
    case False
    then have "sorted (xs @ [y, x])" using snoc.prems by (auto simp: sorted_append)
    then have "sort (x # (xs @ [y])) = xs @ [y, x]"
      by (intro properties_for_sort) simp_all
    then have "insort x (xs @ [y]) = xs @ [y, x]"
      using snoc.prems by (simp add: sorted_sort_id)
    with False show ?thesis unfolding len by (simp add: nth_append)
  qed
qed simp

lemma slicesSort_sort: "slicesSort vs = sort vs"
proof -
  have "fold sift [1..<n] vs = sort (take n vs) @ drop n vs"
    if "1 \<le> n" "n \<le> length vs" for n
    using that
  proof (induction n rule: nat_induct_at_least)
    case base
    then show ?case by (cases vs) auto
  next
    case (Suc n)
    then have n: "n < length vs" by simp
    have "sift n (sort (take n vs) @ vs ! n # drop (Suc n) vs)
        = insort (vs ! n) (sort (take n vs)) @ drop (Suc n) vs"
      using sift_insort [of "sort (take n vs)" "vs ! n" "drop (Suc n) vs"] n by simp
    moreover have "insort (vs ! n) (sort (take n vs)) = sort (take (Suc n) vs)"
    proof -
      have "sort (take (Suc n) vs) = sort (vs ! n # take n vs)"
        using n by (intro properties_for_sort) (simp_all add: take_Suc_conv_app_nth sorted_insort)
      then show ?thesis by simp
    qed
    ultimately show ?case using Suc n by (simp add: Cons_nth_drop_Suc)
  qed
  from this [of "length vs"] show ?thesis
    by (cases vs) (auto simp: slicesSort_def)
qed

section \<open>The store over a Redis server\<close>

record 's keyspace =
  k_set :: "'s \<Rightarrow> string \<Rightarrow> string \<Rightarrow> 's"
  k_del :: "'s \<Rightarrow> string \<Rightarrow> 's"

record 's tierer_conn =
  t_server :: 's
  t_faults :: "fault list"

definition lua_run :: "'s redis \<Rightarrow> script \<Rightarrow> string list \<Rightarrow> int list \<Rightarrow> 's \<Rightarrow> reply \<times> 's" where
  "lua_run redis scr keys args s =
     (case scr of
        ReadUnsignedStrings \<Rightarrow> (read_unsigned_script redis keys s, s)
      | ReadOptionalStrings \<Rightarrow> (read_optional_script redis keys s, s)
      | ReserveBudget \<Rightarrow>
          (case (keys, args) of
             ([k1, k2], [al, bl, d, t]) \<Rightarrow>
               reserve_script redis k1 k2 (format_int al) (format_int bl) (format_int d) (format_int t) s
           | _ \<Rightarrow> (ErrorReply ''ERR wrong number of arguments'', s)))"

text \<open>One command through the connection: \<open>f\<close> is what the server does with it.\<close>

definition through ::
    "'s tierer_conn \<Rightarrow> ('s \<Rightarrow> 'r \<times> 's) \<Rightarrow> (string + 'r) \<times> 's tierer_conn" where
  "through c f =
     (let fault = (case t_faults c of [] \<Rightarrow> NoFault | x # _ \<Rightarrow> x);
          c1 = c\<lparr>t_faults := tl (t_faults c)\<rparr>
      in if fault = RequestLost then (Inl timeout_text, c1)
         else case f (t_server c) of
                (r, s) \<Rightarrow> (if fault = ReplyLost then Inl timeout_text else Inr r, c1\<lparr>t_server := s\<rparr>))"

definition lua_commands :: "'s redis \<Rightarrow> 's keyspace \<Rightarrow> 's tierer_conn redis_commands" where
  "lua_commands redis ks =
     \<lparr>EvalScript = (\<lambda>c scr keys args. case through c (lua_run redis scr keys args) of
         (Inl err, c1) \<Rightarrow> (Inl err, c1)
       | (Inr (ErrorReply err), c1) \<Rightarrow> (Inl err, c1)
       | (Inr r, c1) \<Rightarrow> (Inr r, c1)),
      GetKey = (\<lambda>c key. case through c (\<lambda>s. ((r_type redis s key, r_get redis s key), s)) of
         (Inl err, c1) \<Rightarrow> (GotError err, c1)
       | (Inr (kind, v), c1) \<Rightarrow>
           (if kind = ''none'' then GotNil
            else if kind \<noteq> ''string'' then GotError ''WRONGTYPE''
            else case v of None \<Rightarrow> GotNil | Some raw \<Rightarrow> GotValue raw, c1)),
      SetKey = (\<lambda>c key v. case through c (\<lambda>s. ((), k_set ks s key v)) of
         (Inl err, c1) \<Rightarrow> (Some err, c1) | (Inr _, c1) \<Rightarrow> (None, c1)),
      DelKey = (\<lambda>c key. case through c (\<lambda>s. ((), k_del ks s key)) of
         (Inl err, c1) \<Rightarrow> (Some err, c1) | (Inr _, c1) \<Rightarrow> (None, c1))\<rparr>"

lemma through_cases:
  assumes "through c f = (r, c')"
  shows "(r = Inl timeout_text \<and> t_server c' = t_server c) \<or>
    (t_server c' = snd (f (t_server c)) \<and> (r = Inl timeout_text \<or> r = Inr (fst (f (t_server c)))))"
  using assms by (auto simp: through_def Let_def split: if_splits prod.splits)

lemma eval_cases:
  assumes "EvalScript (lua_commands redis ks) c scr keys args = (r, c')"
    and "lua_run redis scr keys args (t_server c) = (rep, s')"
  shows "(r = Inl timeout_text \<and> t_server c' = t_server c) \<or>
    (t_server c' = s' \<and> (r = Inl timeout_text \<or> r = (case rep of ErrorReply err \<Rightarrow> Inl err | _ \<Rightarrow> Inr rep)))"
proof -
  obtain x where x: "through c (lua_run redis scr keys args) = (x, c')"
    using assms(1) by (auto simp: lua_commands_def split: prod.splits sum.splits reply.splits)
  from through_cases [OF x] assms x show ?thesis
    by (auto simp: lua_commands_def split: sum.splits reply.splits)
qed

end
