(* ===== verification/Tierer_Config.thy ===== *)
theory Tierer_Config
  imports Tierer_Store Go_Text
begin

text \<open>
  \<^verbatim>\<open>internal/tierer/config.go\<close>: the tierer's configuration, read from the environment. The lookup is a
  map from names to values. \<open>go\<close> holds the parameters: time.Format with a configured layout, the
  floating-point part of \<^verbatim>\<open>time.ParseDuration\<close>, and the tag check of the MinIO library.
  \<open>validateAggregateAccessKeys\<close> is in theory \<open>Tierer_Store\<close>. The last part is \<^verbatim>\<open>ConfigScopeHash\<close> of
  \<^verbatim>\<open>redis.go\<close>.
\<close>

section \<open>Values\<close>

record go_library =
  format_layout :: "string \<Rightarrow> time \<Rightarrow> string"
  float_fraction :: "int \<Rightarrow> int \<Rightarrow> int \<Rightarrow> int"
  new_tags :: "(string \<times> string) list \<Rightarrow> bool"

datatype config_error =
    Rejected string contract_error
  | RequiredValue string
  | NotPositiveDuration string
  | NotBoolean string
  | NotInteger string
  | ApplyGateMissing
  | UnknownMode
  | HoursOverflow string
  | CoverageValueMissing
  | MarkerMissing
  | MarkerTagInvalid
  | NotAddress string
  | BadPort string
  | CredentialsMissing
  | BlankItem string
  | DuplicateItem string string
  | AggregateTooLarge store_error

definition required :: "env \<Rightarrow> string \<Rightarrow> string" where
  "required lookup key = (case lookup key of None \<Rightarrow> [] | Some v \<Rightarrow> v)"

definition optional :: "env \<Rightarrow> string \<Rightarrow> string \<Rightarrow> string" where
  "optional lookup key fallback = (case lookup key of None \<Rightarrow> fallback | Some v \<Rightarrow> v)"

definition boolean :: "env \<Rightarrow> string \<Rightarrow> bool \<Rightarrow> config_error + bool" where
  "boolean lookup key fallback =
     (case lookup key of
        None \<Rightarrow> Inr fallback
      | Some raw \<Rightarrow> if raw = ''true'' then Inr True else if raw = ''false'' then Inr False else Inl (NotBoolean key))"

text \<open>\<^verbatim>\<open>strconv.Atoi\<close> and \<^verbatim>\<open>ParseInt(raw, 10, 64)\<close> are the same function where an \<open>int\<close> has 64 bits.\<close>

definition integer64 :: "env \<Rightarrow> string \<Rightarrow> int \<Rightarrow> bool \<Rightarrow> config_error + int" where
  "integer64 lookup key minimum allowMissing =
     (if lookup key = None \<and> \<not> allowMissing then Inl (RequiredValue key)
      else case parse_int64 (required lookup key) of
             None \<Rightarrow> Inl (NotInteger key)
           | Some v \<Rightarrow> if v < minimum then Inl (NotInteger key) else Inr v)"

definition integer :: "env \<Rightarrow> string \<Rightarrow> int \<Rightarrow> bool \<Rightarrow> config_error + int" where
  "integer lookup key minimum allowMissing = integer64 lookup key minimum allowMissing"

definition optionalInteger64 :: "env \<Rightarrow> string \<Rightarrow> int \<Rightarrow> config_error + int" where
  "optionalInteger64 lookup key minimum =
     (case lookup key of
        None \<Rightarrow> Inr 0
      | Some raw \<Rightarrow>
          if raw = [] then Inr 0
          else case parse_int64 raw of
                 None \<Rightarrow> Inl (NotInteger key)
               | Some v \<Rightarrow> if v < minimum then Inl (NotInteger key) else Inr v)"

definition boundedInteger :: "env \<Rightarrow> string \<Rightarrow> int \<Rightarrow> int \<Rightarrow> int \<Rightarrow> bool \<Rightarrow> config_error + int" where
  "boundedInteger lookup key fallback minimum maximum allowMissing =
     (if lookup key = None \<and> allowMissing then Inr fallback
      else case parse_int64 (required lookup key) of
             None \<Rightarrow> Inl (NotInteger key)
           | Some v \<Rightarrow> if v < minimum \<or> v > maximum then Inl (NotInteger key) else Inr v)"

definition duration_value :: "go_library \<Rightarrow> env \<Rightarrow> string \<Rightarrow> string \<Rightarrow> bool \<Rightarrow> config_error + duration" where
  "duration_value go lookup key fallback mustSet =
     (if lookup key = None \<and> mustSet then Inl (RequiredValue key)
      else case ParseDuration (float_fraction go) (optional lookup key fallback) of
             None \<Rightarrow> Inl (NotPositiveDuration key)
           | Some v \<Rightarrow> if v \<le> 0 then Inl (NotPositiveDuration key) else Inr v)"

fun list_loop :: "string \<Rightarrow> string list \<Rightarrow> string set \<Rightarrow> config_error option" where
  "list_loop key [] seen = None"
| "list_loop key (part # parts) seen =
     (if part = [] \<or> TrimSpace part \<noteq> part then Some (BlankItem key)
      else if part \<in> seen then Some (DuplicateItem key part)
      else list_loop key parts (insert part seen))"

definition exactList :: "env \<Rightarrow> string \<Rightarrow> config_error + string list" where
  "exactList lookup key =
     (case lookup key of
        None \<Rightarrow> Inr []
      | Some raw \<Rightarrow>
          if raw = [] then Inr []
          else let parts = split_on CHR '','' raw
               in case list_loop key parts {} of Some err \<Rightarrow> Inl err | None \<Rightarrow> Inr parts)"

definition address :: "string \<Rightarrow> string \<Rightarrow> bool \<Rightarrow> config_error + unit" where
  "address key raw allowEmptyHost =
     (case SplitHostPort raw of
        None \<Rightarrow> Inl (NotAddress key)
      | Some (host, port) \<Rightarrow>
          if (\<not> allowEmptyHost \<and> host = []) \<or> TrimSpace raw \<noteq> raw then Inl (NotAddress key)
          else case parse_int64 port of
                 None \<Rightarrow> Inl (BadPort key)
               | Some n \<Rightarrow> if n < 1 \<or> n > 65535 then Inl (BadPort key) else Inr ())"

definition maxWindowHours :: int where
  "maxWindowHours = 10 * 365 * 24"

definition wholeHoursDuration :: "string \<Rightarrow> int \<Rightarrow> config_error + duration" where
  "wholeHoursDuration key hours =
     (if hours \<le> 0 \<or> hours > max_int64 div Hour then Inl (HoursOverflow key) else Inr (wrap64 (hours * Hour)))"

section \<open>The configuration\<close>

record tierer_config =
  T_InstanceID :: string
  T_AccessRetention :: duration
  T_Apply :: bool
  T_Policy :: policy
  T_RestoreDays :: int
  T_CoverageTemplate :: string
  T_CoverageValue :: string
  T_CoverageEnabled :: bool
  T_MarkerKey :: string
  T_MarkerValue :: string
  T_RedisAddress :: string
  T_RedisUsername :: string
  T_RedisPassword :: string
  T_RedisDB :: int
  T_RedisTLS :: bool
  T_RedisOperationTimeout :: duration
  T_MinIOEndpoint :: string
  T_MinIOAccessKey :: string
  T_MinIOSecretKey :: string
  T_MinIOSecure :: bool
  T_MinIORegion :: string
  T_MinIOOperationTimeout :: duration
  T_TransitionBudget :: budget_limit
  T_RestoreBudget :: budget_limit
  T_ExcludedBuckets :: "string list"
  T_ExcludedPrefixes :: "string list"
  T_ChunkSize :: int
  T_CompletionDelay :: duration
  T_RetryDelay :: duration
  T_ListenAddress :: string
  T_ShutdownTimeout :: duration

definition contract :: "string \<Rightarrow> contract_error + 'a \<Rightarrow> config_error + 'a" where
  "contract key r = (case r of Inl err \<Rightarrow> Inl (Rejected key err) | Inr x \<Rightarrow> Inr x)"

definition check :: "bool \<Rightarrow> config_error \<Rightarrow> config_error + unit" where
  "check ok err = (if ok then Inr () else Inl err)"

text \<open>The \<^verbatim>\<open>switch\<close> on the mode.\<close>

definition apply_mode :: "env \<Rightarrow> config_error + bool" where
  "apply_mode lookup =
     (let mode = optional lookup ''TIERER_MODE'' ''audit''
      in if mode = ''audit'' then Inr False
         else if mode = ''apply''
         then bind_res (boolean lookup ''TIERER_APPLY'' False) (\<lambda>gate. if \<not> gate then Inl ApplyGateMissing else Inr True)
         else Inl UnknownMode)"

definition load_policy :: "env \<Rightarrow> config_error + policy" where
  "load_policy lookup =
     bind_res (integer64 lookup ''TIERER_LOW_THRESHOLD'' 0 False) (\<lambda>low.
     bind_res (boundedInteger lookup ''TIERER_LOW_WINDOW_HOURS'' 0 1 maxWindowHours False) (\<lambda>lowHours.
     bind_res (integer64 lookup ''TIERER_HIGH_THRESHOLD'' 0 False) (\<lambda>high.
     bind_res (boundedInteger lookup ''TIERER_HIGH_WINDOW_HOURS'' 0 1 maxWindowHours False) (\<lambda>highHours.
     bind_res (boolean lookup ''TIERER_HIGH_INCLUDE_CURRENT'' False) (\<lambda>current.
       Inr \<lparr>LowThreshold = low, LowWindowHours = lowHours, HighThreshold = high, HighWindowHours = highHours,
            HighIncludeCurrent = current\<rparr>)))))"

text \<open>The coverage settings: template and value are read only when coverage is enabled.\<close>

definition load_coverage :: "go_library \<Rightarrow> env \<Rightarrow> config_error + bool \<times> string \<times> string" where
  "load_coverage go lookup =
     bind_res (boolean lookup ''TIERER_COVERAGE_ENABLED'' True) (\<lambda>enabled.
       if \<not> enabled then Inr (False, [], [])
       else let template = required lookup ''TIERER_COVERAGE_TEMPLATE''
            in bind_res (contract ''TIERER_COVERAGE_TEMPLATE'' (ValidateCoverageTemplate (format_layout go) template)) (\<lambda>_.
                 let v = required lookup ''TIERER_COVERAGE_VALUE''
                 in bind_res (check (v \<noteq> []) CoverageValueMissing) (\<lambda>_. Inr (True, template, v))))"

text \<open>The daily budgets, read only in apply mode.\<close>

definition load_budgets :: "bool \<Rightarrow> env \<Rightarrow> config_error + budget_limit \<times> budget_limit" where
  "load_budgets apply_on lookup =
     (if \<not> apply_on then Inr (\<lparr>Attempts = 0, Bytes = 0\<rparr>, \<lparr>Attempts = 0, Bytes = 0\<rparr>)
      else bind_res (optionalInteger64 lookup ''TIERER_DAILY_TRANSITION_ATTEMPTS'' 1) (\<lambda>ta.
           bind_res (optionalInteger64 lookup ''TIERER_DAILY_TRANSITION_BYTES'' 1) (\<lambda>tb.
           bind_res (optionalInteger64 lookup ''TIERER_DAILY_RESTORE_ATTEMPTS'' 1) (\<lambda>ra.
           bind_res (optionalInteger64 lookup ''TIERER_DAILY_RESTORE_BYTES'' 1) (\<lambda>rb.
             Inr (\<lparr>Attempts = ta, Bytes = tb\<rparr>, \<lparr>Attempts = ra, Bytes = rb\<rparr>))))))"

definition LoadConfig :: "go_library \<Rightarrow> env \<Rightarrow> config_error + tierer_config" where
  "LoadConfig go lookup =
     bind_res (contract ''INSTANCE_ID'' (ValidateInstanceID (required lookup ''INSTANCE_ID''))) (\<lambda>_.
     bind_res (duration_value go lookup ''ACCESS_RETENTION'' [] True) (\<lambda>retention.
     bind_res (contract ''ACCESS_RETENTION'' (ValidateCounterRetention retention)) (\<lambda>_.
     bind_res (apply_mode lookup) (\<lambda>apply_on.
     bind_res (load_policy lookup) (\<lambda>pol.
     bind_res (integer lookup ''TIERER_RESTORE_DAYS'' 1 False) (\<lambda>days.
     bind_res (wholeHoursDuration ''TIERER_LOW_WINDOW_HOURS'' (LowWindowHours pol)) (\<lambda>lowWindow.
     bind_res (wholeHoursDuration ''TIERER_HIGH_WINDOW_HOURS'' (HighWindowHours pol)) (\<lambda>highWindow.
     bind_res (contract ''ACCESS_RETENTION'' (ValidateRetention retention lowWindow highWindow)) (\<lambda>_.
     bind_res (load_coverage go lookup) (\<lambda>(covered, template, coverage).
     bind_res (check (required lookup ''TIERER_MARKER_KEY'' \<noteq> [] \<and> required lookup ''TIERER_MARKER_VALUE'' \<noteq> []) MarkerMissing) (\<lambda>_.
     bind_res (check (new_tags go [(required lookup ''TIERER_MARKER_KEY'', required lookup ''TIERER_MARKER_VALUE'')]) MarkerTagInvalid) (\<lambda>_.
     bind_res (address ''REDIS_ADDR'' (optional lookup ''REDIS_ADDR'' ''127.0.0.1:6379'') False) (\<lambda>_.
     bind_res (boundedInteger lookup ''REDIS_DB'' 0 0 1000000 True) (\<lambda>db.
     bind_res (boolean lookup ''REDIS_TLS'' False) (\<lambda>tls.
     bind_res (duration_value go lookup ''REDIS_OPERATION_TIMEOUT'' ''5s'' False) (\<lambda>redisTimeout.
     bind_res (address ''MINIO_ENDPOINT'' (required lookup ''MINIO_ENDPOINT'') False) (\<lambda>_.
     bind_res (check (required lookup ''MINIO_ACCESS_KEY'' \<noteq> [] \<and> required lookup ''MINIO_SECRET_KEY'' \<noteq> []) CredentialsMissing) (\<lambda>_.
     bind_res (boolean lookup ''MINIO_SECURE'' True) (\<lambda>secure.
     bind_res (duration_value go lookup ''MINIO_OPERATION_TIMEOUT'' ''30s'' False) (\<lambda>minioTimeout.
     bind_res (load_budgets apply_on lookup) (\<lambda>(transition, restore).
     bind_res (exactList lookup ''TIERER_EXCLUDE_BUCKETS'') (\<lambda>buckets.
     bind_res (exactList lookup ''TIERER_EXCLUDE_BUCKET_PREFIXES'') (\<lambda>prefixes.
     bind_res (boundedInteger lookup ''TIERER_CHUNK_SIZE'' 100 1 1000000 True) (\<lambda>chunk.
     bind_res (case validateAggregateAccessKeys chunk (LowWindowHours pol) (HighWindowHours pol) maxRedisAccessKeysPerChunk of
                 Inl err \<Rightarrow> Inl (AggregateTooLarge err) | Inr u \<Rightarrow> Inr u) (\<lambda>_.
     bind_res (duration_value go lookup ''TIERER_COMPLETION_DELAY'' ''5m'' False) (\<lambda>completion.
     bind_res (duration_value go lookup ''TIERER_RETRY_DELAY'' ''30s'' False) (\<lambda>retry.
     bind_res (address ''TIERER_LISTEN_ADDR'' (optional lookup ''TIERER_LISTEN_ADDR'' '':8081'') True) (\<lambda>_.
     bind_res (duration_value go lookup ''TIERER_SHUTDOWN_TIMEOUT'' ''30s'' False) (\<lambda>shutdown.
       Inr \<lparr>T_InstanceID = required lookup ''INSTANCE_ID'', T_AccessRetention = retention, T_Apply = apply_on,
            T_Policy = pol, T_RestoreDays = days, T_CoverageTemplate = template, T_CoverageValue = coverage,
            T_CoverageEnabled = covered, T_MarkerKey = required lookup ''TIERER_MARKER_KEY'',
            T_MarkerValue = required lookup ''TIERER_MARKER_VALUE'',
            T_RedisAddress = optional lookup ''REDIS_ADDR'' ''127.0.0.1:6379'',
            T_RedisUsername = optional lookup ''REDIS_USERNAME'' [], T_RedisPassword = optional lookup ''REDIS_PASSWORD'' [],
            T_RedisDB = db, T_RedisTLS = tls, T_RedisOperationTimeout = redisTimeout,
            T_MinIOEndpoint = required lookup ''MINIO_ENDPOINT'', T_MinIOAccessKey = required lookup ''MINIO_ACCESS_KEY'',
            T_MinIOSecretKey = required lookup ''MINIO_SECRET_KEY'', T_MinIOSecure = secure,
            T_MinIORegion = optional lookup ''MINIO_REGION'' [], T_MinIOOperationTimeout = minioTimeout,
            T_TransitionBudget = transition, T_RestoreBudget = restore, T_ExcludedBuckets = buckets,
            T_ExcludedPrefixes = prefixes, T_ChunkSize = chunk, T_CompletionDelay = completion, T_RetryDelay = retry,
            T_ListenAddress = optional lookup ''TIERER_LISTEN_ADDR'' '':8081'', T_ShutdownTimeout = shutdown\<rparr>)))))))))))))))))))))))))))))"

section \<open>The scope of a configuration\<close>

record config_payload =
  P_Version :: int
  P_Apply :: bool
  P_MinIOEndpoint :: string
  P_Policy :: policy
  P_RestoreDays :: int
  P_CoverageTemplate :: string
  P_CoverageValue :: string
  P_CoverageEnabled :: bool
  P_MarkerKey :: string
  P_MarkerValue :: string
  P_TransitionBudget :: budget_limit
  P_RestoreBudget :: budget_limit
  P_ChunkSize :: int
  P_ExcludedBuckets :: "string list"
  P_ExcludedPrefixes :: "string list"

definition ConfigScopeHash :: "(config_payload \<Rightarrow> string) \<Rightarrow> tierer_config \<Rightarrow> string" where
  "ConfigScopeHash digest c =
     digest \<lparr>P_Version = 1, P_Apply = T_Apply c, P_MinIOEndpoint = T_MinIOEndpoint c, P_Policy = T_Policy c,
       P_RestoreDays = T_RestoreDays c, P_CoverageTemplate = T_CoverageTemplate c, P_CoverageValue = T_CoverageValue c,
       P_CoverageEnabled = T_CoverageEnabled c, P_MarkerKey = T_MarkerKey c, P_MarkerValue = T_MarkerValue c,
       P_TransitionBudget = T_TransitionBudget c, P_RestoreBudget = T_RestoreBudget c, P_ChunkSize = T_ChunkSize c,
       P_ExcludedBuckets = slicesSort (T_ExcludedBuckets c), P_ExcludedPrefixes = slicesSort (T_ExcludedPrefixes c)\<rparr>"

section \<open>What the readers return\<close>

lemma contract_Inr [simp]: "contract key r = Inr x \<longleftrightarrow> r = Inr x"
  by (simp add: contract_def split: sum.splits)

lemma check_Inr [simp]: "check ok err = Inr u \<longleftrightarrow> ok"
  by (simp add: check_def)

lemma duration_value_Inr: "duration_value go lookup key fallback mustSet = Inr d \<Longrightarrow> 0 < d"
  by (auto simp: duration_value_def split: if_splits option.splits)

lemma boundedInteger_Inr:
  "boundedInteger lookup key fallback minimum maximum allowMissing = Inr n \<Longrightarrow>
     (allowMissing \<longrightarrow> minimum \<le> fallback \<and> fallback \<le> maximum) \<Longrightarrow> minimum \<le> n \<and> n \<le> maximum"
  by (auto simp: boundedInteger_def split: if_splits option.splits)

lemma integer64_Inr: "integer64 lookup key minimum allowMissing = Inr n \<Longrightarrow> minimum \<le> n"
  by (auto simp: integer64_def split: if_splits option.splits)

lemma parse_int64_bound: "parse_int64 s = Some n \<Longrightarrow> int64 n"
  by (auto simp: parse_int64_def Let_def split: if_splits prod.splits)

lemma optionalInteger64_Inr: "optionalInteger64 lookup key minimum = Inr n \<Longrightarrow> 0 \<le> minimum \<Longrightarrow> 0 \<le> n \<and> n \<le> max_int64"
  by (auto simp: optionalInteger64_def max_int64_def int64_def dest!: parse_int64_bound split: if_splits option.splits)

lemma boolean_Inr: "boolean lookup key fallback = Inr b \<Longrightarrow>
    (lookup key = None \<and> b = fallback) \<or> (lookup key = Some ''true'' \<and> b) \<or> (lookup key = Some ''false'' \<and> \<not> b)"
  by (auto simp: boolean_def split: if_splits option.splits)

lemma apply_mode_Inr:
  "apply_mode lookup = Inr b \<Longrightarrow> b \<longleftrightarrow> lookup ''TIERER_MODE'' = Some ''apply'' \<and> lookup ''TIERER_APPLY'' = Some ''true''"
  by (auto simp: apply_mode_def optional_def Let_def bind_res_Inr_iff dest!: boolean_Inr split: if_splits option.splits)

definition valid_policy :: "policy \<Rightarrow> bool" where
  "valid_policy pol \<longleftrightarrow> 0 \<le> LowThreshold pol \<and> 0 \<le> HighThreshold pol \<and>
     1 \<le> LowWindowHours pol \<and> LowWindowHours pol \<le> maxWindowHours \<and>
     1 \<le> HighWindowHours pol \<and> HighWindowHours pol \<le> maxWindowHours"

lemma load_policy_Inr: "load_policy lookup = Inr pol \<Longrightarrow> valid_policy pol"
  by (auto simp: load_policy_def bind_res_Inr_iff valid_policy_def dest!: integer64_Inr boundedInteger_Inr)

definition valid_limit :: "budget_limit \<Rightarrow> bool" where
  "valid_limit limit \<longleftrightarrow> 0 \<le> Attempts limit \<and> Attempts limit \<le> max_int64 \<and> 0 \<le> Bytes limit \<and> Bytes limit \<le> max_int64"

lemma load_budgets_Inr:
  "load_budgets apply_on lookup = Inr (t, r) \<Longrightarrow> valid_limit t \<and> valid_limit r"
  by (auto simp: load_budgets_def bind_res_Inr_iff valid_limit_def max_int64_def dest!: optionalInteger64_Inr split: if_splits)

lemma wholeHoursDuration_Inr: "wholeHoursDuration key hours = Inr d \<Longrightarrow> d = hours * Hour \<and> 0 < hours"
proof -
  assume run: "wholeHoursDuration key hours = Inr d"
  then have h: "0 < hours" "hours \<le> max_int64 div Hour" "d = wrap64 (hours * Hour)"
    by (auto simp: wholeHoursDuration_def split: if_splits)
  then have "int64 (hours * Hour)" by (simp add: int64_def max_int64_def min_int64_def time_units)
  then show ?thesis using h by (simp add: wrap64_id)
qed

lemma validateAggregateAccessKeys_Inr:
  assumes "validateAggregateAccessKeys objects lowHours highHours limit = Inr u"
  shows "0 < objects" "0 < lowHours" "0 < highHours" "objects * (lowHours + highHours) \<le> limit"
proof -
  have h: "0 < objects" "0 < lowHours" "0 < highHours" "objects \<le> limit div (lowHours + highHours)"
    using assms by (auto simp: validateAggregateAccessKeys_def split: if_splits)
  then have "objects * (lowHours + highHours) \<le> limit div (lowHours + highHours) * (lowHours + highHours)"
    by (intro mult_right_mono) auto
  also have "\<dots> \<le> limit" using h pos_mod_sign [of "lowHours + highHours" limit] div_mult_mod_eq [of limit "lowHours + highHours"] by linarith
  finally show "objects * (lowHours + highHours) \<le> limit" .
  show "0 < objects" "0 < lowHours" "0 < highHours" using h by auto
qed

lemma list_loop_None:
  "list_loop key parts seen = None \<longleftrightarrow>
     (\<forall>part\<in>set parts. part \<noteq> [] \<and> TrimSpace part = part \<and> part \<notin> seen) \<and> distinct parts"
  by (induction parts arbitrary: seen) auto

section \<open>Properties\<close>

definition demo_env :: env where
  "demo_env = map_of
     [(''INSTANCE_ID'', ''prod''), (''ACCESS_RETENTION'', ''72h''), (''TIERER_LOW_THRESHOLD'', ''2''),
      (''TIERER_LOW_WINDOW_HOURS'', ''48''), (''TIERER_HIGH_THRESHOLD'', ''10''), (''TIERER_HIGH_WINDOW_HOURS'', ''2''),
      (''TIERER_RESTORE_DAYS'', ''3''), (''TIERER_COVERAGE_ENABLED'', ''false''), (''TIERER_MARKER_KEY'', ''tier''),
      (''TIERER_MARKER_VALUE'', ''cold''), (''MINIO_ENDPOINT'', ''minio:9000''), (''MINIO_ACCESS_KEY'', ''a''),
      (''MINIO_SECRET_KEY'', ''s''), (''TIERER_EXCLUDE_BUCKETS'', ''logs,tmp'')]"

definition demo_go :: go_library where
  "demo_go = \<lparr>format_layout = (\<lambda>layout t. layout), float_fraction = (\<lambda>f scale unit. f * unit div scale), new_tags = (\<lambda>tags. True)\<rparr>"

lemmas config_eval = demo_env_def demo_go_def required_def optional_def boolean_def integer64_def integer_def
  optionalInteger64_def boundedInteger_def duration_value_def exactList_def address_def wholeHoursDuration_def
  ParseDuration_def duration_loop.simps duration_part_def is_digit_def Let_def dec_val_def digit_val_def unit_of_def
  Second_def Hour_def maxWindowHours_def max_int64_def apply_mode_def load_policy_def load_coverage_def load_budgets_def
  contract_def check_def ValidateInstanceID_def instance_char_def ValidateCounterRetention_def ValidateRetention_def
  SplitHostPort_def last_index_def first_index_def parse_int64_def int64_def min_int64_def TrimSpace_def trim_left.simps
  leading_space_def space_runes_def starts_with_def ascii_space_def wrap64_mod validateAggregateAccessKeys_def
  maxRedisAccessKeysPerChunk_def

lemma demo_loads: "\<exists>c. LoadConfig demo_go demo_env = Inr c \<and> T_ChunkSize c = 100 \<and> T_ExcludedBuckets c = [''logs'', ''tmp'']"
  by (simp add: LoadConfig_def config_eval)

definition valid_config :: "tierer_config \<Rightarrow> bool" where
  "valid_config c \<longleftrightarrow>
     ValidateInstanceID (T_InstanceID c) = Inr () \<and> valid_policy (T_Policy c) \<and> 1 \<le> T_RestoreDays c \<and>
     T_AccessRetention c mod Second = 0 \<and>
     ValidateRetention (T_AccessRetention c) (LowWindowHours (T_Policy c) * Hour) (HighWindowHours (T_Policy c) * Hour) = Inr () \<and>
     T_MarkerKey c \<noteq> [] \<and> T_MarkerValue c \<noteq> [] \<and> (T_CoverageEnabled c \<longrightarrow> T_CoverageValue c \<noteq> []) \<and>
     1 \<le> T_ChunkSize c \<and>
     T_ChunkSize c * (LowWindowHours (T_Policy c) + HighWindowHours (T_Policy c)) \<le> maxRedisAccessKeysPerChunk \<and>
     valid_limit (T_TransitionBudget c) \<and> valid_limit (T_RestoreBudget c) \<and>
     0 < T_CompletionDelay c \<and> 0 < T_RetryDelay c \<and> 0 < T_RedisOperationTimeout c \<and>
     0 < T_MinIOOperationTimeout c \<and> 0 < T_ShutdownTimeout c"

lemma aggregate_Inr:
  "(case validateAggregateAccessKeys a b c d of Inl err \<Rightarrow> Inl (AggregateTooLarge err) | Inr u \<Rightarrow> Inr u) = Inr u \<longleftrightarrow>
     validateAggregateAccessKeys a b c d = Inr u"
  by (auto split: sum.splits)

lemma LoadConfig_valid:
  assumes "LoadConfig go lookup = Inr c"
  shows "valid_config c"
proof -
  obtain u1 retention u2 apply_on pol days low high u3 covered template coverage u4 u5 u6 db tls rt u7 u8 secure mt
      transition restore buckets prefixes chunk u9 completion retry u10 shutdown where
    r: "ValidateInstanceID (required lookup ''INSTANCE_ID'') = Inr u1"
      "duration_value go lookup ''ACCESS_RETENTION'' [] True = Inr retention"
      "ValidateCounterRetention retention = Inr u2" "load_policy lookup = Inr pol"
      "integer lookup ''TIERER_RESTORE_DAYS'' 1 False = Inr days"
      "wholeHoursDuration ''TIERER_LOW_WINDOW_HOURS'' (LowWindowHours pol) = Inr low"
      "wholeHoursDuration ''TIERER_HIGH_WINDOW_HOURS'' (HighWindowHours pol) = Inr high"
      "ValidateRetention retention low high = Inr u3"
      "load_coverage go lookup = Inr (covered, template, coverage)"
      "required lookup ''TIERER_MARKER_KEY'' \<noteq> [] \<and> required lookup ''TIERER_MARKER_VALUE'' \<noteq> []"
      "duration_value go lookup ''REDIS_OPERATION_TIMEOUT'' ''5s'' False = Inr rt"
      "duration_value go lookup ''MINIO_OPERATION_TIMEOUT'' ''30s'' False = Inr mt"
      "load_budgets apply_on lookup = Inr (transition, restore)"
      "boundedInteger lookup ''TIERER_CHUNK_SIZE'' 100 1 1000000 True = Inr chunk"
      "validateAggregateAccessKeys chunk (LowWindowHours pol) (HighWindowHours pol) maxRedisAccessKeysPerChunk = Inr u9"
      "duration_value go lookup ''TIERER_COMPLETION_DELAY'' ''5m'' False = Inr completion"
      "duration_value go lookup ''TIERER_RETRY_DELAY'' ''30s'' False = Inr retry"
      "duration_value go lookup ''TIERER_SHUTDOWN_TIMEOUT'' ''30s'' False = Inr shutdown"
    and c: "T_InstanceID c = required lookup ''INSTANCE_ID''" "T_AccessRetention c = retention" "T_Policy c = pol"
      "T_RestoreDays c = days" "T_MarkerKey c = required lookup ''TIERER_MARKER_KEY''"
      "T_MarkerValue c = required lookup ''TIERER_MARKER_VALUE''" "T_CoverageEnabled c = covered"
      "T_CoverageValue c = coverage" "T_ChunkSize c = chunk" "T_TransitionBudget c = transition"
      "T_RestoreBudget c = restore" "T_CompletionDelay c = completion" "T_RetryDelay c = retry"
      "T_RedisOperationTimeout c = rt" "T_MinIOOperationTimeout c = mt" "T_ShutdownTimeout c = shutdown"
    using assms unfolding LoadConfig_def
    by (auto simp: bind_res_Inr_iff aggregate_Inr split: prod.splits)
  have "covered \<longrightarrow> coverage \<noteq> []"
    using r(9) by (auto simp: load_coverage_def Let_def bind_res_Inr_iff split: if_splits)
  moreover have "1 \<le> chunk" using boundedInteger_Inr [OF r(14)] by simp
  moreover have "retention mod Second = 0" using r(3) by (auto simp: ValidateCounterRetention_def split: if_splits)
  moreover have "1 \<le> days" using r(5) by (simp add: integer_def integer64_Inr)
  moreover have "low = LowWindowHours pol * Hour" "high = HighWindowHours pol * Hour"
    using wholeHoursDuration_Inr r(6,7) by blast+
  ultimately show ?thesis
    using r(1,8,10) load_policy_Inr [OF r(4)] validateAggregateAccessKeys_Inr(4) [OF r(15)] load_budgets_Inr [OF r(13)]
      duration_value_Inr [OF r(16)] duration_value_Inr [OF r(17)] duration_value_Inr [OF r(18)]
      duration_value_Inr [OF r(11)] duration_value_Inr [OF r(12)]
    by (simp add: valid_config_def c)
qed

text \<open>C34: Every configuration the tierer accepts is safe to run: the windows are within ten years, a
  chunk reads at most ten thousand counters, the retention is whole seconds and outlives the longer
  window by more than an hour, the marker is not empty, no budget is negative and no delay or timeout
  is zero.\<close>

theorem loaded_config_is_valid:
  assumes "LoadConfig go lookup = Inr c"
  shows "valid_config c"
  using LoadConfig_valid [OF assms] .

theorem loaded_config_is_valid_witness: "\<exists>c. LoadConfig demo_go demo_env = Inr c \<and> valid_config c"
  using demo_loads loaded_config_is_valid [of demo_go demo_env] by blast

lemma LoadConfig_apply:
  assumes "LoadConfig go lookup = Inr c"
  shows "T_Apply c \<longleftrightarrow> lookup ''TIERER_MODE'' = Some ''apply'' \<and> lookup ''TIERER_APPLY'' = Some ''true''"
    and "T_Apply c \<or> (T_TransitionBudget c = \<lparr>Attempts = 0, Bytes = 0\<rparr> \<and> T_RestoreBudget c = \<lparr>Attempts = 0, Bytes = 0\<rparr>)"
proof -
  obtain apply_on transition restore where r: "apply_mode lookup = Inr apply_on"
    "load_budgets apply_on lookup = Inr (transition, restore)"
    and c: "T_Apply c = apply_on" "T_TransitionBudget c = transition" "T_RestoreBudget c = restore"
    using assms unfolding LoadConfig_def
    by (auto simp: bind_res_Inr_iff split: prod.splits)
  show "T_Apply c \<longleftrightarrow> lookup ''TIERER_MODE'' = Some ''apply'' \<and> lookup ''TIERER_APPLY'' = Some ''true''"
    using apply_mode_Inr [OF r(1)] c by simp
  show "T_Apply c \<or> (T_TransitionBudget c = \<lparr>Attempts = 0, Bytes = 0\<rparr> \<and> T_RestoreBudget c = \<lparr>Attempts = 0, Bytes = 0\<rparr>)"
    using r(2) c by (auto simp: load_budgets_def)
qed

text \<open>A mutation needs two switches: a loaded configuration is in apply mode exactly when the mode is
  \<open>apply\<close> and the separate gate is \<open>true\<close>, and without apply mode every budget it carries is empty.\<close>

theorem apply_needs_both_switches:
  assumes "LoadConfig go lookup = Inr c"
  shows "(T_Apply c \<longleftrightarrow> lookup ''TIERER_MODE'' = Some ''apply'' \<and> lookup ''TIERER_APPLY'' = Some ''true'') \<and>
    (T_Apply c \<or> (T_TransitionBudget c = \<lparr>Attempts = 0, Bytes = 0\<rparr> \<and> T_RestoreBudget c = \<lparr>Attempts = 0, Bytes = 0\<rparr>))"
  using LoadConfig_apply [OF assms] by blast

theorem apply_needs_both_switches_witness: "\<exists>c. LoadConfig demo_go demo_env = Inr c \<and> \<not> T_Apply c"
proof -
  have "demo_env ''TIERER_MODE'' = None" by (simp add: demo_env_def)
  then show ?thesis using demo_loads apply_needs_both_switches [of demo_go demo_env] by fastforce
qed

text \<open>An exact list comes back as it was written: joining distinct, trimmed, non-empty items without
  commas and reading the result gives the items again, in order.\<close>

theorem exact_list_roundtrip:
  assumes "parts \<noteq> []" and "distinct parts"
    and "\<forall>part\<in>set parts. part \<noteq> [] \<and> TrimSpace part = part \<and> CHR '','' \<notin> set part"
  shows "exactList [key \<mapsto> sep_join CHR '','' parts] key = Inr parts"
proof -
  have "sep_join CHR '','' parts \<noteq> []" using assms by (cases parts; cases "tl parts") auto
  moreover have "split_on CHR '','' (sep_join CHR '','' parts) = parts"
    using assms by (intro split_on_sep_join) auto
  moreover have "list_loop key parts {} = None"
    using assms by (simp add: list_loop_None)
  ultimately show ?thesis by (simp add: exactList_def Let_def)
qed

theorem exact_list_roundtrip_witness: "exactList [''K'' \<mapsto> ''logs,tmp''] ''K'' = Inr [''logs'', ''tmp'']"
proof -
  have "\<forall>part\<in>set [''logs'', ''tmp'']. part \<noteq> [] \<and> TrimSpace part = part \<and> CHR '','' \<notin> set part"
    by code_simp
  from exact_list_roundtrip [OF _ _ this] show ?thesis by simp
qed

end
