(* ===== verification/Clients.thy ===== *)
theory Clients
  imports Updater_Config Tierer_Config
begin

text \<open>
  What the two services hand to the libraries they are built on: the options of the Redis clients
  (\<open>RedisOptions\<close> of \<^verbatim>\<open>internal/updater/run.go\<close> and of \<^verbatim>\<open>internal/tierer/service.go\<close>), the transport and the
  options of the MinIO client, and the limits of the HTTP servers. A field the code leaves
  out has its zero value.
\<close>

section \<open>Redis\<close>

text \<open>\<^verbatim>\<open>tls.VersionTLS12\<close> is \<^verbatim>\<open>0x0303\<close>.\<close>

record tls_config =
  MinVersion :: int
  ServerName :: string

record redis_options =
  Redis_Addr :: string
  Redis_Username :: string
  Redis_Password :: string
  Redis_DB :: int
  Redis_DialTimeout :: duration
  Redis_ReadTimeout :: duration
  Redis_WriteTimeout :: duration
  Redis_PoolTimeout :: duration
  Redis_MaxRetries :: int
  Redis_TLSConfig :: "tls_config option"

definition VersionTLS12 :: int where
  "VersionTLS12 = 0x0303"

text \<open>\<open>Inl\<close> is the error of \<^verbatim>\<open>net.SplitHostPort\<close>.\<close>

definition RedisOptions_updater :: "updater_config \<Rightarrow> unit + redis_options" where
  "RedisOptions_updater ucfg =
     (let options = \<lparr>Redis_Addr = U_RedisAddress ucfg, Redis_Username = U_RedisUsername ucfg,
            Redis_Password = U_RedisPassword ucfg, Redis_DB = U_RedisDB ucfg,
            Redis_DialTimeout = U_RedisOperationTimeout ucfg, Redis_ReadTimeout = U_RedisOperationTimeout ucfg,
            Redis_WriteTimeout = U_RedisOperationTimeout ucfg, Redis_PoolTimeout = 0,
            Redis_MaxRetries = -1, Redis_TLSConfig = None\<rparr>
      in if U_RedisTLS ucfg
         then case SplitHostPort (U_RedisAddress ucfg) of
                None \<Rightarrow> Inl ()
              | Some (host, _) \<Rightarrow>
                  Inr (options\<lparr>Redis_TLSConfig := Some \<lparr>MinVersion = VersionTLS12, ServerName = host\<rparr>\<rparr>)
         else Inr options)"

definition RedisOptions_tierer :: "tierer_config \<Rightarrow> unit + redis_options" where
  "RedisOptions_tierer c =
     (let options = \<lparr>Redis_Addr = T_RedisAddress c, Redis_Username = T_RedisUsername c,
            Redis_Password = T_RedisPassword c, Redis_DB = T_RedisDB c,
            Redis_DialTimeout = T_RedisOperationTimeout c, Redis_ReadTimeout = T_RedisOperationTimeout c,
            Redis_WriteTimeout = T_RedisOperationTimeout c, Redis_PoolTimeout = T_RedisOperationTimeout c,
            Redis_MaxRetries = -1, Redis_TLSConfig = None\<rparr>
      in if T_RedisTLS c
         then case SplitHostPort (T_RedisAddress c) of
                None \<Rightarrow> Inl ()
              | Some (host, _) \<Rightarrow>
                  Inr (options\<lparr>Redis_TLSConfig := Some \<lparr>MinVersion = VersionTLS12, ServerName = host\<rparr>\<rparr>)
         else Inr options)"

section \<open>MinIO\<close>

text \<open>\<^verbatim>\<open>minio.DefaultTransport\<close> is a parameter: the settings it starts from, or its error.\<close>

record transport =
  Transport_DialTimeout :: duration
  Transport_KeepAlive :: duration
  Transport_ResponseHeaderTimeout :: duration
  Transport_TLSHandshakeTimeout :: duration
  Transport_ExpectContinueTimeout :: duration
  Transport_IdleConnTimeout :: duration

definition MinIOTransport :: "(bool \<Rightarrow> 'e + transport) \<Rightarrow> tierer_config \<Rightarrow> 'e + transport" where
  "MinIOTransport DefaultTransport c =
     (case DefaultTransport (T_MinIOSecure c) of
        Inl err \<Rightarrow> Inl err
      | Inr transport \<Rightarrow>
          let timeout = (if T_MinIOOperationTimeout c \<le> 0 then 30 * Second else T_MinIOOperationTimeout c);
              dialTimeout = min timeout (10 * Second)
          in Inr (transport\<lparr>Transport_DialTimeout := dialTimeout, Transport_KeepAlive := 30 * Second,
               Transport_ResponseHeaderTimeout := timeout,
               Transport_TLSHandshakeTimeout := min timeout (10 * Second),
               Transport_ExpectContinueTimeout := min timeout Second,
               Transport_IdleConnTimeout := 60 * Second\<rparr>))"

record minio_options =
  Minio_AccessKey :: string
  Minio_SecretKey :: string
  Minio_SessionToken :: string
  Minio_Secure :: bool
  Minio_Region :: string
  Minio_Transport :: transport
  Minio_MaxRetries :: int

definition minio_settings :: "tierer_config \<Rightarrow> transport \<Rightarrow> minio_options" where
  "minio_settings c transport =
     \<lparr>Minio_AccessKey = T_MinIOAccessKey c, Minio_SecretKey = T_MinIOSecretKey c, Minio_SessionToken = [],
      Minio_Secure = T_MinIOSecure c, Minio_Region = T_MinIORegion c, Minio_Transport = transport, Minio_MaxRetries = 1\<rparr>"

section \<open>HTTP\<close>

record http_server =
  Server_Addr :: string
  Server_ReadHeaderTimeout :: duration
  Server_ReadTimeout :: duration
  Server_WriteTimeout :: duration
  Server_IdleTimeout :: duration
  Server_MaxHeaderBytes :: int

definition NewHTTPServer :: "updater_config \<Rightarrow> http_server" where
  "NewHTTPServer ucfg =
     \<lparr>Server_Addr = U_ListenAddress ucfg, Server_ReadHeaderTimeout = U_ReadHeaderTimeout ucfg,
      Server_ReadTimeout = U_ReadTimeout ucfg, Server_WriteTimeout = U_WriteTimeout ucfg,
      Server_IdleTimeout = U_IdleTimeout ucfg, Server_MaxHeaderBytes = U_MaxHeaderBytes ucfg\<rparr>"

definition tierer_http_server :: "tierer_config \<Rightarrow> http_server" where
  "tierer_http_server c =
     \<lparr>Server_Addr = T_ListenAddress c, Server_ReadHeaderTimeout = 5 * Second, Server_ReadTimeout = 10 * Second,
      Server_WriteTimeout = 15 * Second, Server_IdleTimeout = 60 * Second, Server_MaxHeaderBytes = 2 ^ 20\<rparr>"

section \<open>Clients of a loaded configuration\<close>

lemma validateAddress_Inr:
  "validateAddress key addr False = Inr u \<Longrightarrow> \<exists>host port. SplitHostPort addr = Some (host, port) \<and> host \<noteq> []"
  by (auto simp: validateAddress_def split: if_splits option.splits)

lemma address_Inr:
  "address key addr False = Inr u \<Longrightarrow> \<exists>host port. SplitHostPort addr = Some (host, port) \<and> host \<noteq> []"
  by (auto simp: address_def split: if_splits option.splits)

lemma LoadConfig_updater_redis:
  assumes "LoadConfig_updater frac lookup = Inr c"
  shows "\<exists>host port. SplitHostPort (U_RedisAddress c) = Some (host, port) \<and> host \<noteq> []"
  using assms [unfolded LoadConfig_updater_def Let_def]
  by (auto simp: bind_res_Inr_iff dest: validateAddress_Inr split: prod.splits)

lemma LoadConfig_redis:
  assumes "LoadConfig go lookup = Inr c"
  shows "\<exists>host port. SplitHostPort (T_RedisAddress c) = Some (host, port) \<and> host \<noteq> []"
  using assms [unfolded LoadConfig_def]
  by (auto simp: bind_res_Inr_iff dest: address_Inr split: prod.splits)

text \<open>What every Redis client of the two services is configured with.\<close>

definition safe_options :: "string \<Rightarrow> bool \<Rightarrow> duration \<Rightarrow> redis_options \<Rightarrow> bool" where
  "safe_options addr tls timeout options \<longleftrightarrow>
     Redis_Addr options = addr \<and> Redis_MaxRetries options = -1 \<and> 0 < timeout \<and>
     Redis_DialTimeout options = timeout \<and> Redis_ReadTimeout options = timeout \<and> Redis_WriteTimeout options = timeout \<and>
     (case Redis_TLSConfig options of
        None \<Rightarrow> \<not> tls
      | Some conf \<Rightarrow> tls \<and> MinVersion conf = VersionTLS12 \<and> ServerName conf \<noteq> [] \<and>
          Some (ServerName conf) = map_option fst (SplitHostPort addr))"

lemma RedisOptions_updater_loaded:
  assumes "LoadConfig_updater frac lookup = Inr ucfg"
  shows "\<exists>options. RedisOptions_updater ucfg = Inr options \<and>
    safe_options (U_RedisAddress ucfg) (U_RedisTLS ucfg) (U_RedisOperationTimeout ucfg) options"
  using LoadConfig_updater_redis [OF assms] LoadConfig_updater_reads(5) [OF assms]
  by (auto simp: RedisOptions_updater_def safe_options_def positive_duration_def Let_def)

lemma RedisOptions_tierer_loaded:
  assumes "LoadConfig go lookup = Inr c"
  shows "\<exists>options. RedisOptions_tierer c = Inr options \<and>
    safe_options (T_RedisAddress c) (T_RedisTLS c) (T_RedisOperationTimeout c) options"
  using LoadConfig_redis [OF assms] LoadConfig_valid [OF assms]
  by (auto simp: RedisOptions_tierer_def safe_options_def valid_config_def Let_def)

text \<open>The timeouts of the transport lie within the configured one.\<close>

definition bounded_transport :: "duration \<Rightarrow> transport \<Rightarrow> bool" where
  "bounded_transport timeout t \<longleftrightarrow>
     Transport_ResponseHeaderTimeout t = timeout \<and>
     0 < Transport_DialTimeout t \<and> Transport_DialTimeout t \<le> timeout \<and>
     0 < Transport_TLSHandshakeTimeout t \<and> Transport_TLSHandshakeTimeout t \<le> timeout \<and>
     0 < Transport_ExpectContinueTimeout t \<and> Transport_ExpectContinueTimeout t \<le> timeout"

text \<open>C26: No counter and no budget is ever counted twice by a silent retry: from every configuration that loads, both services
  build their Redis client with retries off and with the configured positive timeout on every operation,
  and over TLS of version 1.2 or later under the name of the configured host where TLS is on; and the
  tierer's MinIO transport never waits without a limit, nor longer than the configured timeout.\<close>

theorem clients_never_retry:
  assumes "LoadConfig_updater frac lookup = Inr ucfg" and "LoadConfig go lookup' = Inr c"
    and "MinIOTransport DefaultTransport c = Inr t"
  shows "(\<exists>options. RedisOptions_updater ucfg = Inr options \<and>
      safe_options (U_RedisAddress ucfg) (U_RedisTLS ucfg) (U_RedisOperationTimeout ucfg) options) \<and>
    (\<exists>options. RedisOptions_tierer c = Inr options \<and>
      safe_options (T_RedisAddress c) (T_RedisTLS c) (T_RedisOperationTimeout c) options) \<and>
    bounded_transport (T_MinIOOperationTimeout c) t"
proof -
  have "0 < T_MinIOOperationTimeout c" using LoadConfig_valid [OF assms(2)] by (simp add: valid_config_def)
  then have "bounded_transport (T_MinIOOperationTimeout c) t"
    using assms(3) by (auto simp: MinIOTransport_def bounded_transport_def Let_def Second_def split: sum.splits)
  with RedisOptions_updater_loaded [OF assms(1)] RedisOptions_tierer_loaded [OF assms(2)] show ?thesis by blast
qed

definition zero_transport :: transport where
  "zero_transport = \<lparr>Transport_DialTimeout = 0, Transport_KeepAlive = 0, Transport_ResponseHeaderTimeout = 0,
     Transport_TLSHandshakeTimeout = 0, Transport_ExpectContinueTimeout = 0, Transport_IdleConnTimeout = 0\<rparr>"

theorem clients_never_retry_witness:
  "\<exists>ucfg c t. LoadConfig_updater (\<lambda>f scale unit. f * unit div scale) demo_updater_env = Inr ucfg \<and> LoadConfig demo_go demo_env = Inr c \<and>
     MinIOTransport (\<lambda>secure. Inr zero_transport :: string + transport) c = Inr t \<and> 0 < Transport_DialTimeout t"
proof -
  obtain ucfg c where loads: "LoadConfig_updater (\<lambda>f scale unit. f * unit div scale) demo_updater_env = Inr ucfg" "LoadConfig demo_go demo_env = Inr c"
    using demo_updater_loads demo_loads by blast
  obtain t where t: "MinIOTransport (\<lambda>secure. Inr zero_transport :: string + transport) c = Inr t"
    by (simp add: MinIOTransport_def Let_def)
  from clients_never_retry [OF loads t] have "0 < Transport_DialTimeout t" by (simp add: bounded_transport_def)
  with loads t show ?thesis by blast
qed

end
