(* ===== verification/Lifecycle.thy ===== *)
theory Lifecycle
  imports Minio_Adapter
begin

text \<open>
  The life cycle of the two services: \<open>runServiceLoops\<close> and the readiness check of
  \<^verbatim>\<open>internal/tierer/service.go\<close>, and \<open>runService\<close> of \<^verbatim>\<open>internal/updater/run.go\<close>. The goroutines are
  the signals they send, in the order the \<^verbatim>\<open>select\<close>s receive them; an error is a \<open>'e\<close>, a nil error
  \<open>None\<close>, and a joined error the list of its parts, the empty list being nil.
\<close>

section \<open>The loops of the tierer\<close>

datatype 'e signal =
    ContextDone
  | ServerDone "'e option"
  | WorkerDone "'e option"
  | ShutdownDone "'e option"
  | DeadlinePassed

datatype 'e service_error = HttpService "'e option" | ScannerService 'e | Plain 'e | ShutdownDeadline

text \<open>\<open>closed\<close> is \<^verbatim>\<open>errors.Is(err, http.ErrServerClosed)\<close>, \<open>canceled\<close> \<^verbatim>\<open>errors.Is(err, context.Canceled)\<close>; both are false for nil.\<close>

record 'e error_tests =
  closed :: "'e \<Rightarrow> bool"
  canceled :: "'e \<Rightarrow> bool"

definition join :: "'e service_error list \<Rightarrow> 'e option \<Rightarrow> 'e service_error list" where
  "join result err = (case err of None \<Rightarrow> result | Some e \<Rightarrow> result @ [Plain e])"

definition server_fault :: "'e error_tests \<Rightarrow> 'e option \<Rightarrow> bool" where
  "server_fault tests err = (case err of None \<Rightarrow> True | Some e \<Rightarrow> \<not> closed tests e)"

definition worker_fault :: "'e error_tests \<Rightarrow> 'e option \<Rightarrow> bool" where
  "worker_fault tests err = (case err of None \<Rightarrow> False | Some e \<Rightarrow> \<not> canceled tests e)"

text \<open>The second loop: what is still running, and the errors so far. \<open>None\<close> is a loop that still waits.\<close>

fun shutdown_loop ::
    "'e error_tests \<Rightarrow> bool \<Rightarrow> bool \<Rightarrow> bool \<Rightarrow> 'e service_error list \<Rightarrow> 'e signal list \<Rightarrow> 'e service_error list option" where
  "shutdown_loop tests server worker shutdown result signals =
     (if server \<and> worker \<and> shutdown then Some result
      else case signals of
             [] \<Rightarrow> None
           | ContextDone # rest \<Rightarrow> shutdown_loop tests server worker shutdown result rest
           | ServerDone err # rest \<Rightarrow>
               shutdown_loop tests True worker shutdown (if server_fault tests err then join result err else result) rest
           | WorkerDone err # rest \<Rightarrow>
               shutdown_loop tests server True shutdown (if worker_fault tests err then join result err else result) rest
           | ShutdownDone err # rest \<Rightarrow> shutdown_loop tests server worker True (join result err) rest
           | DeadlinePassed # rest \<Rightarrow> Some (result @ [ShutdownDeadline]))"

declare shutdown_loop.simps [simp del]

lemma shutdown_loop_Nil:
  "shutdown_loop tests server worker shutdown result [] = (if server \<and> worker \<and> shutdown then Some result else None)"
  by (subst shutdown_loop.simps) simp

lemma shutdown_loop_Cons:
  "shutdown_loop tests server worker shutdown result (sig # rest) =
     (if server \<and> worker \<and> shutdown then Some result
      else case sig of
             ContextDone \<Rightarrow> shutdown_loop tests server worker shutdown result rest
           | ServerDone err \<Rightarrow>
               shutdown_loop tests True worker shutdown (if server_fault tests err then join result err else result) rest
           | WorkerDone err \<Rightarrow>
               shutdown_loop tests server True shutdown (if worker_fault tests err then join result err else result) rest
           | ShutdownDone err \<Rightarrow> shutdown_loop tests server worker True (join result err) rest
           | DeadlinePassed \<Rightarrow> Some (result @ [ShutdownDeadline]))"
  by (subst shutdown_loop.simps) (auto split: signal.splits)

definition runServiceLoops :: "'e error_tests \<Rightarrow> 'e signal \<Rightarrow> 'e signal list \<Rightarrow> 'e service_error list option" where
  "runServiceLoops tests first signals =
     (case first of
        ServerDone err \<Rightarrow>
          shutdown_loop tests True False False (if server_fault tests err then [HttpService err] else []) signals
      | WorkerDone err \<Rightarrow>
          shutdown_loop tests False True False
            (if worker_fault tests err then [ScannerService (the err)] else []) signals
      | _ \<Rightarrow> shutdown_loop tests False False False [] signals)"

text \<open>What each signal adds to the result.\<close>

fun faults :: "'e error_tests \<Rightarrow> 'e signal \<Rightarrow> 'e service_error list" where
  "faults tests ContextDone = []"
| "faults tests (ServerDone err) = (if server_fault tests err then join [] err else [])"
| "faults tests (WorkerDone err) = (if worker_fault tests err then join [] err else [])"
| "faults tests (ShutdownDone err) = join [] err"
| "faults tests DeadlinePassed = [ShutdownDeadline]"

fun is_server :: "'e signal \<Rightarrow> bool" where "is_server (ServerDone err) = True" | "is_server _ = False"
fun is_worker :: "'e signal \<Rightarrow> bool" where "is_worker (WorkerDone err) = True" | "is_worker _ = False"
fun is_shutdown :: "'e signal \<Rightarrow> bool" where "is_shutdown (ShutdownDone err) = True" | "is_shutdown _ = False"

lemma join_append: "join result err = result @ join [] err"
  by (simp add: join_def split: option.splits)

lemma shutdown_loop_result:
  assumes "shutdown_loop tests server worker shutdown result signals = Some r"
  shows "\<exists>received rest. signals = received @ rest \<and> r = result @ concat (map (faults tests) received) \<and>
    (DeadlinePassed \<in> set received \<or>
     ((server \<or> list_ex is_server received) \<and> (worker \<or> list_ex is_worker received) \<and>
      (shutdown \<or> list_ex is_shutdown received)))"
  using assms
proof (induction signals arbitrary: server worker shutdown result)
  case Nil
  then have "r = result" "server" "worker" "shutdown" by (auto simp: shutdown_loop_Nil split: if_splits)
  then show ?case by (intro exI [of _ "[]"]) simp
next
  case (Cons sig signals)
  show ?case
  proof (cases "server \<and> worker \<and> shutdown")
    case True
    then show ?thesis using Cons.prems
      by - (rule exI [of _ "[]"], auto simp: shutdown_loop_Cons)
  next
    case False
    show ?thesis
    proof (cases "sig = DeadlinePassed")
      case True
      then show ?thesis
        using Cons.prems False by - (rule exI [of _ "[sig]"], auto simp: shutdown_loop_Cons)
    next
      case go: False
      then have "shutdown_loop tests (server \<or> is_server sig) (worker \<or> is_worker sig) (shutdown \<or> is_shutdown sig)
          (result @ faults tests sig) signals = Some r"
        using Cons.prems False by (cases sig) (auto simp: shutdown_loop_Cons join_append [of result])
      from Cons.IH [OF this] obtain received rest where IH: "signals = received @ rest"
        "r = (result @ faults tests sig) @ concat (map (faults tests) received)"
        "DeadlinePassed \<in> set received \<or>
         ((server \<or> is_server sig) \<or> list_ex is_server received) \<and> ((worker \<or> is_worker sig) \<or> list_ex is_worker received) \<and>
         ((shutdown \<or> is_shutdown sig) \<or> list_ex is_shutdown received)" by blast
      then show ?thesis by - (rule exI [of _ "sig # received"], auto)
    qed
  qed
qed

lemma shutdown_loop_returns:
  assumes "DeadlinePassed \<in> set signals \<or>
     ((server \<or> list_ex is_server signals) \<and> (worker \<or> list_ex is_worker signals) \<and> (shutdown \<or> list_ex is_shutdown signals))"
  shows "shutdown_loop tests server worker shutdown result signals \<noteq> None"
  using assms
proof (induction signals arbitrary: server worker shutdown result)
  case (Cons sig signals)
  then show ?case
    by (cases sig) (auto simp: shutdown_loop_Cons)
qed (auto simp: shutdown_loop_Nil)

text \<open>C36: The tierer's two loops stop cleanly or say why: once the first of them ends or the context does,
  \<open>runServiceLoops\<close> returns as soon as the server, the scanner and the shutdown have all ended or the
  deadline has passed, and it returns no error exactly when none of the signals it received was a
  failure: a closed server and a cancelled scanner are not, a passed deadline is.\<close>

theorem service_loops_outcome:
  assumes "DeadlinePassed \<in> set signals \<or>
      (list_ex is_server (first # signals) \<and> list_ex is_worker (first # signals) \<and> list_ex is_shutdown signals)"
    and "first = ContextDone \<or> is_server first \<or> is_worker first"
  shows "\<exists>received rest result. signals = received @ rest \<and> runServiceLoops tests first signals = Some result \<and>
     (DeadlinePassed \<in> set received \<or>
       (list_ex is_server (first # received) \<and> list_ex is_worker (first # received) \<and> list_ex is_shutdown received)) \<and>
     (result = [] \<longleftrightarrow> list_all (\<lambda>sig. faults tests sig = []) received \<and>
       (case first of ServerDone err \<Rightarrow> \<not> server_fault tests err | WorkerDone err \<Rightarrow> \<not> worker_fault tests err | _ \<Rightarrow> True))"
proof -
  have go: ?thesis
    if "runServiceLoops tests first signals = shutdown_loop tests (is_server first) (is_worker first) False start signals"
      and "start = [] \<longleftrightarrow> (case first of ServerDone err \<Rightarrow> \<not> server_fault tests err | WorkerDone err \<Rightarrow> \<not> worker_fault tests err | _ \<Rightarrow> True)"
    for start
  proof -
    obtain result where r: "shutdown_loop tests (is_server first) (is_worker first) False start signals = Some result"
      using assms(1) shutdown_loop_returns [of signals "is_server first" "is_worker first" False tests start] by auto
    from shutdown_loop_result [OF this] obtain received rest where "signals = received @ rest"
      "result = start @ concat (map (faults tests) received)"
      "DeadlinePassed \<in> set received \<or> ((is_server first \<or> list_ex is_server received) \<and>
        (is_worker first \<or> list_ex is_worker received) \<and> (False \<or> list_ex is_shutdown received))" by blast
    then show ?thesis using that r by (intro exI conjI) (auto simp: list_all_iff)
  qed
  show ?thesis
  proof (cases first)
    case (ServerDone err)
    then show ?thesis by (intro go) (auto simp: runServiceLoops_def)
  next
    case (WorkerDone err)
    then show ?thesis by (intro go) (auto simp: runServiceLoops_def)
  qed (use assms(2) go [of "[]"] in \<open>simp_all add: runServiceLoops_def\<close>)
qed

theorem service_loops_outcome_witness:
  "\<exists>result. runServiceLoops \<lparr>closed = (\<lambda>e. e = ''closed''), canceled = (\<lambda>e. e = ''canceled'')\<rparr> ContextDone
     [WorkerDone (Some ''canceled''), ServerDone (Some ''closed''), ShutdownDone None] = Some result \<and> result = []"
  using service_loops_outcome [of "[WorkerDone (Some ''canceled''), ServerDone (Some ''closed''), ShutdownDone None]" ContextDone
      "\<lparr>closed = (\<lambda>e. e = ''closed''), canceled = (\<lambda>e. e = ''canceled'')\<rparr>"]
  by (auto simp: runServiceLoops_def shutdown_loop_Cons shutdown_loop_Nil server_fault_def worker_fault_def join_def)

section \<open>Readiness of the tierer\<close>

datatype 'e ready_error = RedisNotReady 'e | MinioNotReady adapter_error

text \<open>The error, the dependency failures counted, and what the two calls did.\<close>

definition Ready ::
    "('c \<Rightarrow> 'e option \<times> 'c) \<Rightarrow> 'm minio_sdk \<Rightarrow> 'c \<Rightarrow> 'm \<Rightarrow> 'e ready_error option \<times> string list \<times> 'c \<times> 'm" where
  "Ready ping sdk c m =
     (case ping c of
        (Some err, c1) \<Rightarrow> (Some (RedisNotReady err), [''redis''], c1, m)
      | (None, c1) \<Rightarrow>
          (case Buckets sdk m of
             (Inl err, m1) \<Rightarrow> (Some (MinioNotReady err), [''minio''], c1, m1)
           | (Inr names, m1) \<Rightarrow> (None, [], c1, m1)))"

definition readyz :: "('c \<Rightarrow> 'e option \<times> 'c) \<Rightarrow> 'm minio_sdk \<Rightarrow> 'c \<Rightarrow> 'm \<Rightarrow> int \<times> string" where
  "readyz ping sdk c m =
     (if fst (Ready ping sdk c m) \<noteq> None then (503, ''not ready'' @ [CHR 0x0A]) else (200, ''ok'' @ [CHR 0x0A]))"

section \<open>The updater's service\<close>

text \<open>
  \<open>runService\<close> after \<^verbatim>\<open>Start\<close>: the server's error if it ended first, then shutdown, the batcher's
  \<open>Stop\<close>, and the close of the Redis client, in this order whatever each returns; the server's
  own error is awaited last when the context ended first.
\<close>

record ('w, 'e) updater_service =
  svc_shutdown :: "'w \<Rightarrow> 'e option \<times> 'w"
  svc_stop :: "'w \<Rightarrow> 'e option \<times> 'w"
  svc_close :: "'w \<Rightarrow> 'e option \<times> 'w"
  svc_await :: "'w \<Rightarrow> 'e option \<times> 'w"

definition runService ::
    "'e error_tests \<Rightarrow> ('w, 'e) updater_service \<Rightarrow> 'e option \<Rightarrow> 'w \<Rightarrow> 'e list \<times> 'w" where
  "runService tests svc serveErr w =
     (let (shutdownErr, w1) = svc_shutdown svc w;
          (batchErr, w2) = svc_stop svc w1;
          (closeErr, w3) = svc_close svc w2;
          (serveErr1, w4) = (case serveErr of None \<Rightarrow> svc_await svc w3 | Some err \<Rightarrow> (Some err, w3));
          serveErr2 = (case serveErr1 of None \<Rightarrow> None | Some err \<Rightarrow> if closed tests err then None else Some err)
      in (concat (map (\<lambda>err. case err of None \<Rightarrow> [] | Some e \<Rightarrow> [e]) [serveErr2, shutdownErr, batchErr, closeErr]), w4))"

end
