(* ===== verification/Go_Mime.thy ===== *)
theory Go_Mime
  imports Go_Text
begin

text \<open>
  \<^verbatim>\<open>mime.ParseMediaType\<close> of Go's standard library, as far as the request decoder uses it: the media
  type, and whether any parameter comes with it. \<^verbatim>\<open>strings.ToLower\<close> is written out for the runes whose
  lower case is ASCII; every other rune outside ASCII stays outside it, and no token contains one.
\<close>

abbreviation code :: "char \<Rightarrow> nat" where
  "code c \<equiv> of_char c"

definition lower_char :: "char \<Rightarrow> char" where
  "lower_char c = (if 65 \<le> code c \<and> code c \<le> 90 then char_of (code c + 32) else c)"

text \<open>U+0130 becomes \<open>i\<close> and U+212A becomes \<open>k\<close>.\<close>

fun ToLower :: "string \<Rightarrow> string" where
  "ToLower [] = []"
| "ToLower (c # cs) =
     (if starts_with (c # cs) [CHR 0xC4, CHR 0xB0] then CHR ''i'' # ToLower (drop 1 cs)
      else if starts_with (c # cs) [CHR 0xE2, CHR 0x84, CHR 0xAA] then CHR ''k'' # ToLower (drop 2 cs)
      else lower_char c # ToLower cs)"

definition special_char :: "char \<Rightarrow> bool" where
  "special_char c \<longleftrightarrow> c \<in> set ''()<>@,;:/[]?='' \<or> c = CHR 0x22 \<or> c = CHR 0x5C"

definition token_char :: "char \<Rightarrow> bool" where
  "token_char c \<longleftrightarrow> 32 < code c \<and> code c < 127 \<and> \<not> special_char c"

definition consumeToken :: "string \<Rightarrow> string \<times> string" where
  "consumeToken v = (takeWhile token_char v, dropWhile token_char v)"

text \<open>A quoted string after its opening quote; \<open>None\<close> is a missing end quote or a line break.\<close>

fun quoted :: "string \<Rightarrow> (string \<times> string) option" where
  "quoted [] = None"
| "quoted (c # cs) =
     (if c = CHR 0x22 then Some ([], cs)
      else if c = CHR 0x5C \<and> cs \<noteq> [] \<and> special_char (hd cs)
      then map_option (apfst ((#) (hd cs))) (quoted (tl cs))
      else if c = CHR 0x0D \<or> c = CHR 0x0A then None
      else map_option (apfst ((#) c)) (quoted cs))"

definition consumeValue :: "string \<Rightarrow> string \<times> string" where
  "consumeValue v =
     (if v = [] then ([], [])
      else if hd v \<noteq> CHR 0x22 then consumeToken v
      else case quoted (tl v) of None \<Rightarrow> ([], v) | Some r \<Rightarrow> r)"

abbreviation skip_space :: "string \<Rightarrow> string" where
  "skip_space \<equiv> trim_left space_runes"

text \<open>\<open>None\<close> is the empty parameter name of a parse error.\<close>

definition consumeMediaParam :: "string \<Rightarrow> (string \<times> string \<times> string) option" where
  "consumeMediaParam v =
     (let r0 = skip_space v
      in if r0 = [] \<or> hd r0 \<noteq> CHR '';'' then None
         else let (param, r1) = consumeToken (skip_space (tl r0)); r2 = skip_space r1
              in if param = [] \<or> r2 = [] \<or> hd r2 \<noteq> CHR ''='' then None
                 else let r3 = skip_space (tl r2); (v1, r4) = consumeValue r3
                      in if v1 = [] \<and> r4 = r3 then None else Some (ToLower param, v1, r4))"

lemma skip_space_length: "length (trim_left runes s) \<le> length s"
proof (induction runes s rule: trim_left.induct)
  case (1 runes s)
  then show ?case by (subst trim_left.simps) (auto intro: le_trans)
qed

lemma quoted_length: "quoted s = Some (a, b) \<Longrightarrow> length b < length s"
  by (induction s arbitrary: a b rule: quoted.induct) (fastforce split: if_splits)+

lemma consumeToken_length: "consumeToken v = (a, b) \<Longrightarrow> length b \<le> length v"
  by (auto simp: consumeToken_def length_dropWhile_le)

lemma consumeValue_length: "consumeValue v = (a, b) \<Longrightarrow> length b \<le> length v"
  by (cases v) (auto simp: consumeValue_def dest: quoted_length consumeToken_length split: if_splits option.splits)

lemma consumeMediaParam_length: "consumeMediaParam v = Some (k, a, rest) \<Longrightarrow> length rest < length v"
proof -
  assume run: "consumeMediaParam v = Some (k, a, rest)"
  define r0 where "r0 = skip_space v"
  have r0: "r0 \<noteq> []" "length r0 \<le> length v" using run skip_space_length by (auto simp: consumeMediaParam_def r0_def Let_def split: if_splits)
  obtain param r1 where r1: "consumeToken (skip_space (tl r0)) = (param, r1)" by fastforce
  have "length r1 < length r0"
    using consumeToken_length [OF r1] skip_space_length [of space_runes "tl r0"] r0(1) by (cases r0) auto
  define r3 where "r3 = skip_space (tl (skip_space r1))"
  have "length r3 \<le> length r1"
    using skip_space_length [of space_runes "tl (skip_space r1)"] skip_space_length [of space_runes r1] by (simp add: r3_def)
  moreover obtain v1 r4 where r4: "consumeValue r3 = (v1, r4)" by fastforce
  have "rest = r4"
    using run r1 r4 by (auto simp: consumeMediaParam_def Let_def r0_def [symmetric] r3_def [symmetric] split: if_splits)
  ultimately show ?thesis using consumeValue_length [OF r4] \<open>length r1 < length r0\<close> r0(2) by simp
qed

text \<open>The parameters with their full names; \<open>None\<close> is an error.\<close>

function parse_params :: "string \<Rightarrow> (string \<times> string) list \<Rightarrow> (string \<times> string) list option" where
  "parse_params v found =
     (let v1 = skip_space v
      in if v1 = [] then Some found
         else case consumeMediaParam v1 of
                None \<Rightarrow> if TrimSpace v1 = '';'' then Some found else None
              | Some (key, a, rest) \<Rightarrow>
                  if map_of found key \<noteq> None \<and> map_of found key \<noteq> Some a then None
                  else parse_params rest ((key, a) # found))"
  by pat_completeness auto
termination
proof (relation "measure (\<lambda>(v, found). length v)")
  fix v found v1 x key y a rest
  assume "v1 = skip_space v" "consumeMediaParam v1 = Some x" "(key, y) = x" "(a, rest) = y"
  then have "consumeMediaParam (skip_space v) = Some (key, a, rest)" by simp
  then have "length rest < length v"
    using consumeMediaParam_length [of "skip_space v" key a rest] skip_space_length [of space_runes v] by linarith
  then show "((rest, (key, a) # found), (v, found)) \<in> measure (\<lambda>(v, found). length v)" by simp
qed simp

declare parse_params.simps [simp del]

text \<open>A continued or encoded parameter may decode to nothing.\<close>

fun percent_ok :: "string \<Rightarrow> bool" where
  "percent_ok [] = True"
| "percent_ok (c # cs) =
     (let hex = (\<lambda>c. is_digit c \<or> c \<in> set ''abcdefABCDEF'')
      in if c \<noteq> CHR ''%'' then percent_ok cs
         else case cs of a # b # rest \<Rightarrow> hex a \<and> hex b \<and> percent_ok rest | _ \<Rightarrow> False)"

definition decode2231_ok :: "string \<Rightarrow> bool" where
  "decode2231_ok v =
     (let quote = CHR 0x27; r1 = dropWhile (\<lambda>c. c \<noteq> quote) v; r2 = dropWhile (\<lambda>c. c \<noteq> quote) (tl r1)
      in r1 \<noteq> [] \<and> r2 \<noteq> [] \<and> ToLower (takeWhile (\<lambda>c. c \<noteq> quote) v) \<in> {''us-ascii'', ''utf-8''} \<and> percent_ok (tl r2))"

definition gives_param :: "(string \<times> string) list \<Rightarrow> string \<Rightarrow> bool" where
  "gives_param found key =
     (if CHR ''*'' \<notin> set key then True
      else let base = takeWhile (\<lambda>c. c \<noteq> CHR ''*'') key
           in case map_of found (base @ ''*'') of
                Some v \<Rightarrow> decode2231_ok v
              | None \<Rightarrow> map_of found (base @ ''*0'') \<noteq> None \<or> map_of found (base @ ''*0*'') \<noteq> None)"

definition media_type_ok :: "string \<Rightarrow> bool" where
  "media_type_ok s =
     (let (typ, rest) = consumeToken s
      in typ \<noteq> [] \<and>
         (rest = [] \<or> (hd rest = CHR ''/'' \<and> (let (subtype, rest1) = consumeToken (tl rest) in subtype \<noteq> [] \<and> rest1 = []))))"

definition ParseMediaType :: "string \<Rightarrow> (string \<times> bool) option" where
  "ParseMediaType v =
     (let base = takeWhile (\<lambda>c. c \<noteq> CHR '';'') v; mediatype = TrimSpace (ToLower base)
      in if \<not> media_type_ok mediatype then None
         else case parse_params (drop (length base) v) [] of
                None \<Rightarrow> None
              | Some found \<Rightarrow> Some (mediatype, list_ex (\<lambda>(key, a). gives_param found key) found))"

end
