(* ===== verification/Go_Json.thy ===== *)
theory Go_Json
  imports Go_Mime
begin

text \<open>
  What the request decoder uses of Go's \<^verbatim>\<open>unicode/utf8\<close> and \<^verbatim>\<open>encoding/json\<close>: \<^verbatim>\<open>utf8.Valid\<close>, and the
  \<^verbatim>\<open>Token\<close> and \<^verbatim>\<open>More\<close> of a \<^verbatim>\<open>Decoder\<close> over the bytes of one object. A decoder is its token state
  and the bytes it has left. A value that is neither a string nor the begin of an object (a number,
  a literal, an array, or the error that reading one gives) is the one token \<open>OtherValue\<close>, because no
  caller goes on after it; so an object is never nested and the stack of states is not needed. The
  bytes were checked to be UTF-8, so a string keeps every byte outside ASCII as it is.
\<close>

section \<open>UTF-8\<close>

definition byte_in :: "nat \<Rightarrow> nat \<Rightarrow> nat \<Rightarrow> string \<Rightarrow> bool" where
  "byte_in lo hi n s \<longleftrightarrow> n < length s \<and> lo \<le> code (s ! n) \<and> code (s ! n) \<le> hi"

text \<open>The length of the rune a string begins with; 0 for an invalid one.\<close>

definition rune_length :: "string \<Rightarrow> nat" where
  "rune_length s =
     (if byte_in 0 127 0 s then 1
      else if byte_in 194 223 0 s \<and> byte_in 128 191 1 s then 2
      else if ((byte_in 224 224 0 s \<and> byte_in 160 191 1 s) \<or> (byte_in 225 236 0 s \<and> byte_in 128 191 1 s) \<or>
               (byte_in 237 237 0 s \<and> byte_in 128 159 1 s) \<or> (byte_in 238 239 0 s \<and> byte_in 128 191 1 s)) \<and>
              byte_in 128 191 2 s then 3
      else if ((byte_in 240 240 0 s \<and> byte_in 144 191 1 s) \<or> (byte_in 241 243 0 s \<and> byte_in 128 191 1 s) \<or>
               (byte_in 244 244 0 s \<and> byte_in 128 143 1 s)) \<and>
              byte_in 128 191 2 s \<and> byte_in 128 191 3 s then 4
      else 0)"

lemma rune_length_pos: "rune_length s \<noteq> 0 \<Longrightarrow> 0 < length s"
  by (auto simp: rune_length_def byte_in_def split: if_splits)

function utf8_valid :: "string \<Rightarrow> bool" where
  "utf8_valid s =
     (if s = [] then True else if rune_length s = 0 then False else utf8_valid (drop (rune_length s) s))"
  by pat_completeness auto
termination
  by (relation "measure length") (auto dest: rune_length_pos)

declare utf8_valid.simps [simp del]

definition encode_rune :: "nat \<Rightarrow> string" where
  "encode_rune r =
     (if r < 128 then [char_of r]
      else if r < 2048 then [char_of (192 + r div 64), char_of (128 + r mod 64)]
      else if r < 65536
      then [char_of (224 + r div 4096), char_of (128 + r div 64 mod 64), char_of (128 + r mod 64)]
      else [char_of (240 + r div 262144), char_of (128 + r div 4096 mod 64), char_of (128 + r div 64 mod 64),
            char_of (128 + r mod 64)])"

section \<open>Strings\<close>

definition hex_value :: "char \<Rightarrow> nat option" where
  "hex_value c =
     (if 48 \<le> code c \<and> code c \<le> 57 then Some (code c - 48)
      else if 65 \<le> code c \<and> code c \<le> 70 then Some (code c - 55)
      else if 97 \<le> code c \<and> code c \<le> 102 then Some (code c - 87) else None)"

text \<open>A \<^verbatim>\<open>\uXXXX\<close> at the beginning of a string.\<close>

fun getu4 :: "string \<Rightarrow> nat option" where
  "getu4 (b # u # c1 # c2 # c3 # c4 # _) =
     (if b \<noteq> CHR 0x5C \<or> u \<noteq> CHR ''u'' then None
      else case (hex_value c1, hex_value c2, hex_value c3, hex_value c4) of
             (Some d1, Some d2, Some d3, Some d4) \<Rightarrow> Some (((d1 * 16 + d2) * 16 + d3) * 16 + d4)
           | _ \<Rightarrow> None)"
| "getu4 _ = None"

definition is_surrogate :: "nat \<Rightarrow> bool" where
  "is_surrogate r \<longleftrightarrow> 55296 \<le> r \<and> r < 57344"

definition simple_escape :: "char \<Rightarrow> char option" where
  "simple_escape c = map_of
     [(CHR 0x22, CHR 0x22), (CHR 0x5C, CHR 0x5C), (CHR ''/'', CHR ''/''), (CHR ''b'', CHR 0x08),
      (CHR ''f'', CHR 0x0C), (CHR ''n'', CHR 0x0A), (CHR ''r'', CHR 0x0D), (CHR ''t'', CHR 0x09)] c"

text \<open>An escape: what it stands for, and its length.\<close>

definition read_escape :: "string \<Rightarrow> (string \<times> nat) option" where
  "read_escape s =
     (case getu4 s of
        Some r \<Rightarrow>
          if \<not> is_surrogate r then Some (encode_rune r, 6)
          else (case getu4 (drop 6 s) of
                  Some r1 \<Rightarrow>
                    if r < 56320 \<and> 56320 \<le> r1 \<and> r1 < 57344
                    then Some (encode_rune ((r - 55296) * 1024 + (r1 - 56320) + 65536), 12)
                    else Some (encode_rune 65533, 6)
                | None \<Rightarrow> Some (encode_rune 65533, 6))
      | None \<Rightarrow>
          (case s of
             _ # e # _ \<Rightarrow> map_option (\<lambda>c. ([c], 2)) (simple_escape e)
           | _ \<Rightarrow> None))"

lemma read_escape_length: "read_escape s = Some (out, n) \<Longrightarrow> 2 \<le> n"
  by (auto simp: read_escape_def split: option.splits if_splits list.splits)

text \<open>The string after its opening quote, and the bytes after the closing one.\<close>

function read_string :: "string \<Rightarrow> (string \<times> string) option" where
  "read_string s =
     (case s of
        [] \<Rightarrow> None
      | c # cs \<Rightarrow>
          if c = CHR 0x22 then Some ([], cs)
          else if code c < 32 then None
          else if c = CHR 0x5C
          then (case read_escape s of
                  None \<Rightarrow> None
                | Some (out, n) \<Rightarrow> map_option (apfst ((@) out)) (read_string (drop n s)))
          else map_option (apfst ((#) c)) (read_string cs))"
  by pat_completeness auto
termination
  by (relation "measure length") (auto dest!: read_escape_length)

declare read_string.simps [simp del]

lemma read_string_length: "read_string s = Some (v, rest) \<Longrightarrow> length rest < length s"
proof (induction s arbitrary: v rest rule: read_string.induct)
  case (1 s)
  show ?case
  proof (cases s)
    case Nil
    then show ?thesis using "1.prems" by (simp add: read_string.simps)
  next
    case (Cons c cs)
    note run = "1.prems" [unfolded read_string.simps [of s], unfolded Cons, simplified]
    show ?thesis
    proof (cases "c = CHR 0x22 \<or> code c < 32")
      case True
      then show ?thesis using run Cons by (auto split: if_splits)
    next
      case False
      then have c: "c \<noteq> CHR 0x22" "\<not> code c < 32" by auto
      show ?thesis
      proof (cases "c = CHR 0x5C")
        case True
        then obtain out n v1 where e: "read_escape s = Some (out, n)" "read_string (drop n s) = Some (v1, rest)"
          using run c Cons by (auto split: option.splits)
        have "length rest < length (drop n s)"
          using "1.IH"(1) [OF Cons c True e(1) refl e(2)] .
        then show ?thesis by simp
      next
        case False
        then obtain v1 where "read_string cs = Some (v1, rest)" using run c by auto
        then have "length rest < length cs" using "1.IH"(2) [OF Cons c False] by blast
        then show ?thesis using Cons by simp
      qed
    qed
  qed
qed

section \<open>Tokens\<close>

datatype token_state = TopValue | ObjectStart | ObjectKey | ObjectColon | ObjectValue | ObjectComma

datatype token_result = EndOfInput | TokenError | OpenObject token_state string | CloseObject token_state string
  | TextToken string token_state string | OtherValue

definition json_space :: "char \<Rightarrow> bool" where
  "json_space c \<longleftrightarrow> c = CHR '' '' \<or> c = CHR 0x09 \<or> c = CHR 0x0D \<or> c = CHR 0x0A"

definition peek :: "string \<Rightarrow> string" where
  "peek s = dropWhile json_space s"

definition More :: "string \<Rightarrow> bool" where
  "More s \<longleftrightarrow> peek s \<noteq> [] \<and> hd (peek s) \<noteq> CHR '']'' \<and> hd (peek s) \<noteq> CHR ''}''"

definition value_allowed :: "token_state \<Rightarrow> bool" where
  "value_allowed st \<longleftrightarrow> st = TopValue \<or> st = ObjectValue"

definition value_end :: "token_state \<Rightarrow> token_state" where
  "value_end st = (if st = ObjectValue then ObjectComma else st)"

function Token :: "token_state \<Rightarrow> string \<Rightarrow> token_result" where
  "Token st s =
     (case peek s of
        [] \<Rightarrow> EndOfInput
      | c # rest \<Rightarrow>
          if c = CHR '']'' then TokenError
          else if c = CHR ''{'' then (if value_allowed st then OpenObject ObjectStart rest else TokenError)
          else if c = CHR ''}'' then (if st = ObjectStart \<or> st = ObjectComma then CloseObject TopValue rest else TokenError)
          else if c = CHR '':'' then (if st = ObjectColon then Token ObjectValue rest else TokenError)
          else if c = CHR '','' then (if st = ObjectComma then Token ObjectKey rest else TokenError)
          else if c = CHR 0x22 \<and> (st = ObjectStart \<or> st = ObjectKey)
          then (case read_string rest of None \<Rightarrow> TokenError | Some (x, rest1) \<Rightarrow> TextToken x ObjectColon rest1)
          else if \<not> value_allowed st then TokenError
          else if c = CHR 0x22
          then (case read_string rest of None \<Rightarrow> TokenError | Some (x, rest1) \<Rightarrow> TextToken x (value_end st) rest1)
          else OtherValue)"
  by pat_completeness auto
termination
proof (relation "measure (\<lambda>(st, s). length s)")
  have less: "length rest < length s" if "peek s = c # rest" for s c rest
    using that length_dropWhile_le [of json_space s] by (simp add: peek_def)
  fix st s c rest
  assume "peek s = c # rest"
  then show "((ObjectValue, rest), (st, s)) \<in> measure (\<lambda>(st, s). length s)"
    "((ObjectKey, rest), (st, s)) \<in> measure (\<lambda>(st, s). length s)" using less by simp_all
qed simp

declare Token.simps [simp del]

lemma peek_length: "peek s = c # rest \<Longrightarrow> length rest < length s"
  using length_dropWhile_le [of json_space s] by (simp add: peek_def)

lemma TextToken_length: "Token st s = TextToken x st1 rest \<Longrightarrow> length rest < length s"
proof (induction st s rule: Token.induct)
  case (1 st s)
  show ?case
  proof (cases "peek s")
    case Nil
    then show ?thesis using "1.prems" by (simp add: Token.simps)
  next
    case (Cons c s1)
    note run = "1.prems" [unfolded Token.simps [of st s], unfolded Cons, simplified]
    have less: "length s1 < length s" using peek_length [OF Cons] .
    show ?thesis
    proof (cases "(c = CHR '':'' \<and> st = ObjectColon) \<or> (c = CHR '','' \<and> st = ObjectComma)")
      case True
      then have "length rest < length s1"
        using run "1.IH"(1) [OF Cons] "1.IH"(2) [OF Cons] by auto
      then show ?thesis using less by simp
    next
      case False
      then obtain y where "read_string s1 = Some (y, rest)"
        using run by (auto split: if_splits option.splits)
      then show ?thesis using read_string_length less by fastforce
    qed
  qed
qed

end
