(* ===== verification/Decoder.thy ===== *)
theory Decoder
  imports Contracts Go_Json
begin

text \<open>
  \<^verbatim>\<open>internal/updater/decoder.go\<close>: from the bytes of a request to the accesses it reports, over the JSON
  decoder of theory \<open>Go_Json\<close> and the media types of \<open>Go_Mime\<close>. An error is the sentinel that
  \<^verbatim>\<open>errors.Is\<close> finds in it; its text is not modelled. The body is what the successive reads return.
\<close>

datatype decode_error = ErrUnsupportedMediaType | ErrBodyTooLarge | ErrTooManyRecords | ErrInvalidBody

record decode_limits =
  MaxBodyBytes :: int
  MaxRecords :: int

definition validateContentType :: "string \<Rightarrow> decode_error + string" where
  "validateContentType contentType =
     (case ParseMediaType contentType of
        None \<Rightarrow> Inl ErrUnsupportedMediaType
      | Some (mediaType, params) \<Rightarrow>
          if params \<or> (mediaType \<noteq> ''application/json'' \<and> mediaType \<noteq> ''application/x-ndjson'')
          then Inl ErrUnsupportedMediaType else Inr mediaType)"

section \<open>One object\<close>

function fields_loop ::
    "token_state \<Rightarrow> string \<Rightarrow> string set \<Rightarrow> access \<Rightarrow> decode_error + access \<times> token_state \<times> string" where
  "fields_loop st s seen rec =
     (if \<not> More s then Inr (rec, st, s)
      else case Token st s of
             TextToken field st1 s1 \<Rightarrow>
               if field \<in> seen then Inl ErrInvalidBody
               else if field \<noteq> ''bucket'' \<and> field \<noteq> ''object'' then Inl ErrInvalidBody
               else (case Token st1 s1 of
                       TextToken v st2 s2 \<Rightarrow>
                         if v = [] then Inl ErrInvalidBody
                         else fields_loop st2 s2 (insert field seen)
                                (if field = ''bucket'' then rec\<lparr>BucketName := v\<rparr> else rec\<lparr>ObjectName := v\<rparr>)
                     | _ \<Rightarrow> Inl ErrInvalidBody)
           | _ \<Rightarrow> Inl ErrInvalidBody)"
  by pat_completeness auto
termination
  by (relation "measure (\<lambda>(st, s, seen, rec). length s)") (auto dest!: TextToken_length)

declare fields_loop.simps [simp del]

definition decodeObject :: "string \<Rightarrow> decode_error + access" where
  "decodeObject data =
     (case Token TopValue data of
        OpenObject st s \<Rightarrow>
          bind_res (fields_loop st s {} \<lparr>BucketName = [], ObjectName = []\<rparr>) (\<lambda>(rec, st1, s1).
            case Token st1 s1 of
              CloseObject st2 s2 \<Rightarrow>
                if BucketName rec = [] \<or> ObjectName rec = [] then Inl ErrInvalidBody
                else if Token st2 s2 \<noteq> EndOfInput then Inl ErrInvalidBody
                else Inr rec
            | _ \<Rightarrow> Inl ErrInvalidBody)
      | _ \<Rightarrow> Inl ErrInvalidBody)"

section \<open>Requests\<close>

definition TrimSuffix :: "string \<Rightarrow> char \<Rightarrow> string" where
  "TrimSuffix s c = (if s \<noteq> [] \<and> last s = c then butlast s else s)"

definition decode_line :: "string \<Rightarrow> decode_error + access" where
  "decode_line line =
     (let line1 = TrimSuffix line CHR 0x0D
      in if TrimSpace line1 = [] then Inl ErrInvalidBody else decodeObject line1)"

definition decodeNDJSON :: "string \<Rightarrow> int \<Rightarrow> decode_error + access list" where
  "decodeNDJSON data maxRecords =
     (let lines0 = split_on CHR 0x0A data;
          lines1 = (if lines0 \<noteq> [] \<and> last lines0 = [] then butlast lines0 else lines0)
      in if lines1 = [] then Inl ErrInvalidBody
         else if int (length lines1) > maxRecords then Inl ErrTooManyRecords
         else traverse decode_line lines1)"

text \<open>
  \<^verbatim>\<open>io.ReadAll(io.LimitReader(body, n))\<close>: each read gives bytes and says whether it failed; the reads
  end with the end of the body. The result is the data, and whether a read failed before the limit.
\<close>

fun read_limited :: "nat \<Rightarrow> (string \<times> bool) list \<Rightarrow> string \<times> bool" where
  "read_limited n [] = ([], False)"
| "read_limited n ((data, failed) # reads) =
     (if n = 0 then ([], False)
      else if n < length data then (take n data, False)
      else if failed then (data, True)
      else apfst ((@) data) (read_limited (n - length data) reads))"

definition DecodeRequest :: "(string \<times> bool) list \<Rightarrow> string \<Rightarrow> decode_limits \<Rightarrow> decode_error + access list" where
  "DecodeRequest body contentType limits =
     (if MaxBodyBytes limits \<le> 0 \<or> MaxRecords limits \<le> 0 then Inl ErrInvalidBody
      else case validateContentType contentType of
             Inl err \<Rightarrow> Inl err
           | Inr mediaType \<Rightarrow>
               (case read_limited (nat (wrap64 (MaxBodyBytes limits + 1))) body of
                  (data, failed) \<Rightarrow>
                    if failed then Inl ErrInvalidBody
                    else if int (length data) > MaxBodyBytes limits then Inl ErrBodyTooLarge
                    else if data = [] \<or> \<not> utf8_valid data then Inl ErrInvalidBody
                    else if mediaType = ''application/json''
                    then (case decodeObject data of Inl err \<Rightarrow> Inl err | Inr rec \<Rightarrow> Inr [rec])
                    else decodeNDJSON data (MaxRecords limits)))"

definition RejectionReason :: "decode_error \<Rightarrow> string" where
  "RejectionReason err =
     (if err = ErrUnsupportedMediaType then ''unsupported_media_type''
      else if err = ErrBodyTooLarge then ''body_too_large''
      else if err = ErrTooManyRecords then ''too_many_records''
      else ''invalid_body'')"

section \<open>What a decoded request is\<close>

lemma decodeObject_named:
  assumes "decodeObject data = Inr rec"
  shows "BucketName rec \<noteq> [] \<and> ObjectName rec \<noteq> []"
proof -
  obtain st s where "Token TopValue data = OpenObject st s"
    using assms by (cases "Token TopValue data") (auto simp: decodeObject_def)
  then obtain rec1 st1 s1 where "(case Token st1 s1 of
      CloseObject st2 s2 \<Rightarrow>
        if BucketName rec1 = [] \<or> ObjectName rec1 = [] then Inl ErrInvalidBody
        else if Token st2 s2 \<noteq> EndOfInput then Inl ErrInvalidBody else Inr rec1
    | _ \<Rightarrow> Inl ErrInvalidBody) = Inr rec"
    using assms by (auto simp: decodeObject_def bind_res_Inr_iff)
  then show ?thesis by (cases "Token st1 s1") (auto split: if_splits)
qed

lemma traverse_named: "traverse decode_line lines = Inr recs \<Longrightarrow> rec \<in> set recs \<Longrightarrow> BucketName rec \<noteq> [] \<and> ObjectName rec \<noteq> []"
  by (drule (1) traverse_set) (auto simp: decode_line_def Let_def split: if_splits dest: decodeObject_named)

lemma decodeNDJSON_Inr:
  assumes "decodeNDJSON data n = Inr recs"
  shows "recs \<noteq> [] \<and> int (length recs) \<le> n \<and> (\<forall>rec\<in>set recs. BucketName rec \<noteq> [] \<and> ObjectName rec \<noteq> [])"
proof -
  obtain lines where "lines \<noteq> []" "int (length lines) \<le> n" "traverse decode_line lines = Inr recs"
    using assms by (auto simp: decodeNDJSON_def Let_def simp del: split_on_not_Nil split: if_splits)
  then show ?thesis using traverse_length [of decode_line lines recs] traverse_named [of lines recs] by auto
qed

lemma DecodeRequest_Inr:
  assumes "DecodeRequest body contentType limits = Inr recs"
  shows "recs \<noteq> []" "int (length recs) \<le> MaxRecords limits"
    and "\<forall>rec\<in>set recs. BucketName rec \<noteq> [] \<and> ObjectName rec \<noteq> []"
  using assms
  by (auto simp: DecodeRequest_def dest: decodeObject_named decodeNDJSON_Inr split: sum.split_asm prod.split_asm if_split_asm)

end
