(* ===== verification/Batcher.thy ===== *)
theory Batcher
  imports Counter_Store "HOL-Library.AList"
begin

text \<open>
  \<^verbatim>\<open>internal/updater/batcher.go\<close>: the queue between the HTTP handlers and the counter store. The
  first half holds the request checks and the pending batch; the second half the goroutine
  \<^verbatim>\<open>run\<close> with its \<^verbatim>\<open>drain\<close> and \<^verbatim>\<open>abort\<close>, and \<open>Start\<close>, \<open>Submit\<close> and \<open>Stop\<close> as they interleave with it,
  as a step relation on the batcher's state.

  A Go map is an association list here, with distinct keys; \<open>flush\<close> ranges over it in an
  unspecified order and then sorts by key, so the order is lost. The queue channel is a list
  of at most \<open>QueueSize\<close> jobs, a job's result channel is the list \<open>results\<close> of what was sent to it.
\<close>

record batcher_config =
  QueueSize :: int
  MaxEvents :: int
  MaxKeys :: int

record batch_request =
  Events :: int
  Increments :: "increment list"

datatype batch_error =
    NotRunning
  | QueueFull
  | RequestTooLarge
  | InvalidRequest
  | BatcherStopped
  | StoreFailure apply_error

record batch_job =
  job_id :: nat
  request :: batch_request

record pending_batch =
  jobs :: "batch_job list"
  events :: int
  increments :: "(string \<times> increment) list"

section \<open>The request checks\<close>

text \<open>The loop over the increments; \<open>tot\<close> is the code's \<^verbatim>\<open>var total int64\<close>.\<close>

fun validate_loop :: "increment list \<Rightarrow> string set \<Rightarrow> int \<Rightarrow> batch_error + int" where
  "validate_loop [] seen tot = Inr tot"
| "validate_loop (inc # incs) seen tot =
     (if Key inc = [] \<or> Delta inc \<le> 0 \<or> is_zero (ExpireAt inc) then Inl InvalidRequest
      else if Key inc \<in> seen then Inl InvalidRequest
      else validate_loop incs (insert (Key inc) seen) (wrap64 (tot + Delta inc)))"

definition validateRequest :: "batcher_config \<Rightarrow> batch_request \<Rightarrow> batch_error + unit" where
  "validateRequest config req =
     (if Events req \<le> 0 \<or> Increments req = [] then Inl InvalidRequest
      else if Events req > MaxEvents config \<or> int (length (Increments req)) > MaxKeys config
      then Inl RequestTooLarge
      else case validate_loop (Increments req) {} 0 of
             Inl err \<Rightarrow> Inl err
           | Inr tot \<Rightarrow> if tot \<noteq> Events req then Inl InvalidRequest else Inr ())"

section \<open>The pending batch\<close>

definition add_increment :: "(string \<times> increment) list \<Rightarrow> increment \<Rightarrow> (string \<times> increment) list" where
  "add_increment m inc =
     (case map_of m (Key inc) of
        None \<Rightarrow> AList.update (Key inc) inc m
      | Some current \<Rightarrow>
          let current1 = current\<lparr>Delta := wrap64 (Delta current + Delta inc)\<rparr>;
              current2 = (if after (ExpireAt inc) (ExpireAt current1)
                          then current1\<lparr>ExpireAt := ExpireAt inc\<rparr> else current1)
          in AList.update (Key inc) current2 m)"

definition add :: "pending_batch \<Rightarrow> batch_job \<Rightarrow> pending_batch" where
  "add b job =
     \<lparr>jobs = jobs b @ [job],
      events = wrap64 (events b + Events (request job)),
      increments = foldl add_increment (increments b) (Increments (request job))\<rparr>"

definition empty_batch :: pending_batch where
  "empty_batch = \<lparr>jobs = [], events = 0, increments = []\<rparr>"

definition newPendingBatch :: "batch_job \<Rightarrow> pending_batch" where
  "newPendingBatch job = add empty_batch job"

fun count_unique :: "(string \<times> increment) list \<Rightarrow> increment list \<Rightarrow> int \<Rightarrow> int" where
  "count_unique m [] unique = unique"
| "count_unique m (inc # incs) unique =
     count_unique m incs (if map_of m (Key inc) = None then unique + 1 else unique)"

definition canAdd :: "pending_batch \<Rightarrow> batch_job \<Rightarrow> batcher_config \<Rightarrow> bool" where
  "canAdd b job config =
     (if wrap64 (events b + Events (request job)) > MaxEvents config then False
      else count_unique (increments b) (Increments (request job)) (int (length (increments b)))
             \<le> MaxKeys config)"

definition full :: "pending_batch \<Rightarrow> batcher_config \<Rightarrow> bool" where
  "full b config \<longleftrightarrow> events b = MaxEvents config \<or> int (length (increments b)) = MaxKeys config"

text \<open>What \<open>flush\<close> hands to the store: the values of the map, sorted by key.\<close>

definition batch_increments :: "pending_batch \<Rightarrow> increment list" where
  "batch_increments b = sort_key Key (map snd (increments b))"

section \<open>Lemmas on requests\<close>

text \<open>A request whose deltas add up without overflow.\<close>

definition exact_request :: "batch_request \<Rightarrow> bool" where
  "exact_request req \<longleftrightarrow> (\<Sum>i\<leftarrow>Increments req. Delta i) \<le> max_int64"

lemma validate_loop_Inr:
  "validate_loop incs seen tot = Inr t \<Longrightarrow>
     distinct (map Key incs) \<and> (\<forall>i\<in>set incs. Key i \<notin> seen \<and> Key i \<noteq> [] \<and> 0 < Delta i \<and> \<not> is_zero (ExpireAt i)) \<and>
     (0 \<le> tot \<longrightarrow> tot + (\<Sum>i\<leftarrow>incs. Delta i) \<le> max_int64 \<longrightarrow> t = tot + (\<Sum>i\<leftarrow>incs. Delta i))"
proof (induction incs arbitrary: seen tot)
  case (Cons inc incs)
  then have ok: "Key inc \<noteq> []" "0 < Delta inc" "\<not> is_zero (ExpireAt inc)" "Key inc \<notin> seen"
    and rest: "validate_loop incs (insert (Key inc) seen) (wrap64 (tot + Delta inc)) = Inr t"
    by (auto split: if_splits)
  note IH = Cons.IH [OF rest]
  have pos: "0 \<le> (\<Sum>i\<leftarrow>incs. Delta i)"
    using IH by (intro sum_list_map_nonneg) (auto intro: less_imp_le)
  have "0 \<le> tot \<Longrightarrow> tot + (Delta inc + (\<Sum>i\<leftarrow>incs. Delta i)) \<le> max_int64 \<Longrightarrow> wrap64 (tot + Delta inc) = tot + Delta inc"
    using pos ok(2) by (intro wrap64_id) (simp add: int64_def min_int64_def)
  with IH ok show ?case by (auto simp: image_iff add.assoc)
qed simp

lemma validateRequest_Inr:
  assumes "validateRequest config req = Inr u"
  shows "0 < Events req" and "Events req \<le> MaxEvents config"
    and "Increments req \<noteq> []" and "int (length (Increments req)) \<le> MaxKeys config"
    and "distinct (map Key (Increments req))"
    and "\<forall>i\<in>set (Increments req). Key i \<noteq> [] \<and> 0 < Delta i \<and> \<not> is_zero (ExpireAt i)"
    and "exact_request req \<Longrightarrow> (\<Sum>i\<leftarrow>Increments req. Delta i) = Events req"
  using assms validate_loop_Inr [of "Increments req" "{}" 0]
  by (auto simp: validateRequest_def exact_request_def split: if_splits sum.splits)

section \<open>Lemmas on the pending batch\<close>

lemma add_increment_map:
  "map_of (add_increment m inc) = (map_of m)(Key inc \<mapsto>
     (case map_of m (Key inc) of None \<Rightarrow> inc
      | Some cur \<Rightarrow> cur\<lparr>Delta := wrap64 (Delta cur + Delta inc), ExpireAt := max (ExpireAt cur) (ExpireAt inc)\<rparr>))"
  by (auto simp: add_increment_def update_conv' after_def Let_def max_def split: option.splits)

lemma add_increment_keys:
  "distinct (map fst m) \<Longrightarrow> distinct (map fst (add_increment m inc))"
  "fst ` set (add_increment m inc) = insert (Key inc) (fst ` set m)"
  by (auto simp: add_increment_def Let_def dom_update distinct_update split: option.splits)

definition keyed :: "(string \<times> increment) list \<Rightarrow> bool" where
  "keyed m \<longleftrightarrow> distinct (map fst m) \<and> (\<forall>(k, i)\<in>set m. Key i = k)"

lemma keyed_map_of: "keyed m \<Longrightarrow> map_of m k = Some i \<Longrightarrow> Key i = k"
  by (auto simp: keyed_def dest: map_of_SomeD)

lemma keyed_add_increment: "keyed m \<Longrightarrow> keyed (add_increment m inc)"
proof -
  assume m: "keyed m"
  have "distinct (map fst (add_increment m inc))"
    using m add_increment_keys(1) by (simp add: keyed_def)
  moreover have "Key i = k" if "(k, i) \<in> set (add_increment m inc)" for k i
  proof -
    have "map_of (add_increment m inc) k = Some i"
      using that calculation by simp
    then show ?thesis
      using keyed_map_of [OF m] by (auto simp: add_increment_map split: if_splits option.splits)
  qed
  ultimately show ?thesis by (auto simp: keyed_def)
qed

lemma keyed_fold: "keyed m \<Longrightarrow> keyed (foldl add_increment m incs)"
  by (induction incs arbitrary: m) (auto simp: keyed_add_increment)

lemma keyed_keys: "keyed m \<Longrightarrow> map Key (map snd m) = map fst m"
  by (auto simp: keyed_def)

lemma fold_keys: "fst ` set (foldl add_increment m incs) = fst ` set m \<union> Key ` set incs"
  by (induction incs arbitrary: m) (auto simp: add_increment_keys(2))

lemma length_keyed: "keyed m \<Longrightarrow> length m = card (fst ` set m)"
  by (metis distinct_card keyed_def length_map list.set_map)

text \<open>\<open>canAdd\<close> counts the keys the batch would have.\<close>

lemma count_unique_card:
  assumes "distinct (map Key incs)"
  shows "count_unique m incs u = u + int (card (Key ` set incs - fst ` set m))"
  using assms
proof (induction incs arbitrary: u)
  case (Cons inc incs)
  then have notin: "Key inc \<notin> Key ` set incs" by auto
  have dom: "map_of m (Key inc) = None \<longleftrightarrow> Key inc \<notin> fst ` set m"
    by (simp add: map_of_eq_None_iff)
  have "Key ` set (inc # incs) - fst ` set m =
      (if Key inc \<in> fst ` set m then Key ` set incs - fst ` set m
       else insert (Key inc) (Key ` set incs - fst ` set m))" by auto
  with Cons notin dom show ?case by simp
qed simp

lemma count_unique_fold:
  assumes "keyed m" and "distinct (map Key incs)"
  shows "count_unique m incs (int (length m)) = int (length (foldl add_increment m incs))"
proof -
  have "card (fst ` set m \<union> Key ` set incs) = card (fst ` set m) + card (Key ` set incs - fst ` set m)"
    by (simp add: card_Un_disjoint Un_Diff_cancel flip: card_Un_disjoint)
  then show ?thesis
    using assms count_unique_card length_keyed keyed_fold fold_keys by (metis of_nat_add)
qed

text \<open>What a batch holds for a key, and how the loop of \<open>add\<close> changes it.\<close>

definition key_delta :: "(string \<times> increment) list \<Rightarrow> string \<Rightarrow> int" where
  "key_delta m k = (case map_of m k of None \<Rightarrow> 0 | Some i \<Rightarrow> Delta i)"

lemma add_increment_delta:
  assumes "0 \<le> key_delta m (Key inc)" and "0 \<le> Delta inc" and "key_delta m (Key inc) + Delta inc \<le> max_int64"
  shows "key_delta (add_increment m inc) k = key_delta m k + (if Key inc = k then Delta inc else 0)"
  using assms
  by (auto simp: key_delta_def add_increment_map int64_def min_int64_def wrap64_id split: option.splits)

lemma fold_delta:
  assumes "\<forall>i\<in>set incs. 0 < Delta i"
    and "\<And>k. 0 \<le> key_delta m k \<and> key_delta m k + (\<Sum>i\<leftarrow>incs. Delta i) \<le> max_int64"
  shows "key_delta (foldl add_increment m incs) k = key_delta m k + int (delta_of incs k)"
  using assms
proof (induction incs arbitrary: m)
  case (Cons inc incs)
  have d: "0 < Delta inc" and pos: "0 \<le> (\<Sum>i\<leftarrow>incs. Delta i)"
    using Cons.prems(1) by (simp, intro sum_list_map_nonneg) (auto simp: less_imp_le)
  have step: "key_delta (add_increment m inc) k' = key_delta m k' + (if Key inc = k' then Delta inc else 0)" for k'
    using Cons.prems(2) [of "Key inc"] pos d by (intro add_increment_delta) auto
  have "key_delta (foldl add_increment (add_increment m inc) incs) k
      = key_delta (add_increment m inc) k + int (delta_of incs k)"
  proof (rule Cons.IH)
    fix k'
    show "0 \<le> key_delta (add_increment m inc) k' \<and>
        key_delta (add_increment m inc) k' + (\<Sum>i\<leftarrow>incs. Delta i) \<le> max_int64"
      using Cons.prems(2) [of k'] d by (auto simp: step)
  qed (use Cons.prems in simp)
  with d show ?case by (simp add: step delta_of_Cons)
qed simp

text \<open>A batch is the fold of \<open>add\<close> over its jobs.\<close>

definition batch_of :: "batch_job list \<Rightarrow> pending_batch" where
  "batch_of js = foldl add empty_batch js"

definition job_increments :: "batch_job list \<Rightarrow> increment list" where
  "job_increments js = concat (map (\<lambda>j. Increments (request j)) js)"

lemma batch_of_single: "newPendingBatch job = batch_of [job]"
  by (simp add: newPendingBatch_def batch_of_def)

lemma batch_of_snoc: "add (batch_of js) job = batch_of (js @ [job])"
  by (simp add: batch_of_def)

lemma batch_of_jobs [simp]: "jobs (batch_of js) = js"
proof -
  have "jobs (foldl add b js) = jobs b @ js" for b
    by (induction js arbitrary: b) (auto simp: add_def)
  then show ?thesis by (simp add: batch_of_def empty_batch_def)
qed

lemma batch_of_increments: "increments (batch_of js) = foldl add_increment [] (job_increments js)"
proof -
  have "increments (foldl add b js) = foldl add_increment (increments b) (job_increments js)" for b
    by (induction js arbitrary: b) (auto simp: add_def job_increments_def)
  then show ?thesis by (simp add: batch_of_def empty_batch_def)
qed

lemma keyed_batch: "keyed (increments (batch_of js))"
  unfolding batch_of_increments by (rule keyed_fold) (simp add: keyed_def)

text \<open>The limits every batch keeps: what the validated requests and \<open>canAdd\<close> guarantee.\<close>

definition config_ok :: "batcher_config \<Rightarrow> bool" where
  "config_ok config \<longleftrightarrow> 0 < QueueSize config \<and> 0 < MaxEvents config \<and> MaxEvents config < 2 ^ 62 \<and> 0 < MaxKeys config"

definition within_limits :: "batcher_config \<Rightarrow> batch_job list \<Rightarrow> bool" where
  "within_limits config js \<longleftrightarrow> js \<noteq> [] \<and>
     (\<forall>j\<in>set js. validateRequest config (request j) = Inr ()) \<and>
     events (batch_of js) = (\<Sum>j\<leftarrow>js. Events (request j)) \<and>
     events (batch_of js) \<le> MaxEvents config \<and>
     int (length (increments (batch_of js))) \<le> MaxKeys config"

lemma events_single:
  assumes "config_ok config" and "validateRequest config (request job) = Inr ()"
  shows "events (batch_of [job]) = Events (request job)"
proof -
  have "int64 (Events (request job))"
    using assms validateRequest_Inr(1,2) [of config "request job"]
    by (auto simp: config_ok_def int64_def min_int64_def max_int64_def)
  then show ?thesis by (simp add: batch_of_def add_def empty_batch_def wrap64_id)
qed

lemma within_limits_single:
  assumes "config_ok config" and "validateRequest config (request job) = Inr ()"
  shows "within_limits config [job]"
proof -
  note v = validateRequest_Inr [OF assms(2)]
  have "int (length (increments (batch_of [job]))) = int (card (Key ` set (Increments (request job))))"
    using length_keyed [OF keyed_batch [of "[job]"]]
    by (simp add: batch_of_increments fold_keys job_increments_def)
  also have "\<dots> \<le> int (length (Increments (request job)))"
    by (metis card_length length_map list.set_map of_nat_mono)
  finally show ?thesis
    using assms v events_single [OF assms] by (simp add: within_limits_def)
qed

lemma within_limits_snoc:
  assumes "config_ok config" and "within_limits config js"
    and "validateRequest config (request job) = Inr ()" and "canAdd (batch_of js) job config"
  shows "within_limits config (js @ [job])"
proof -
  note v = validateRequest_Inr [OF assms(3)]
  have e: "0 \<le> events (batch_of js)" "events (batch_of js) \<le> MaxEvents config"
    using assms(2) validateRequest_Inr(1)
    by (auto simp: within_limits_def intro!: sum_list_map_nonneg) (meson less_imp_le)
  then have "int64 (events (batch_of js) + Events (request job))"
  proof -
    have "MaxEvents config < 4611686018427387904" using assms(1) by (simp add: config_ok_def)
    then have "0 \<le> events (batch_of js) + Events (request job)"
      and "events (batch_of js) + Events (request job) \<le> max_int64"
      using v(1,2) e unfolding max_int64_def by linarith+
    then show ?thesis by (simp add: int64_def min_int64_def)
  qed
  then have w: "wrap64 (events (batch_of js) + Events (request job)) = events (batch_of js) + Events (request job)"
    by (rule wrap64_id)
  have incs: "increments (batch_of (js @ [job])) = foldl add_increment (increments (batch_of js)) (Increments (request job))"
    by (simp add: batch_of_increments job_increments_def)
  have "int (length (increments (batch_of (js @ [job])))) \<le> MaxKeys config"
    using assms(4) count_unique_fold [OF keyed_batch v(5)] incs by (simp add: canAdd_def split: if_splits)
  moreover have "events (batch_of (js @ [job])) = events (batch_of js) + Events (request job)"
    using w by (simp add: add_def flip: batch_of_snoc)
  moreover have "events (batch_of js) + Events (request job) \<le> MaxEvents config"
    using assms(4) w by (simp add: canAdd_def split: if_splits)
  ultimately show ?thesis
    using assms(2,3) by (auto simp: within_limits_def)
qed

text \<open>The batch the store gets adds to every key what the jobs add to it, one by one.\<close>

definition jobs_exact :: "batch_job list \<Rightarrow> bool" where
  "jobs_exact js \<longleftrightarrow> (\<forall>j\<in>set js. exact_request (request j))"

lemma delta_of_jobs: "delta_of (job_increments js) k = (\<Sum>j\<leftarrow>js. delta_of (Increments (request j)) k)"
  by (induction js) (simp_all add: job_increments_def delta_of_append)

lemma batch_increments_delta: "int (delta_of (batch_increments b) k) = int (nat (key_delta (increments b) k))"
  if "keyed (increments b)"
proof -
  let ?incs = "batch_increments b"
  have dist: "distinct (map Key ?incs)"
  proof -
    have "distinct (map Key (map snd (increments b)))"
      unfolding keyed_keys [OF that] using that by (simp add: keyed_def)
    then show ?thesis by (simp add: batch_increments_def distinct_map del: map_map)
  qed
  have set: "set ?incs = snd ` set (increments b)" by (simp add: batch_increments_def)
  show ?thesis
  proof (cases "map_of (increments b) k")
    case None
    then have "k \<notin> Key ` set ?incs"
      using that set by (force simp: map_of_eq_None_iff keyed_def image_iff)
    with None show ?thesis by (simp add: delta_of_notin key_delta_def)
  next
    case (Some i)
    then have "i \<in> set ?incs" "Key i = k"
      using set keyed_map_of [OF that Some] map_of_SomeD [OF Some] by force+
    with Some show ?thesis using delta_of_distinct [OF dist] by (auto simp: key_delta_def)
  qed
qed

lemma batch_counts:
  assumes "config_ok config" and "within_limits config js" and "jobs_exact js"
  shows "delta_of (batch_increments (batch_of js)) k = (\<Sum>j\<leftarrow>js. delta_of (Increments (request j)) k)"
proof -
  have pos: "\<forall>i\<in>set (job_increments js). 0 < Delta i"
    using assms(2) validateRequest_Inr(6) by (fastforce simp: job_increments_def within_limits_def)
  have "(\<Sum>i\<leftarrow>job_increments js. Delta i) = (\<Sum>j\<leftarrow>js. Events (request j))"
    if "\<forall>j\<in>set js. validateRequest config (request j) = Inr () \<and> exact_request (request j)" for js
    using that
  proof (induction js)
    case (Cons j js)
    then show ?case
      using validateRequest_Inr(7) [of config "request j"] by (simp add: job_increments_def)
  qed (simp add: job_increments_def)
  then have "(\<Sum>i\<leftarrow>job_increments js. Delta i) \<le> max_int64"
    using assms by (auto simp: within_limits_def jobs_exact_def config_ok_def max_int64_def)
  then have "key_delta (increments (batch_of js)) k = int (delta_of (job_increments js) k)"
    unfolding batch_of_increments using fold_delta [OF pos, of "[]"] by (simp add: key_delta_def)
  then show ?thesis
    using batch_increments_delta [OF keyed_batch [of js], of k] by (simp add: delta_of_jobs)
qed

end
