(* ===== verification/Batcher_Run.thy ===== *)
theory Batcher_Run
  imports Batcher
begin

text \<open>
  The running batcher: \<open>Start\<close>, \<open>Submit\<close> and \<open>Stop\<close> called by other goroutines, and the goroutine
  \<^verbatim>\<open>run\<close> with the loops of \<^verbatim>\<open>drain\<close> and \<^verbatim>\<open>abort\<close>. Each function below is what one goroutine does
  between two points where another may run: a critical section under \<^verbatim>\<open>stateMu\<close>, a receive from
  the queue, or the handling of a received job. \<open>pc\<close> says where \<^verbatim>\<open>run\<close> stands. A received job is
  still counted in \<open>depth\<close> until \<^verbatim>\<open>dequeued\<close> runs, so receiving and handling are two steps.
  A \<^verbatim>\<open>flush\<close> touches neither the queue nor \<open>accepting\<close>, so the submissions that arrive while the
  store works are steps before or after it.

  The store is the parameter \<open>store_apply\<close> over its own state \<open>backend\<close>. The timer of a pending
  batch and the choice between ready \<^verbatim>\<open>select\<close> branches are left open: any enabled step may run.
\<close>

datatype pc =
    NotStarted
  | Looping
  | LoopGot batch_job
  | Draining
  | DrainGot batch_job
  | Aborting
  | AbortGot batch_job
  | Stopped

record 'c batcher =
  queue :: "batch_job list"
  stop_closed :: bool
  run_cancelled :: bool
  started :: bool
  accepting :: bool
  ready :: bool
  depth :: int
  pc :: pc
  pending :: "pending_batch option"
  results :: "(nat \<times> batch_error option) list"
  flushed :: "(pending_batch \<times> apply_error option) list"
  accepted :: "batch_job list"
  backend :: 'c

definition NewBatcher :: "'c \<Rightarrow> 'c batcher" where
  "NewBatcher c =
     \<lparr>queue = [], stop_closed = False, run_cancelled = False, started = False, accepting = False,
      ready = False, depth = 0, pc = NotStarted, pending = None, results = [], flushed = [],
      accepted = [], backend = c\<rparr>"

type_synonym 'c store_apply = "'c \<Rightarrow> increment list \<Rightarrow> apply_error option \<times> 'c"

section \<open>The callers\<close>

definition Start :: "'c batcher \<Rightarrow> 'c batcher" where
  "Start b =
     (if started b then b
      else b\<lparr>started := True, accepting := True, ready := True, pc := Looping\<rparr>)"

text \<open>
  \<open>Submit\<close> up to the enqueue; \<open>None\<close> means the job waits in the queue and the caller for its
  result. \<open>accepted\<close> only records it for the proofs.
\<close>

definition Submit :: "batcher_config \<Rightarrow> batch_job \<Rightarrow> 'c batcher \<Rightarrow> batch_error option \<times> 'c batcher" where
  "Submit config job b =
     (case validateRequest config (request job) of
        Inl err \<Rightarrow> (Some err, b)
      | Inr _ \<Rightarrow>
          if \<not> accepting b then (Some NotRunning, b)
          else let b1 = b\<lparr>depth := depth b + 1\<rparr>
               in if int (length (queue b1)) < QueueSize config
                  then (None, b1\<lparr>queue := queue b1 @ [job], accepted := accepted b1 @ [job]\<rparr>)
                  else (Some QueueFull, b1\<lparr>depth := depth b1 - 1\<rparr>))"

text \<open>\<open>Stop\<close>: the critical section; then, when its context ends before \<^verbatim>\<open>done\<close> closes, the cancellation.\<close>

definition Stop :: "'c batcher \<Rightarrow> 'c batcher" where
  "Stop b =
     (if \<not> started b then b
      else b\<lparr>accepting := False, ready := False, stop_closed := True\<rparr>)"

definition CancelRun :: "'c batcher \<Rightarrow> 'c batcher" where
  "CancelRun b = b\<lparr>run_cancelled := True\<rparr>"

section \<open>The goroutine\<close>

definition resolve :: "batch_job list \<Rightarrow> batch_error option \<Rightarrow> 'c batcher \<Rightarrow> 'c batcher" where
  "resolve js err b = b\<lparr>results := results b @ map (\<lambda>job. (job_id job, err)) js\<rparr>"

definition flush :: "'c store_apply \<Rightarrow> pending_batch \<Rightarrow> 'c batcher \<Rightarrow> 'c batcher" where
  "flush store_apply batch b =
     (case store_apply (backend b) (batch_increments batch) of
        (err, c) \<Rightarrow>
          resolve (jobs batch) (map_option StoreFailure err)
            (b\<lparr>backend := c, flushed := flushed b @ [(batch, err)]\<rparr>))"

definition dequeued :: "'c batcher \<Rightarrow> 'c batcher" where
  "dequeued b = b\<lparr>depth := depth b - 1\<rparr>"

text \<open>Receiving from the queue channel.\<close>

definition receive :: "(batch_job \<Rightarrow> pc) \<Rightarrow> 'c batcher \<Rightarrow> 'c batcher" where
  "receive got b = (case queue b of [] \<Rightarrow> b | job # rest \<Rightarrow> b\<lparr>queue := rest, pc := got job\<rparr>)"

text \<open>Flush the batch when it is full, keep it pending otherwise.\<close>

definition flush_if_full ::
    "'c store_apply \<Rightarrow> batcher_config \<Rightarrow> pending_batch \<Rightarrow> 'c batcher \<Rightarrow> 'c batcher" where
  "flush_if_full store_apply config batch b =
     (if full batch config then (flush store_apply batch b)\<lparr>pending := None\<rparr>
      else b\<lparr>pending := Some batch\<rparr>)"

text \<open>
  What \<^verbatim>\<open>run\<close> and \<^verbatim>\<open>drain\<close> do with a received job: the first job opens a batch, a job that fits
  joins it, any other flushes the batch and opens the next.
\<close>

definition take_job ::
    "'c store_apply \<Rightarrow> batcher_config \<Rightarrow> batch_job \<Rightarrow> 'c batcher \<Rightarrow> 'c batcher" where
  "take_job store_apply config job b =
     (case pending b of
        None \<Rightarrow> flush_if_full store_apply config (newPendingBatch job) b
      | Some batch \<Rightarrow>
          if canAdd batch job config
          then flush_if_full store_apply config (add batch job) b
          else flush_if_full store_apply config (newPendingBatch job) (flush store_apply batch b))"

definition run_handle ::
    "'c store_apply \<Rightarrow> batcher_config \<Rightarrow> batch_job \<Rightarrow> 'c batcher \<Rightarrow> 'c batcher" where
  "run_handle store_apply config job b = (take_job store_apply config job (dequeued b))\<lparr>pc := Looping\<rparr>"

definition flush_pending :: "'c store_apply \<Rightarrow> 'c batcher \<Rightarrow> 'c batcher" where
  "flush_pending store_apply b =
     (case pending b of None \<Rightarrow> b | Some batch \<Rightarrow> (flush store_apply batch b)\<lparr>pending := None\<rparr>)"

definition drain_handle ::
    "'c store_apply \<Rightarrow> batcher_config \<Rightarrow> batch_job \<Rightarrow> 'c batcher \<Rightarrow> 'c batcher" where
  "drain_handle store_apply config job b = (take_job store_apply config job (dequeued b))\<lparr>pc := Draining\<rparr>"

definition drain_finish :: "'c store_apply \<Rightarrow> 'c batcher \<Rightarrow> 'c batcher" where
  "drain_finish store_apply b = (flush_pending store_apply b)\<lparr>pc := Stopped\<rparr>"

definition abort :: "'c batcher \<Rightarrow> 'c batcher" where
  "abort b =
     (case pending b of
        None \<Rightarrow> b\<lparr>pc := Aborting\<rparr>
      | Some batch \<Rightarrow> (resolve (jobs batch) (Some BatcherStopped) b)\<lparr>pending := None, pc := Aborting\<rparr>)"

definition abort_handle :: "batch_job \<Rightarrow> 'c batcher \<Rightarrow> 'c batcher" where
  "abort_handle job b = (resolve [job] (Some BatcherStopped) (dequeued b))\<lparr>pc := Aborting\<rparr>"

section \<open>The steps\<close>

text \<open>
  One rule per step, its premises the guards of the code: which branch of \<^verbatim>\<open>select\<close> is ready. A
  cancelled run may still drain one more job, since \<^verbatim>\<open>drain\<close> looks at the context before its
  \<^verbatim>\<open>select\<close>. A submitted job is new.
\<close>

inductive goroutine_step ::
    "'c store_apply \<Rightarrow> batcher_config \<Rightarrow> 'c batcher \<Rightarrow> 'c batcher \<Rightarrow> bool"
  for store_apply :: "'c store_apply" and config :: batcher_config
where
  run_receive: "pc b = Looping \<Longrightarrow> queue b \<noteq> [] \<Longrightarrow>
     goroutine_step store_apply config b (receive LoopGot b)"
| run_handle: "pc b = LoopGot job \<Longrightarrow>
     goroutine_step store_apply config b (run_handle store_apply config job b)"
| run_timer: "pc b = Looping \<Longrightarrow> pending b \<noteq> None \<Longrightarrow>
     goroutine_step store_apply config b (flush_pending store_apply b)"
| run_stop: "pc b = Looping \<Longrightarrow> stop_closed b \<Longrightarrow>
     goroutine_step store_apply config b (b\<lparr>pc := Draining\<rparr>)"
| run_abort: "pc b = Looping \<Longrightarrow> run_cancelled b \<Longrightarrow> goroutine_step store_apply config b (abort b)"
| drain_receive: "pc b = Draining \<Longrightarrow> queue b \<noteq> [] \<Longrightarrow>
     goroutine_step store_apply config b (receive DrainGot b)"
| drain_handle: "pc b = DrainGot job \<Longrightarrow>
     goroutine_step store_apply config b (drain_handle store_apply config job b)"
| drain_finish: "pc b = Draining \<Longrightarrow> queue b = [] \<Longrightarrow>
     goroutine_step store_apply config b (drain_finish store_apply b)"
| drain_abort: "pc b = Draining \<Longrightarrow> run_cancelled b \<Longrightarrow> goroutine_step store_apply config b (abort b)"
| abort_receive: "pc b = Aborting \<Longrightarrow> queue b \<noteq> [] \<Longrightarrow>
     goroutine_step store_apply config b (receive AbortGot b)"
| abort_handle: "pc b = AbortGot job \<Longrightarrow> goroutine_step store_apply config b (abort_handle job b)"
| abort_finish: "pc b = Aborting \<Longrightarrow> queue b = [] \<Longrightarrow>
     goroutine_step store_apply config b (b\<lparr>pc := Stopped\<rparr>)"

inductive batcher_step ::
    "'c store_apply \<Rightarrow> batcher_config \<Rightarrow> 'c batcher \<Rightarrow> 'c batcher \<Rightarrow> bool"
  for store_apply :: "'c store_apply" and config :: batcher_config
where
  start: "batcher_step store_apply config b (Start b)"
| submit: "job_id job \<notin> job_id ` set (accepted b) \<Longrightarrow>
     batcher_step store_apply config b (snd (Submit config job b))"
| stop: "batcher_step store_apply config b (Stop b)"
| cancel: "stop_closed b \<Longrightarrow> batcher_step store_apply config b (CancelRun b)"
| go: "goroutine_step store_apply config b b' \<Longrightarrow> batcher_step store_apply config b b'"

inductive reachable :: "'c store_apply \<Rightarrow> batcher_config \<Rightarrow> 'c \<Rightarrow> 'c batcher \<Rightarrow> bool"
  for store_apply :: "'c store_apply" and config :: batcher_config and c :: 'c
where
  init: "reachable store_apply config c (NewBatcher c)"
| step: "reachable store_apply config c b \<Longrightarrow> batcher_step store_apply config b b' \<Longrightarrow>
     reachable store_apply config c b'"

section \<open>The invariant\<close>

fun in_hand :: "pc \<Rightarrow> batch_job list" where
  "in_hand (LoopGot job) = [job]"
| "in_hand (DrainGot job) = [job]"
| "in_hand (AbortGot job) = [job]"
| "in_hand _ = []"

definition pending_jobs :: "'c batcher \<Rightarrow> batch_job list" where
  "pending_jobs b = (case pending b of None \<Rightarrow> [] | Some batch \<Rightarrow> jobs batch)"

text \<open>
  Every accepted job is in exactly one place: queued, in the goroutine's hand, in the pending
  batch, or answered.
\<close>

definition jobs_accounted :: "'c batcher \<Rightarrow> bool" where
  "jobs_accounted b \<longleftrightarrow>
     distinct (map job_id (accepted b)) \<and>
     mset (map job_id (accepted b)) =
       mset (map job_id (queue b)) + mset (map job_id (in_hand (pc b))) +
       mset (map job_id (pending_jobs b)) + mset (map fst (results b))"

definition depth_ok :: "batcher_config \<Rightarrow> 'c batcher \<Rightarrow> bool" where
  "depth_ok config b \<longleftrightarrow>
     depth b = int (length (queue b)) + int (length (in_hand (pc b))) \<and>
     int (length (queue b)) \<le> QueueSize config"

text \<open>Every request that moves was validated, and every batch keeps the limits.\<close>

definition limits_ok :: "batcher_config \<Rightarrow> 'c batcher \<Rightarrow> bool" where
  "limits_ok config b \<longleftrightarrow>
     (\<forall>job\<in>set (queue b) \<union> set (in_hand (pc b)). validateRequest config (request job) = Inr ()) \<and>
     (\<forall>batch. pending b = Some batch \<longrightarrow>
        batch = batch_of (jobs batch) \<and> within_limits config (jobs batch)) \<and>
     (\<forall>(batch, err)\<in>set (flushed b). batch = batch_of (jobs batch) \<and> within_limits config (jobs batch))"

text \<open>A stopped batcher takes no work, and the goroutine leaves the loop only after a stop.\<close>

fun past_loop :: "pc \<Rightarrow> bool" where
  "past_loop NotStarted = False"
| "past_loop Looping = False"
| "past_loop (LoopGot job) = False"
| "past_loop _ = True"

fun batch_gone :: "pc \<Rightarrow> bool" where
  "batch_gone NotStarted = True"
| "batch_gone Aborting = True"
| "batch_gone (AbortGot job) = True"
| "batch_gone Stopped = True"
| "batch_gone _ = False"

definition phases_ok :: "'c batcher \<Rightarrow> bool" where
  "phases_ok b \<longleftrightarrow>
     (accepting b = (started b \<and> \<not> stop_closed b)) \<and> (ready b = accepting b) \<and>
     (pc b = NotStarted \<longleftrightarrow> \<not> started b) \<and> (stop_closed b \<longrightarrow> started b) \<and>
     (run_cancelled b \<longrightarrow> stop_closed b) \<and>
     (past_loop (pc b) \<longrightarrow> stop_closed b) \<and> (batch_gone (pc b) \<longrightarrow> pending b = None) \<and>
     (pc b = NotStarted \<or> pc b = Stopped \<longrightarrow> queue b = [])"

definition batcher_inv :: "batcher_config \<Rightarrow> 'c batcher \<Rightarrow> bool" where
  "batcher_inv config b \<longleftrightarrow> jobs_accounted b \<and> depth_ok config b \<and> limits_ok config b \<and> phases_ok b"

section \<open>What the operations leave alone\<close>

lemma resolve_fields [simp]:
  "queue (resolve js err b) = queue b" "stop_closed (resolve js err b) = stop_closed b"
  "run_cancelled (resolve js err b) = run_cancelled b" "started (resolve js err b) = started b"
  "accepting (resolve js err b) = accepting b" "ready (resolve js err b) = ready b"
  "depth (resolve js err b) = depth b" "pc (resolve js err b) = pc b"
  "pending (resolve js err b) = pending b" "flushed (resolve js err b) = flushed b"
  "accepted (resolve js err b) = accepted b" "backend (resolve js err b) = backend b"
  "results (resolve js err b) = results b @ map (\<lambda>job. (job_id job, err)) js"
  by (simp_all add: resolve_def)

lemma flush_fields [simp]:
  "queue (flush sa batch b) = queue b" "stop_closed (flush sa batch b) = stop_closed b"
  "run_cancelled (flush sa batch b) = run_cancelled b" "started (flush sa batch b) = started b"
  "accepting (flush sa batch b) = accepting b" "ready (flush sa batch b) = ready b"
  "depth (flush sa batch b) = depth b" "pc (flush sa batch b) = pc b"
  "pending (flush sa batch b) = pending b" "accepted (flush sa batch b) = accepted b"
  "map fst (results (flush sa batch b)) = map fst (results b) @ map job_id (jobs batch)"
  "flushed (flush sa batch b) = flushed b @ [(batch, fst (sa (backend b) (batch_increments batch)))]"
  "backend (flush sa batch b) = snd (sa (backend b) (batch_increments batch))"
  by (simp_all add: flush_def resolve_def split: prod.splits)

lemma dequeued_fields [simp]:
  "queue (dequeued b) = queue b" "stop_closed (dequeued b) = stop_closed b"
  "run_cancelled (dequeued b) = run_cancelled b" "started (dequeued b) = started b"
  "accepting (dequeued b) = accepting b" "ready (dequeued b) = ready b" "pc (dequeued b) = pc b"
  "pending (dequeued b) = pending b" "results (dequeued b) = results b"
  "flushed (dequeued b) = flushed b" "accepted (dequeued b) = accepted b"
  "backend (dequeued b) = backend b" "depth (dequeued b) = depth b - 1"
  by (simp_all add: dequeued_def)

lemma take_job_fields [simp]:
  "queue (take_job sa config job b) = queue b" "stop_closed (take_job sa config job b) = stop_closed b"
  "run_cancelled (take_job sa config job b) = run_cancelled b"
  "started (take_job sa config job b) = started b" "accepting (take_job sa config job b) = accepting b"
  "ready (take_job sa config job b) = ready b" "depth (take_job sa config job b) = depth b"
  "pc (take_job sa config job b) = pc b" "accepted (take_job sa config job b) = accepted b"
  by (simp_all add: take_job_def flush_if_full_def split: option.splits)

lemma flush_pending_fields [simp]:
  "queue (flush_pending sa b) = queue b" "stop_closed (flush_pending sa b) = stop_closed b"
  "run_cancelled (flush_pending sa b) = run_cancelled b" "started (flush_pending sa b) = started b"
  "accepting (flush_pending sa b) = accepting b" "ready (flush_pending sa b) = ready b"
  "depth (flush_pending sa b) = depth b" "pc (flush_pending sa b) = pc b"
  "accepted (flush_pending sa b) = accepted b" "pending (flush_pending sa b) = None"
  by (simp_all add: flush_pending_def split: option.splits)

lemma abort_fields [simp]:
  "queue (abort b) = queue b" "stop_closed (abort b) = stop_closed b"
  "run_cancelled (abort b) = run_cancelled b" "started (abort b) = started b"
  "accepting (abort b) = accepting b" "ready (abort b) = ready b" "depth (abort b) = depth b"
  "pc (abort b) = Aborting" "accepted (abort b) = accepted b" "pending (abort b) = None"
  "flushed (abort b) = flushed b" "backend (abort b) = backend b"
  by (simp_all add: abort_def split: option.splits)

lemma jobs_add [simp]: "jobs (add batch job) = jobs batch @ [job]" "jobs (newPendingBatch job) = [job]"
  by (simp_all add: newPendingBatch_def add_def empty_batch_def)

section \<open>Every job is accounted for\<close>

text \<open>The ids in the pending batch and among the results, which only the handlers below change.\<close>

definition held :: "'c batcher \<Rightarrow> nat multiset" where
  "held b = mset (map job_id (pending_jobs b)) + mset (map fst (results b))"

lemma jobs_accounted_held:
  "jobs_accounted b \<longleftrightarrow> distinct (map job_id (accepted b)) \<and>
     mset (map job_id (accepted b)) =
       mset (map job_id (queue b)) + mset (map job_id (in_hand (pc b))) + held b"
  by (simp add: jobs_accounted_def held_def add.assoc)

lemma held_pc [simp]: "held (b\<lparr>pc := p\<rparr>) = held b"
  by (simp add: held_def pending_jobs_def)

lemma held_queue [simp]: "held (b\<lparr>queue := q\<rparr>) = held b"
  by (simp add: held_def pending_jobs_def)

lemma held_dequeued [simp]: "held (dequeued b) = held b"
  by (simp add: held_def pending_jobs_def)

lemma results_flush_mset [simp]:
  "image_mset fst (mset (results (flush sa batch b)))
     = image_mset fst (mset (results b)) + image_mset job_id (mset (jobs batch))"
  by (simp add: flush_def resolve_def image_mset.compositionality comp_def split: prod.splits)

lemma held_flush_if_full:
  "held (flush_if_full sa config batch b) = mset (map job_id (jobs batch)) + mset (map fst (results b))"
  by (simp add: flush_if_full_def held_def pending_jobs_def add.commute)

lemma held_take_job [simp]: "held (take_job sa config job b) = add_mset (job_id job) (held b)"
  by (simp add: take_job_def held_flush_if_full split: option.splits)
    (auto simp: held_def pending_jobs_def)

lemma held_flush_pending [simp]: "held (flush_pending sa b) = held b"
  by (simp add: flush_pending_def held_def pending_jobs_def split: option.splits)

lemma held_abort [simp]: "held (abort b) = held b"
  by (simp add: abort_def held_def pending_jobs_def image_mset.compositionality comp_def
      split: option.splits)

lemma held_abort_handle: "held (abort_handle job b) = add_mset (job_id job) (held b)"
  by (simp add: abort_handle_def held_def pending_jobs_def)

lemma receive_accounted:
  assumes "jobs_accounted b" and "in_hand (pc b) = []" and "\<And>job. in_hand (got job) = [job]"
  shows "jobs_accounted (receive got b)"
  using assms by (cases "queue b") (simp_all add: receive_def jobs_accounted_held)

lemma submit_accounted:
  assumes "jobs_accounted b" and "job_id job \<notin> job_id ` set (accepted b)"
  shows "jobs_accounted (snd (Submit config job b))"
  using assms
  by (auto simp: Submit_def Let_def jobs_accounted_def pending_jobs_def split: sum.splits)

lemma goroutine_accounted: "goroutine_step sa config b b' \<Longrightarrow> jobs_accounted b \<Longrightarrow> jobs_accounted b'"
proof (induction rule: goroutine_step.induct)
  case (run_receive b)
  then show ?case by (intro receive_accounted) simp_all
next
  case (drain_receive b)
  then show ?case by (intro receive_accounted) simp_all
next
  case (abort_receive b)
  then show ?case by (intro receive_accounted) simp_all
qed (simp_all add: jobs_accounted_held run_handle_def drain_handle_def drain_finish_def
      held_abort_handle, simp_all add: abort_handle_def)

lemma step_accounted: "batcher_step sa config b b' \<Longrightarrow> jobs_accounted b \<Longrightarrow> phases_ok b \<Longrightarrow> jobs_accounted b'"
proof (induction rule: batcher_step.induct)
  case (start b)
  then show ?case
    by (auto simp: Start_def jobs_accounted_def pending_jobs_def phases_ok_def)
next
  case (submit job b)
  then show ?case by (intro submit_accounted)
next
  case (stop b)
  then show ?case by (auto simp: Stop_def jobs_accounted_def pending_jobs_def)
next
  case (cancel b)
  then show ?case by (simp add: CancelRun_def jobs_accounted_def pending_jobs_def)
qed (rule goroutine_accounted)

section \<open>The gauge and the queue bound\<close>

lemma goroutine_depth: "goroutine_step sa config b b' \<Longrightarrow> depth_ok config b \<Longrightarrow> depth_ok config b'"
  by (induction rule: goroutine_step.induct)
    (auto simp: depth_ok_def receive_def run_handle_def drain_handle_def drain_finish_def
      abort_handle_def split: list.splits)

lemma step_depth: "batcher_step sa config b b' \<Longrightarrow> depth_ok config b \<Longrightarrow> phases_ok b \<Longrightarrow> depth_ok config b'"
proof (induction rule: batcher_step.induct)
  case (start b)
  then show ?case by (auto simp: Start_def depth_ok_def phases_ok_def)
next
  case (submit job b)
  then show ?case by (auto simp: Submit_def Let_def depth_ok_def split: sum.splits)
next
  case (stop b)
  then show ?case by (auto simp: Stop_def depth_ok_def)
next
  case (cancel b)
  then show ?case by (simp add: CancelRun_def depth_ok_def)
qed (rule goroutine_depth)

section \<open>Batches keep the limits\<close>

definition batch_ok :: "batcher_config \<Rightarrow> pending_batch \<Rightarrow> bool" where
  "batch_ok config batch \<longleftrightarrow> batch = batch_of (jobs batch) \<and> within_limits config (jobs batch)"

definition store_ok :: "batcher_config \<Rightarrow> 'c batcher \<Rightarrow> bool" where
  "store_ok config b \<longleftrightarrow>
     (\<forall>batch. pending b = Some batch \<longrightarrow> batch_ok config batch) \<and>
     (\<forall>(batch, err)\<in>set (flushed b). batch_ok config batch)"

lemma limits_ok_iff:
  "limits_ok config b \<longleftrightarrow>
     (\<forall>job\<in>set (queue b) \<union> set (in_hand (pc b)). validateRequest config (request job) = Inr ()) \<and> store_ok config b"
  by (simp add: limits_ok_def store_ok_def batch_ok_def)

lemma batch_ok_new:
  assumes "config_ok config" and "validateRequest config (request job) = Inr ()"
  shows "batch_ok config (newPendingBatch job)"
  using within_limits_single [OF assms] by (simp add: batch_ok_def batch_of_single)

lemma batch_ok_add:
  assumes "config_ok config" and "batch_ok config batch" and "validateRequest config (request job) = Inr ()"
    and "canAdd batch job config"
  shows "batch_ok config (add batch job)"
proof -
  have b: "batch = batch_of (jobs batch)" and w: "within_limits config (jobs batch)"
    using assms(2) by (simp_all add: batch_ok_def)
  then have "add batch job = batch_of (jobs batch @ [job])" by (metis batch_of_snoc)
  moreover have "within_limits config (jobs batch @ [job])"
    using within_limits_snoc [OF assms(1) w assms(3)] assms(4) b by simp
  ultimately show ?thesis by (simp add: batch_ok_def)
qed

lemma store_ok_flush:
  assumes "store_ok config b" and "batch_ok config batch"
  shows "store_ok config (flush sa batch b)"
  using assms by (auto simp: store_ok_def)

lemma store_ok_flush_if_full:
  assumes "store_ok config b" and "batch_ok config batch"
  shows "store_ok config (flush_if_full sa config batch b)"
  using assms by (auto simp: flush_if_full_def store_ok_def)

lemma store_ok_take_job:
  assumes "config_ok config" and "store_ok config b" and "validateRequest config (request job) = Inr ()"
  shows "store_ok config (take_job sa config job b)"
proof (cases "pending b")
  case None
  then show ?thesis
    using store_ok_flush_if_full [OF assms(2) batch_ok_new [OF assms(1,3)]] by (simp add: take_job_def)
next
  case (Some batch)
  then have batch: "batch_ok config batch" using assms(2) by (simp add: store_ok_def)
  show ?thesis
  proof (cases "canAdd batch job config")
    case True
    then show ?thesis
      using store_ok_flush_if_full [OF assms(2) batch_ok_add [OF assms(1) batch assms(3)]] Some
      by (simp add: take_job_def)
  next
    case False
    then show ?thesis
      using store_ok_flush_if_full [OF store_ok_flush [OF assms(2) batch] batch_ok_new [OF assms(1,3)]] Some
      by (simp add: take_job_def)
  qed
qed

lemma store_ok_flush_pending: "store_ok config b \<Longrightarrow> store_ok config (flush_pending sa b)"
  by (auto simp: flush_pending_def store_ok_def split: option.splits)

lemma store_ok_same:
  "pending b' = pending b \<Longrightarrow> flushed b' = flushed b \<Longrightarrow> store_ok config b' = store_ok config b"
  by (simp add: store_ok_def)

lemma store_ok_abort: "store_ok config b \<Longrightarrow> store_ok config (abort b)"
  by (simp add: store_ok_def)

lemma receive_limits:
  assumes "limits_ok config b" and "\<And>job. in_hand (got job) = [job]" and "in_hand (pc b) = []"
  shows "limits_ok config (receive got b)"
  using assms by (cases "queue b") (auto simp: receive_def limits_ok_iff store_ok_def)

lemma goroutine_limits:
  "goroutine_step sa config b b' \<Longrightarrow> config_ok config \<Longrightarrow> limits_ok config b \<Longrightarrow> limits_ok config b'"
proof (induction rule: goroutine_step.induct)
  case (run_handle b job)
  then have "store_ok config (take_job sa config job (dequeued b))"
    by (intro store_ok_take_job) (auto simp: limits_ok_iff store_ok_def)
  with run_handle show ?case
    by (auto simp: limits_ok_iff run_handle_def store_ok_def)
next
  case (drain_handle b job)
  then have "store_ok config (take_job sa config job (dequeued b))"
    by (intro store_ok_take_job) (auto simp: limits_ok_iff store_ok_def)
  with drain_handle show ?case
    by (auto simp: limits_ok_iff drain_handle_def store_ok_def)
next
  case (run_timer b)
  then show ?case using store_ok_flush_pending [of config b sa] by (simp add: limits_ok_iff)
next
  case (drain_finish b)
  then show ?case
    using store_ok_flush_pending [of config b sa] by (simp add: limits_ok_iff drain_finish_def store_ok_def)
next
  case (run_receive b)
  then show ?case by (intro receive_limits) simp_all
next
  case (drain_receive b)
  then show ?case by (intro receive_limits) simp_all
next
  case (abort_receive b)
  then show ?case by (intro receive_limits) simp_all
next
  case (abort_handle b job)
  then show ?case by (simp add: limits_ok_iff abort_handle_def store_ok_def)
qed (simp_all add: limits_ok_iff store_ok_def)

lemma step_limits:
  "batcher_step sa config b b' \<Longrightarrow> config_ok config \<Longrightarrow> limits_ok config b \<Longrightarrow> phases_ok b \<Longrightarrow>
     limits_ok config b'"
proof (induction rule: batcher_step.induct)
  case (start b)
  then show ?case by (auto simp: Start_def limits_ok_iff store_ok_def phases_ok_def)
next
  case (submit job b)
  then show ?case by (auto simp: Submit_def Let_def limits_ok_iff store_ok_def split: sum.splits)
next
  case (stop b)
  then show ?case by (auto simp: Stop_def limits_ok_iff store_ok_def)
next
  case (cancel b)
  then show ?case by (simp add: CancelRun_def limits_ok_iff store_ok_def)
qed (rule goroutine_limits)

section \<open>The phases\<close>

lemma goroutine_phases: "goroutine_step sa config b b' \<Longrightarrow> phases_ok b \<Longrightarrow> phases_ok b'"
  by (induction rule: goroutine_step.induct)
    (auto simp: phases_ok_def receive_def run_handle_def drain_handle_def drain_finish_def
      abort_handle_def split: list.splits)

lemma step_phases: "batcher_step sa config b b' \<Longrightarrow> phases_ok b \<Longrightarrow> phases_ok b'"
proof (induction rule: batcher_step.induct)
  case (start b)
  then show ?case by (auto simp: Start_def phases_ok_def)
next
  case (submit job b)
  then show ?case by (auto simp: Submit_def Let_def phases_ok_def split: sum.splits)
next
  case (stop b)
  then show ?case by (auto simp: Stop_def phases_ok_def)
next
  case (cancel b)
  then show ?case by (simp add: CancelRun_def phases_ok_def)
qed (rule goroutine_phases)

section \<open>Reachable states\<close>

lemma batcher_inv_init: "batcher_inv config (NewBatcher c)" if "config_ok config"
  using that
  by (simp add: batcher_inv_def NewBatcher_def jobs_accounted_def pending_jobs_def depth_ok_def
      limits_ok_def phases_ok_def config_ok_def)

lemma reachable_inv: "reachable sa config c b \<Longrightarrow> config_ok config \<Longrightarrow> batcher_inv config b"
proof (induction rule: reachable.induct)
  case init
  then show ?case by (rule batcher_inv_init)
next
  case (step b b')
  then have inv: "batcher_inv config b" by blast
  show ?case
    using step_accounted [OF step(2)] step_depth [OF step(2)] step_limits [OF step(2) step(4)]
      step_phases [OF step(2)] inv by (simp add: batcher_inv_def)
qed

section \<open>The goroutine comes to rest\<close>

fun pc_weight :: "pc \<Rightarrow> nat" where
  "pc_weight NotStarted = 0"
| "pc_weight Looping = 3"
| "pc_weight (LoopGot job) = 5"
| "pc_weight Draining = 2"
| "pc_weight (DrainGot job) = 4"
| "pc_weight Aborting = 1"
| "pc_weight (AbortGot job) = 3"
| "pc_weight Stopped = 0"

definition work_left :: "'c batcher \<Rightarrow> nat" where
  "work_left b = 4 * length (queue b) + pc_weight (pc b) + (if pending b = None then 0 else 1)"

text \<open>Every step of the goroutine uses up work, so between two calls it makes finitely many.\<close>

lemma goroutine_work: "goroutine_step sa config b b' \<Longrightarrow> work_left b' < work_left b"
proof (induction rule: goroutine_step.induct)
  case (run_receive b)
  then show ?case by (cases "queue b") (simp_all add: work_left_def receive_def)
next
  case (drain_receive b)
  then show ?case by (cases "queue b") (simp_all add: work_left_def receive_def)
next
  case (abort_receive b)
  then show ?case by (cases "queue b") (simp_all add: work_left_def receive_def)
qed (auto simp: work_left_def run_handle_def drain_handle_def drain_finish_def abort_handle_def)

text \<open>Once stopped, it is never stuck before the end.\<close>

lemma goroutine_progress:
  assumes "phases_ok b" and "stop_closed b" and "pc b \<noteq> Stopped"
  shows "\<exists>b'. goroutine_step sa config b b'"
proof (cases "pc b")
  case NotStarted
  then show ?thesis using assms by (auto simp: phases_ok_def)
next
  case Draining
  then show ?thesis
    using goroutine_step.drain_receive [of b] goroutine_step.drain_finish [of b] by blast
next
  case Aborting
  then show ?thesis
    using goroutine_step.abort_receive [of b] goroutine_step.abort_finish [of b] by blast
qed (use assms in \<open>auto intro: goroutine_step.intros\<close>)

lemma goroutine_stop_closed: "goroutine_step sa config b b' \<Longrightarrow> stop_closed b' = stop_closed b"
  by (induction rule: goroutine_step.induct)
    (auto simp: receive_def run_handle_def drain_handle_def drain_finish_def abort_handle_def
      split: list.splits)

lemma goroutine_accepted: "goroutine_step sa config b b' \<Longrightarrow> accepted b' = accepted b"
  by (induction rule: goroutine_step.induct)
    (auto simp: receive_def run_handle_def drain_handle_def drain_finish_def abort_handle_def
      split: list.splits)

lemma goroutine_reaches_stop:
  assumes "phases_ok b" and "stop_closed b"
  shows "\<exists>b'. (goroutine_step sa config)\<^sup>*\<^sup>* b b' \<and> pc b' = Stopped \<and> accepted b' = accepted b"
  using assms
proof (induction "work_left b" arbitrary: b rule: less_induct)
  case less
  show ?case
  proof (cases "pc b = Stopped")
    case False
    then obtain b1 where b1: "goroutine_step sa config b b1"
      using goroutine_progress less.prems by blast
    then obtain b' where "(goroutine_step sa config)\<^sup>*\<^sup>* b1 b'" "pc b' = Stopped" "accepted b' = accepted b1"
      using less.hyps goroutine_work goroutine_phases goroutine_stop_closed less.prems by metis
    then show ?thesis
      using b1 goroutine_accepted by (metis converse_rtranclp_into_rtranclp)
  qed blast
qed

text \<open>At the end every accepted job has its one answer.\<close>

lemma stopped_answered:
  assumes "batcher_inv config b" and "pc b = Stopped"
  shows "mset (map fst (results b)) = mset (map job_id (accepted b))"
  using assms by (simp add: batcher_inv_def jobs_accounted_def phases_ok_def pending_jobs_def)

lemma answered_once:
  assumes "jobs_accounted b"
  shows "distinct (map fst (results b))" and "set (map fst (results b)) \<subseteq> job_id ` set (accepted b)"
proof -
  obtain open_jobs where "mset (map fst (results b) @ open_jobs) = mset (map job_id (accepted b))"
    using assms by (metis ex_mset jobs_accounted_def mset_append union_commute)
  then have "distinct (map fst (results b) @ open_jobs)"
    and "set (map fst (results b) @ open_jobs) = set (map job_id (accepted b))"
    using assms by (metis jobs_accounted_def mset_eq_imp_distinct_iff, metis set_mset_mset)
  then show "distinct (map fst (results b))" and "set (map fst (results b)) \<subseteq> job_id ` set (accepted b)"
    by auto
qed

lemma rtranclp_goroutine_reachable:
  "(goroutine_step sa config)\<^sup>*\<^sup>* b b' \<Longrightarrow> reachable sa config c b \<Longrightarrow> reachable sa config c b'"
  by (induction rule: rtranclp_induct) (auto intro: reachable.step batcher_step.go)

section \<open>What a flush does to the counters\<close>

context counter_store
begin

text \<open>
  An acknowledged flush adds to each counter exactly the sum of what its jobs asked for, and every
  one of its jobs gets the success answer; no other outcome counts a batch twice.
\<close>

lemma flush_acknowledged:
  assumes "config_ok config" and "batch_ok config batch" and "jobs_exact (jobs batch)"
    and "accepts (backend b) (batch_increments batch)"
    and "apply_batch (backend b) (batch_increments batch) = (None, c')"
  shows "counter (backend (flush apply_batch batch b)) k
      = counter (backend b) k + (\<Sum>j\<leftarrow>jobs batch. delta_of (Increments (request j)) k)"
    and "results (flush apply_batch batch b) = results b @ map (\<lambda>j. (job_id j, None)) (jobs batch)"
proof -
  have batch: "batch = batch_of (jobs batch)" and lim: "within_limits config (jobs batch)"
    using assms(2) by (simp_all add: batch_ok_def)
  have "delta_of (batch_increments batch) k = (\<Sum>j\<leftarrow>jobs batch. delta_of (Increments (request j)) k)"
    using batch_counts [OF assms(1) lim assms(3)] batch by metis
  then show "counter (backend (flush apply_batch batch b)) k
      = counter (backend b) k + (\<Sum>j\<leftarrow>jobs batch. delta_of (Increments (request j)) k)"
    using acknowledged [OF assms(4,5)] assms(5) by simp
  show "results (flush apply_batch batch b) = results b @ map (\<lambda>j. (job_id j, None)) (jobs batch)"
    using assms(5) by (simp add: flush_def)
qed

lemma flush_failed:
  assumes "config_ok config" and "batch_ok config batch" and "jobs_exact (jobs batch)"
    and "accepts (backend b) (batch_increments batch)"
    and "apply_batch (backend b) (batch_increments batch) = (Some err, c')"
  shows "results (flush apply_batch batch b)
      = results b @ map (\<lambda>j. (job_id j, Some (StoreFailure err))) (jobs batch)"
    and "\<not> IsAmbiguous err \<Longrightarrow> counter (backend (flush apply_batch batch b)) = counter (backend b)"
    and "counter (backend (flush apply_batch batch b)) = counter (backend b) \<or>
      counter (backend (flush apply_batch batch b))
        = (\<lambda>k. counter (backend b) k + (\<Sum>j\<leftarrow>jobs batch. delta_of (Increments (request j)) k))"
proof -
  have batch: "batch = batch_of (jobs batch)" and lim: "within_limits config (jobs batch)"
    using assms(2) by (simp_all add: batch_ok_def)
  have d: "delta_of (batch_increments batch) = (\<lambda>k. \<Sum>j\<leftarrow>jobs batch. delta_of (Increments (request j)) k)"
    using batch_counts [OF assms(1) lim assms(3)] batch by (metis (no_types, lifting) ext)
  show "results (flush apply_batch batch b)
      = results b @ map (\<lambda>j. (job_id j, Some (StoreFailure err))) (jobs batch)"
    using assms(5) by (simp add: flush_def)
  show "\<not> IsAmbiguous err \<Longrightarrow> counter (backend (flush apply_batch batch b)) = counter (backend b)"
    using refused [OF assms(4,5)] assms(5) by simp
  show "counter (backend (flush apply_batch batch b)) = counter (backend b) \<or>
      counter (backend (flush apply_batch batch b))
        = (\<lambda>k. counter (backend b) k + (\<Sum>j\<leftarrow>jobs batch. delta_of (Increments (request j)) k))"
    using at_most_once [OF assms(4,5)] assms(5) unfolding d by simp
qed

end

section \<open>Properties\<close>

text \<open>C16: whatever the callers and the goroutine do in whatever order, no job gets two answers, only
  accepted jobs get one, the queue never exceeds its size, the gauge counts the jobs that wait,
  and every batch handed to the store keeps the configured limits.\<close>

theorem batcher_safe:
  assumes "reachable sa config c b" and "config_ok config"
  shows "distinct (map fst (results b)) \<and> set (map fst (results b)) \<subseteq> job_id ` set (accepted b) \<and>
    int (length (queue b)) \<le> QueueSize config \<and>
    depth b = int (length (queue b)) + int (length (in_hand (pc b))) \<and>
    (\<forall>(batch, err)\<in>set (flushed b). 0 < events batch \<and> events batch \<le> MaxEvents config \<and>
       events batch = (\<Sum>j\<leftarrow>jobs batch. Events (request j)) \<and>
       int (length (batch_increments batch)) \<le> MaxKeys config)"
proof -
  have inv: "batcher_inv config b" by (rule reachable_inv [OF assms])
  then have acc: "jobs_accounted b" and "depth_ok config b" and lim: "limits_ok config b"
    by (simp_all add: batcher_inv_def)
  moreover have "0 < events batch \<and> events batch \<le> MaxEvents config \<and>
      events batch = (\<Sum>j\<leftarrow>jobs batch. Events (request j)) \<and>
      int (length (batch_increments batch)) \<le> MaxKeys config"
    if "(batch, err) \<in> set (flushed b)" for batch err
  proof -
    have "batch = batch_of (jobs batch)" and w: "within_limits config (jobs batch)"
      using lim that by (auto simp: limits_ok_def)
    then have lims: "events batch = (\<Sum>j\<leftarrow>jobs batch. Events (request j))" "events batch \<le> MaxEvents config"
        "int (length (increments batch)) \<le> MaxKeys config"
      unfolding within_limits_def by metis+
    obtain j js where js: "jobs batch = j # js" using w by (cases "jobs batch") (auto simp: within_limits_def)
    have pos: "\<forall>j\<in>set (jobs batch). 0 < Events (request j)"
      using w validateRequest_Inr(1) by (auto simp: within_limits_def)
    then have "0 \<le> (\<Sum>j\<leftarrow>js. Events (request j))"
      unfolding js by (intro sum_list_map_nonneg) (auto intro: less_imp_le)
    then have "0 < events batch" using lims(1) pos js by auto
    with lims show ?thesis by (simp add: batch_increments_def)
  qed
  ultimately show ?thesis
    using answered_once [OF acc] by (auto simp: depth_ok_def)
qed

theorem batcher_safe_witness:
  "distinct (map fst (results (snd (Submit \<lparr>QueueSize = 1, MaxEvents = 5, MaxKeys = 5\<rparr>
     \<lparr>job_id = 0, request = \<lparr>Events = 0, Increments = []\<rparr>\<rparr> (Start (NewBatcher ()))))))"
proof -
  let ?config = "\<lparr>QueueSize = 1, MaxEvents = 5, MaxKeys = 5\<rparr>"
  let ?sa = "\<lambda>c incs. (None, ())"
  have "reachable ?sa ?config () (Start (NewBatcher ()))"
    by (rule reachable.step [OF reachable.init batcher_step.start])
  moreover have "accepted (Start (NewBatcher ())) = []" by (simp add: Start_def NewBatcher_def)
  ultimately have "reachable ?sa ?config () (snd (Submit ?config
      \<lparr>job_id = 0, request = \<lparr>Events = 0, Increments = []\<rparr>\<rparr> (Start (NewBatcher ()))))"
    by (intro reachable.step [OF _ batcher_step.submit]) auto
  from batcher_safe [OF this] show ?thesis by (simp add: config_ok_def)
qed

text \<open>C17: once stopped, the goroutine can only take finitely many steps and comes to its end from
  wherever it stands, with every accepted job answered exactly once.\<close>

theorem stop_answers_every_job:
  assumes "reachable sa config c b" and "config_ok config" and "stop_closed b"
  shows "(\<forall>n b'. (goroutine_step sa config ^^ n) b b' \<longrightarrow> n \<le> work_left b) \<and>
    (\<forall>b'. (goroutine_step sa config)\<^sup>*\<^sup>* b b' \<longrightarrow> (\<nexists>b''. goroutine_step sa config b' b'') \<longrightarrow>
       pc b' = Stopped \<and> mset (map fst (results b')) = mset (map job_id (accepted b))) \<and>
    (\<exists>b'. (goroutine_step sa config)\<^sup>*\<^sup>* b b' \<and> pc b' = Stopped)"
proof (intro conjI allI impI)
  have phases: "phases_ok b" using reachable_inv [OF assms(1,2)] by (simp add: batcher_inv_def)
  show "n \<le> work_left b" if "(goroutine_step sa config ^^ n) b b'" for n b'
  proof -
    have "n + work_left b' \<le> work_left b"
      using that
    proof (induction n arbitrary: b')
      case (Suc n)
      then obtain b1 where b1: "(goroutine_step sa config ^^ n) b b1" "goroutine_step sa config b1 b'" by auto
      then show ?case using Suc.IH [OF b1(1)] goroutine_work [OF b1(2)] by linarith
    qed simp
    then show ?thesis by linarith
  qed
  show "\<exists>b'. (goroutine_step sa config)\<^sup>*\<^sup>* b b' \<and> pc b' = Stopped"
    using goroutine_reaches_stop [OF phases assms(3)] by blast
  fix b'
  assume run: "(goroutine_step sa config)\<^sup>*\<^sup>* b b'" and stuck: "\<nexists>b''. goroutine_step sa config b' b''"
  have inv: "batcher_inv config b'"
    using rtranclp_goroutine_reachable [OF run assms(1)] assms(2) by (rule reachable_inv)
  have "stop_closed b' = stop_closed b \<and> accepted b' = accepted b"
    using run by (induction rule: rtranclp_induct) (simp_all add: goroutine_stop_closed goroutine_accepted)
  then have same: "stop_closed b'" "accepted b' = accepted b" using assms(3) by auto
  show stopped: "pc b' = Stopped"
    using goroutine_progress [of b'] inv same(1) stuck by (auto simp: batcher_inv_def)
  show "mset (map fst (results b')) = mset (map job_id (accepted b))"
    using stopped_answered [OF inv stopped] same(2) by simp
qed

theorem stop_answers_every_job_witness:
  "\<exists>b'. (goroutine_step (\<lambda>c incs. (None, ())) \<lparr>QueueSize = 1, MaxEvents = 5, MaxKeys = 5\<rparr>)\<^sup>*\<^sup>*
     (Stop (Start (NewBatcher ()))) b' \<and> pc b' = Stopped"
proof -
  let ?config = "\<lparr>QueueSize = 1, MaxEvents = 5, MaxKeys = 5\<rparr>"
  have "reachable (\<lambda>c incs. (None, ())) ?config () (Stop (Start (NewBatcher ())))"
    by (intro reachable.step [OF _ batcher_step.stop] reachable.step [OF _ batcher_step.start] reachable.init)
  moreover have "stop_closed (Stop (Start (NewBatcher ())))"
    by (simp add: Stop_def Start_def NewBatcher_def)
  ultimately show ?thesis
    using stop_answers_every_job [of "\<lambda>c incs. (None, ())" ?config "()"] by (simp add: config_ok_def)
qed

text \<open>A batcher that was never started or was stopped accepts nothing, and a valid request is
  refused by a running one only when the queue is full; a refused request changes nothing.\<close>

theorem submit_refusals:
  assumes "reachable sa config c b" and "config_ok config" and "validateRequest config (request job) = Inr ()"
  shows "fst (Submit config job b) =
      (if \<not> started b \<or> stop_closed b then Some NotRunning
       else if int (length (queue b)) = QueueSize config then Some QueueFull else None) \<and>
    (fst (Submit config job b) \<noteq> None \<longrightarrow> snd (Submit config job b) = b) \<and>
    (fst (Submit config job b) = None \<longrightarrow> queue (snd (Submit config job b)) = queue b @ [job])"
proof -
  have "batcher_inv config b" by (rule reachable_inv [OF assms(1,2)])
  then have "phases_ok b" "depth_ok config b" by (simp_all add: batcher_inv_def)
  then show ?thesis
    using assms(3) by (auto simp: Submit_def Let_def phases_ok_def depth_ok_def)
qed

theorem submit_refusals_witness:
  "fst (Submit \<lparr>QueueSize = 1, MaxEvents = 5, MaxKeys = 5\<rparr>
     \<lparr>job_id = 0, request = \<lparr>Events = 1, Increments = [\<lparr>Key = ''k'', Delta = 1, ExpireAt = 9\<rparr>]\<rparr>\<rparr>
     (NewBatcher ())) = Some NotRunning"
proof -
  let ?config = "\<lparr>QueueSize = 1, MaxEvents = 5, MaxKeys = 5\<rparr>"
  let ?job = "\<lparr>job_id = 0, request = \<lparr>Events = 1, Increments = [\<lparr>Key = ''k'', Delta = 1, ExpireAt = 9\<rparr>]\<rparr>\<rparr>"
  have "validateRequest ?config (request ?job) = Inr ()" by code_simp
  moreover have "\<not> started (NewBatcher ())" by (simp add: NewBatcher_def)
  ultimately show ?thesis
    using submit_refusals [OF reachable.init [of "\<lambda>c incs. (None, ())" ?config "()"], of ?job]
    by (simp add: config_ok_def)
qed

end
