(* ===== verification/Batcher_Counts.thy ===== *)
theory Batcher_Counts
  imports Batcher_Run
begin

text \<open>
  What the batcher as a whole does to the counters: the number behind every key lies between what
  its acknowledged requests add to it and that plus what the requests with an ambiguous answer add.
  No request is counted twice, none that was acknowledged is lost.
\<close>

section \<open>The ledger: where every job and every answer went\<close>

definition store_jobs :: "'c batcher \<Rightarrow> batch_job multiset" where
  "store_jobs b = mset (pending_jobs b) + mset (concat (map (\<lambda>(batch, err). jobs batch) (flushed b)))"

definition flush_answers :: "'c batcher \<Rightarrow> (nat \<times> batch_error option) multiset" where
  "flush_answers b = mset (concat (map (\<lambda>(batch, err).
     map (\<lambda>j. (job_id j, map_option StoreFailure err)) (jobs batch)) (flushed b)))"

definition answers_ok :: "batch_job multiset \<Rightarrow> 'c batcher \<Rightarrow> bool" where
  "answers_ok ab b \<longleftrightarrow>
     mset (results b) = flush_answers b + image_mset (\<lambda>j. (job_id j, Some BatcherStopped)) ab"

text \<open>\<open>ab\<close> are the jobs \<open>abort\<close> answered.\<close>

definition ledger :: "batch_job multiset \<Rightarrow> 'c batcher \<Rightarrow> bool" where
  "ledger ab b \<longleftrightarrow>
     mset (accepted b) = mset (queue b) + mset (in_hand (pc b)) + store_jobs b + ab \<and> answers_ok ab b"

lemma ledger_pc [simp]:
  "store_jobs (b\<lparr>pc := p\<rparr>) = store_jobs b" "answers_ok ab (b\<lparr>pc := p\<rparr>) = answers_ok ab b"
  "store_jobs (b\<lparr>queue := q\<rparr>) = store_jobs b" "answers_ok ab (b\<lparr>queue := q\<rparr>) = answers_ok ab b"
  "store_jobs (dequeued b) = store_jobs b" "answers_ok ab (dequeued b) = answers_ok ab b"
  by (simp_all add: store_jobs_def answers_ok_def flush_answers_def pending_jobs_def)

lemma answers_ok_pending [simp]: "answers_ok ab (b\<lparr>pending := p\<rparr>) = answers_ok ab b"
  by (simp add: answers_ok_def flush_answers_def)

lemma answers_ok_flush [simp]: "answers_ok ab (flush sa batch b) = answers_ok ab b"
  by (auto simp: answers_ok_def flush_answers_def flush_def resolve_def split: prod.splits)

lemma store_jobs_pending:
  "store_jobs (b\<lparr>pending := p\<rparr>)
     = mset (case p of None \<Rightarrow> [] | Some batch \<Rightarrow> jobs batch) + mset (concat (map (\<lambda>(batch, err). jobs batch) (flushed b)))"
  by (simp add: store_jobs_def pending_jobs_def)

lemma flushed_jobs_flush [simp]:
  "mset (concat (map (\<lambda>(batch, err). jobs batch) (flushed (flush sa batch b))))
     = mset (concat (map (\<lambda>(batch, err). jobs batch) (flushed b))) + mset (jobs batch)"
  by simp

lemma store_jobs_flush_if_full:
  "store_jobs (flush_if_full sa config batch b)
     = mset (concat (map (\<lambda>(batch, err). jobs batch) (flushed b))) + mset (jobs batch)"
  by (simp add: flush_if_full_def store_jobs_pending)

lemma answers_ok_flush_if_full [simp]: "answers_ok ab (flush_if_full sa config batch b) = answers_ok ab b"
  by (simp add: flush_if_full_def)

lemma ledger_take_job [simp]:
  "store_jobs (take_job sa config job b) = add_mset job (store_jobs b)"
  "answers_ok ab (take_job sa config job b) = answers_ok ab b"
  by (auto simp: take_job_def store_jobs_flush_if_full split: option.splits)
    (auto simp: store_jobs_def pending_jobs_def)

lemma ledger_flush_pending [simp]:
  "store_jobs (flush_pending sa b) = store_jobs b" "answers_ok ab (flush_pending sa b) = answers_ok ab b"
  by (auto simp: flush_pending_def store_jobs_pending split: option.splits)
    (auto simp: store_jobs_def pending_jobs_def)

lemma ledger_abort: "ledger ab b \<Longrightarrow> in_hand (pc b) = [] \<Longrightarrow> \<exists>ab'. ledger ab' (abort b)"
proof (cases "pending b")
  case None
  then have "abort b = b\<lparr>pc := Aborting\<rparr>" by (simp add: abort_def)
  then show "ledger ab b \<Longrightarrow> in_hand (pc b) = [] \<Longrightarrow> ?thesis" by (auto simp: ledger_def)
next
  case (Some batch)
  assume l: "ledger ab b" and pc: "in_hand (pc b) = []"
  have "ledger (ab + mset (jobs batch)) (abort b)"
    using l pc Some
    by (auto simp: ledger_def abort_def resolve_def store_jobs_def answers_ok_def flush_answers_def
        pending_jobs_def image_mset.compositionality comp_def)
  then show ?thesis by blast
qed

lemma ledger_abort_handle:
  assumes "ledger ab b" and "pc b = AbortGot job"
  shows "ledger (add_mset job ab) (abort_handle job b)"
  using assms
  by (auto simp: ledger_def abort_handle_def resolve_def store_jobs_def answers_ok_def flush_answers_def
      pending_jobs_def)

lemma ledger_receive:
  assumes "ledger ab b" and "in_hand (pc b) = []" and "\<And>job. in_hand (got job) = [job]"
  shows "ledger ab (receive got b)"
proof (cases "queue b")
  case (Cons job rest)
  have "store_jobs (receive got b) = store_jobs b" "answers_ok ab (receive got b) = answers_ok ab b"
    using Cons by (simp_all add: receive_def store_jobs_def answers_ok_def flush_answers_def pending_jobs_def)
  with assms Cons show ?thesis by (simp add: ledger_def receive_def)
qed (use assms in \<open>simp add: receive_def\<close>)

lemma goroutine_ledger: "goroutine_step sa config b b' \<Longrightarrow> ledger ab b \<Longrightarrow> \<exists>ab'. ledger ab' b'"
proof (induction rule: goroutine_step.induct)
  case (run_receive b)
  then show ?case by (intro exI [of _ ab] ledger_receive) simp_all
next
  case (drain_receive b)
  then show ?case by (intro exI [of _ ab] ledger_receive) simp_all
next
  case (abort_receive b)
  then show ?case by (intro exI [of _ ab] ledger_receive) simp_all
next
  case (run_abort b)
  then show ?case by (intro ledger_abort) simp_all
next
  case (drain_abort b)
  then show ?case by (intro ledger_abort) simp_all
next
  case (abort_handle b job)
  then show ?case using ledger_abort_handle by blast
qed (rule exI [of _ ab], simp add: ledger_def run_handle_def drain_handle_def drain_finish_def)+

lemma step_ledger:
  "batcher_step sa config b b' \<Longrightarrow> ledger ab b \<Longrightarrow> phases_ok b \<Longrightarrow> \<exists>ab'. ledger ab' b'"
proof (induction rule: batcher_step.induct)
  case (start b)
  then have "ledger ab (Start b)"
    by (auto simp: Start_def ledger_def store_jobs_def answers_ok_def flush_answers_def pending_jobs_def phases_ok_def)
  then show ?case ..
next
  case (submit job b)
  then have "ledger ab (snd (Submit config job b))"
    by (auto simp: Submit_def Let_def ledger_def store_jobs_def answers_ok_def flush_answers_def
        pending_jobs_def split: sum.splits)
  then show ?case ..
next
  case (stop b)
  then have "ledger ab (Stop b)"
    by (auto simp: Stop_def ledger_def store_jobs_def answers_ok_def flush_answers_def pending_jobs_def)
  then show ?case ..
next
  case (cancel b)
  then have "ledger ab (CancelRun b)"
    by (simp add: CancelRun_def ledger_def store_jobs_def answers_ok_def flush_answers_def pending_jobs_def)
  then show ?case ..
qed (rule goroutine_ledger)

lemma reachable_ledger: "reachable sa config c b \<Longrightarrow> config_ok config \<Longrightarrow> \<exists>ab. ledger ab b"
proof (induction rule: reachable.induct)
  case init
  then show ?case
    by (intro exI [of _ "{#}"])
      (simp add: ledger_def NewBatcher_def store_jobs_def answers_ok_def flush_answers_def pending_jobs_def)
next
  case (step b b')
  then show ?case
    using step_ledger [OF step(2)] reachable_inv [OF step(1)] by (auto simp: batcher_inv_def)
qed

section \<open>The expiries of a batch\<close>

lemma set_update: "set (AList.update k v m) \<subseteq> insert (k, v) (set m)"
  by (induction m) auto

lemma add_increment_times:
  assumes "\<forall>(k, i)\<in>set m. T (ExpireAt i)" and "T (ExpireAt inc)"
  shows "\<forall>(k, i)\<in>set (add_increment m inc). T (ExpireAt i)"
proof -
  have cur: "T (ExpireAt cur)" if "map_of m (Key inc) = Some cur" for cur
    using map_of_SomeD [OF that] assms(1) by auto
  show ?thesis
    using assms cur set_update
    by (fastforce simp: add_increment_def Let_def split: option.splits)
qed

lemma fold_times:
  "\<forall>(k, i)\<in>set m. T (ExpireAt i) \<Longrightarrow> \<forall>i\<in>set incs. T (ExpireAt i) \<Longrightarrow>
     \<forall>(k, i)\<in>set (foldl add_increment m incs). T (ExpireAt i)"
proof (induction incs arbitrary: m)
  case (Cons inc incs)
  show ?case
    unfolding foldl_Cons by (rule Cons.IH) (use Cons.prems add_increment_times [of m T inc] in auto)
qed simp

lemma batch_times:
  assumes "\<forall>j\<in>set js. \<forall>i\<in>set (Increments (request j)). T (ExpireAt i)"
    and "i \<in> set (batch_increments (batch_of js))"
  shows "T (ExpireAt i)"
proof -
  have "\<forall>(k, i)\<in>set (foldl add_increment [] (job_increments js)). T (ExpireAt i)"
    by (rule fold_times) (use assms(1) in \<open>auto simp: job_increments_def\<close>)
  then show ?thesis using assms(2) by (auto simp: batch_increments_def batch_of_increments)
qed

definition jobs_in_time :: "(time \<Rightarrow> bool) \<Rightarrow> batch_job set \<Rightarrow> bool" where
  "jobs_in_time T js \<longleftrightarrow> (\<forall>j\<in>js. \<forall>i\<in>set (Increments (request j)). T (ExpireAt i))"

section \<open>The counters follow the flushed batches\<close>

definition counted_as :: "(apply_error option \<Rightarrow> bool) \<Rightarrow> 'c batcher \<Rightarrow> string \<Rightarrow> nat" where
  "counted_as P b k =
     (\<Sum>(batch, err)\<leftarrow>flushed b. if P err then delta_of (batch_increments batch) k else 0)"

definition acknowledged_flush :: "apply_error option \<Rightarrow> bool" where
  "acknowledged_flush err \<longleftrightarrow> err = None"

definition uncertain_flush :: "apply_error option \<Rightarrow> bool" where
  "uncertain_flush err \<longleftrightarrow> (\<exists>e. err = Some e \<and> IsAmbiguous e)"

context timed_store
begin

definition counts_ok :: "'a \<Rightarrow> 'a batcher \<Rightarrow> bool" where
  "counts_ok c b \<longleftrightarrow> in_time (backend b) = in_time c \<and>
     (\<forall>k. counter c k + counted_as acknowledged_flush b k \<le> counter (backend b) k \<and>
          counter (backend b) k \<le> counter c k + counted_as acknowledged_flush b k + counted_as uncertain_flush b k)"

lemma counts_ok_same:
  "backend b' = backend b \<Longrightarrow> flushed b' = flushed b \<Longrightarrow> counts_ok c b' = counts_ok c b"
  by (simp add: counts_ok_def counted_as_def)

lemma counts_ok_fields [simp]:
  "counts_ok c (b\<lparr>pending := p\<rparr>) = counts_ok c b" "counts_ok c (b\<lparr>pc := p'\<rparr>) = counts_ok c b"
  "counts_ok c (dequeued b) = counts_ok c b" "counts_ok c (resolve js err b) = counts_ok c b"
  "counts_ok c (abort b) = counts_ok c b" "counts_ok c (receive got b) = counts_ok c b"
  "counts_ok c (Start b) = counts_ok c b" "counts_ok c (Stop b) = counts_ok c b"
  "counts_ok c (CancelRun b) = counts_ok c b" "counts_ok c (snd (Submit config job b)) = counts_ok c b"
  by (rule counts_ok_same;
      simp add: receive_def Start_def Stop_def CancelRun_def Submit_def Let_def split: list.splits sum.splits)+

lemma counts_ok_flush:
  assumes "counts_ok c b" and "\<forall>i\<in>set (batch_increments batch). in_time c (ExpireAt i)"
  shows "counts_ok c (flush apply_batch batch b)"
proof -
  obtain err c' where run: "apply_batch (backend b) (batch_increments batch) = (err, c')" by fastforce
  have ok: "accepts (backend b) (batch_increments batch)"
    using assms by (intro accepts_in_time) (auto simp: counts_ok_def)
  have it: "in_time c' = in_time (backend b)" by (rule in_time_stable [OF ok run])
  have add: "counted_as P (flush apply_batch batch b) k
      = counted_as P b k + (if P err then delta_of (batch_increments batch) k else 0)" for P k
    using run by (simp add: counted_as_def)
  consider (ack) "err = None" | (ref) e where "err = Some e" "\<not> IsAmbiguous e"
    | (amb) e where "err = Some e" "IsAmbiguous e" by (cases err) auto
  then show ?thesis
  proof cases
    case ack
    then have "counter c' k = counter (backend b) k + delta_of (batch_increments batch) k" for k
      using acknowledged [OF ok] run by blast
    with assms(1) ack it show ?thesis
      by (auto simp: counts_ok_def add run acknowledged_flush_def uncertain_flush_def algebra_simps)
  next
    case ref
    then have "counter c' = counter (backend b)" using refused [OF ok] run by blast
    with assms(1) ref it show ?thesis
      by (auto simp: counts_ok_def add run acknowledged_flush_def uncertain_flush_def)
  next
    case amb
    then have mono: "counter (backend b) k \<le> counter c' k \<and>
        counter c' k \<le> counter (backend b) k + delta_of (batch_increments batch) k" for k
      using ambiguous [OF ok] run by fastforce
    have old: "counter c k + counted_as acknowledged_flush b k \<le> counter (backend b) k \<and>
        counter (backend b) k \<le> counter c k + counted_as acknowledged_flush b k + counted_as uncertain_flush b k" for k
      using assms(1) by (simp add: counts_ok_def)
    have "counter c k + counted_as acknowledged_flush b k \<le> counter c' k \<and>
        counter c' k \<le> counter c k + counted_as acknowledged_flush b k +
          (counted_as uncertain_flush b k + delta_of (batch_increments batch) k)" for k
      using mono [of k] old [of k] by linarith
    with assms(1) amb it show ?thesis
      by (simp add: counts_ok_def add run acknowledged_flush_def uncertain_flush_def)
  qed
qed

lemma counts_ok_flush_batch:
  assumes "counts_ok c b" and "batch = batch_of (jobs batch)" and "jobs_in_time (in_time c) (set (jobs batch))"
  shows "counts_ok c (flush apply_batch batch b)"
proof (rule counts_ok_flush [OF assms(1)])
  show "\<forall>i\<in>set (batch_increments batch). in_time c (ExpireAt i)"
    using batch_times [of "jobs batch" "in_time c"] assms(2,3) unfolding jobs_in_time_def by metis
qed

lemma counts_ok_flush_if_full:
  assumes "counts_ok c b" and "batch = batch_of (jobs batch)" and "jobs_in_time (in_time c) (set (jobs batch))"
  shows "counts_ok c (flush_if_full apply_batch config batch b)"
proof (cases "full batch config")
  case True
  then show ?thesis
    using counts_ok_flush_batch [OF assms] by (simp add: flush_if_full_def)
next
  case False
  then show ?thesis
    using assms(1) by (simp add: flush_if_full_def)
qed

lemma counts_ok_take_job:
  assumes "counts_ok c b" and "store_ok config b"
    and "jobs_in_time (in_time c) (insert job (set (pending_jobs b)))"
  shows "counts_ok c (take_job apply_batch config job b)"
proof -
  have new: "newPendingBatch job = batch_of (jobs (newPendingBatch job))"
    "jobs_in_time (in_time c) (set (jobs (newPendingBatch job)))"
    using assms(3) by (simp_all add: batch_of_single jobs_in_time_def)
  show ?thesis
  proof (cases "pending b")
    case None
    then show ?thesis using counts_ok_flush_if_full [OF assms(1) new] by (simp add: take_job_def)
  next
    case (Some batch)
    then have batch: "batch = batch_of (jobs batch)" "jobs_in_time (in_time c) (set (jobs batch))"
      using assms(2,3) by (auto simp: store_ok_def batch_ok_def jobs_in_time_def pending_jobs_def)
    have "add batch job = batch_of (jobs (add batch job))"
      using batch(1) batch_of_snoc [of "jobs batch" job] by simp
    moreover have "jobs_in_time (in_time c) (set (jobs (add batch job)))"
      using batch(2) assms(3) by (auto simp: jobs_in_time_def)
    ultimately show ?thesis
      using counts_ok_flush_if_full [OF assms(1)]
        counts_ok_flush_if_full [OF counts_ok_flush_batch [OF assms(1) batch] new] Some
      by (simp add: take_job_def)
  qed
qed

lemma counts_ok_flush_pending:
  assumes "counts_ok c b" and "store_ok config b" and "jobs_in_time (in_time c) (set (pending_jobs b))"
  shows "counts_ok c (flush_pending apply_batch b)"
proof (cases "pending b")
  case (Some batch)
  then have "counts_ok c (flush apply_batch batch b)"
    using assms by (intro counts_ok_flush_batch) (auto simp: store_ok_def batch_ok_def pending_jobs_def)
  with Some show ?thesis by (simp add: flush_pending_def)
qed (use assms in \<open>simp add: flush_pending_def\<close>)

lemma goroutine_counts:
  "goroutine_step apply_batch config b b' \<Longrightarrow> counts_ok c b \<Longrightarrow> store_ok config b \<Longrightarrow>
     jobs_in_time (in_time c) (set (in_hand (pc b)) \<union> set (pending_jobs b)) \<Longrightarrow> counts_ok c b'"
proof (induction rule: goroutine_step.induct)
  case (run_handle b job)
  then have "counts_ok c (take_job apply_batch config job (dequeued b))"
    by (intro counts_ok_take_job) (auto simp: store_ok_def pending_jobs_def)
  then show ?case by (simp add: run_handle_def)
next
  case (drain_handle b job)
  then have "counts_ok c (take_job apply_batch config job (dequeued b))"
    by (intro counts_ok_take_job) (auto simp: store_ok_def pending_jobs_def)
  then show ?case by (simp add: drain_handle_def)
next
  case (run_timer b)
  then show ?case by (intro counts_ok_flush_pending) (auto simp: jobs_in_time_def)
next
  case (drain_finish b)
  then have "counts_ok c (flush_pending apply_batch b)"
    by (intro counts_ok_flush_pending) (auto simp: jobs_in_time_def)
  then show ?case by (simp add: drain_finish_def)
qed (simp_all add: abort_handle_def)

lemma step_counts:
  assumes "batcher_step apply_batch config b b'" and "counts_ok c b" and "store_ok config b"
    and "jobs_in_time (in_time c) (set (in_hand (pc b)) \<union> set (pending_jobs b))"
  shows "counts_ok c b'"
  using assms
proof (cases rule: batcher_step.cases)
  case go
  then show ?thesis using goroutine_counts assms by blast
qed (use assms(2) in simp_all)

end

lemma step_accepted: "batcher_step sa config b b' \<Longrightarrow> set (accepted b) \<subseteq> set (accepted b')"
  by (induction rule: batcher_step.induct)
    (auto simp: Start_def Stop_def CancelRun_def Submit_def Let_def goroutine_accepted split: sum.splits)

lemma ledger_places:
  assumes "ledger ab b"
  shows "set (in_hand (pc b)) \<union> set (pending_jobs b) \<subseteq> set (accepted b)"
    and "(batch, err) \<in> set (flushed b) \<Longrightarrow> set (jobs batch) \<subseteq> set (accepted b)"
proof -
  have "set (accepted b) = set_mset (mset (queue b) + mset (in_hand (pc b)) + store_jobs b + ab)"
    using assms by (metis ledger_def set_mset_mset)
  then show "set (in_hand (pc b)) \<union> set (pending_jobs b) \<subseteq> set (accepted b)"
    and "(batch, err) \<in> set (flushed b) \<Longrightarrow> set (jobs batch) \<subseteq> set (accepted b)"
    by (auto simp: store_jobs_def)
qed

context timed_store
begin

lemma reachable_counts:
  "reachable apply_batch config c b \<Longrightarrow> config_ok config \<Longrightarrow>
     jobs_in_time (in_time c) (set (accepted b)) \<Longrightarrow> counts_ok c b"
proof (induction rule: reachable.induct)
  case init
  then show ?case by (simp add: NewBatcher_def counts_ok_def counted_as_def)
next
  case (step b b')
  have times: "jobs_in_time (in_time c) (set (accepted b))"
    using step.prems(2) step_accepted [OF step(2)] by (auto simp: jobs_in_time_def)
  obtain ab where "ledger ab b" using reachable_ledger [OF step(1) step.prems(1)] by blast
  then have "jobs_in_time (in_time c) (set (in_hand (pc b)) \<union> set (pending_jobs b))"
    using times ledger_places(1) by (fastforce simp: jobs_in_time_def)
  moreover have "store_ok config b"
    using reachable_inv [OF step(1) step.prems(1)] by (simp add: batcher_inv_def limits_ok_iff)
  ultimately show ?case
    using step_counts [OF step(2)] step.IH [OF step.prems(1) times] by blast
qed

end

section \<open>From batches to requests\<close>

text \<open>What the accepted requests whose answer satisfies \<open>P\<close> ask for, for one key.\<close>

definition requested :: "(batch_error option \<Rightarrow> bool) \<Rightarrow> 'c batcher \<Rightarrow> string \<Rightarrow> nat" where
  "requested P b k =
     (\<Sum>j\<leftarrow>filter (\<lambda>j. list_ex (\<lambda>(i, r). i = job_id j \<and> P r) (results b)) (accepted b).
        delta_of (Increments (request j)) k)"

definition acknowledged_answer :: "batch_error option \<Rightarrow> bool" where
  "acknowledged_answer r \<longleftrightarrow> r = None"

definition uncertain_answer :: "batch_error option \<Rightarrow> bool" where
  "uncertain_answer r \<longleftrightarrow> (\<exists>e. r = Some (StoreFailure e) \<and> IsAmbiguous e)"

lemma answer_of_flush:
  "acknowledged_answer (map_option StoreFailure err) = acknowledged_flush err"
  "uncertain_answer (map_option StoreFailure err) = uncertain_flush err"
  "\<not> acknowledged_answer (Some BatcherStopped)" "\<not> uncertain_answer (Some BatcherStopped)"
  by (auto simp: acknowledged_answer_def acknowledged_flush_def uncertain_answer_def uncertain_flush_def)

definition flush_pairs :: "'c batcher \<Rightarrow> (batch_job \<times> apply_error option) list" where
  "flush_pairs b = concat (map (\<lambda>(batch, err). map (\<lambda>j. (j, err)) (jobs batch)) (flushed b))"

lemma flush_pairs_simps:
  "mset (concat (map (\<lambda>(batch, err). jobs batch) (flushed b))) = image_mset fst (mset (flush_pairs b))"
  "flush_answers b = image_mset (\<lambda>(j, err). (job_id j, map_option StoreFailure err)) (mset (flush_pairs b))"
proof -
  have "concat (map (\<lambda>(batch, err). jobs batch) bs)
      = map fst (concat (map (\<lambda>(batch, err). map (\<lambda>j. (j, err)) (jobs batch)) bs))" for bs :: "(pending_batch \<times> apply_error option) list"
    by (induction bs) (auto simp: comp_def)
  then show "mset (concat (map (\<lambda>(batch, err). jobs batch) (flushed b))) = image_mset fst (mset (flush_pairs b))"
    by (simp add: flush_pairs_def)
  have "concat (map (\<lambda>(batch, err). map (\<lambda>j. (job_id j, map_option StoreFailure err)) (jobs batch)) bs)
      = map (\<lambda>(j, err). (job_id j, map_option StoreFailure err))
          (concat (map (\<lambda>(batch, err). map (\<lambda>j. (j, err)) (jobs batch)) bs))" for bs :: "(pending_batch \<times> apply_error option) list"
    by (induction bs) (auto simp: comp_def)
  then show "flush_answers b = image_mset (\<lambda>(j, err). (job_id j, map_option StoreFailure err)) (mset (flush_pairs b))"
    by (simp add: flush_answers_def flush_pairs_def)
qed

lemma counted_as_pairs:
  assumes "\<forall>(batch, err)\<in>set (flushed b). delta_of (batch_increments batch) k = (\<Sum>j\<leftarrow>jobs batch. delta_of (Increments (request j)) k)"
  shows "counted_as P b k = (\<Sum>(j, err)\<leftarrow>filter (\<lambda>(j, err). P err) (flush_pairs b). delta_of (Increments (request j)) k)"
proof -
  have "(\<Sum>(batch, err)\<leftarrow>bs. if P err then delta_of (batch_increments batch) k else 0)
      = (\<Sum>(j, err)\<leftarrow>filter (\<lambda>(j, err). P err) (concat (map (\<lambda>(batch, err). map (\<lambda>j. (j, err)) (jobs batch)) bs)).
          delta_of (Increments (request j)) k)"
    if "\<forall>(batch, err)\<in>set bs. delta_of (batch_increments batch) k = (\<Sum>j\<leftarrow>jobs batch. delta_of (Increments (request j)) k)" for bs
    using that by (induction bs) (auto simp: comp_def filter_map)
  then show ?thesis using assms by (simp add: counted_as_def flush_pairs_def)
qed

text \<open>The one answer of each job, from where the ledger has it.\<close>

lemma results_distinct_places:
  assumes "jobs_accounted b"
  shows "distinct (map fst (results b))"
    and "j \<in> set (queue b) \<union> set (in_hand (pc b)) \<union> set (pending_jobs b) \<Longrightarrow> job_id j \<notin> fst ` set (results b)"
proof -
  let ?open = "map job_id (queue b) @ map job_id (in_hand (pc b)) @ map job_id (pending_jobs b)"
  have "mset (?open @ map fst (results b)) = mset (map job_id (accepted b))"
    using assms by (simp add: jobs_accounted_def add.assoc)
  moreover have "distinct (map job_id (accepted b))" using assms by (simp add: jobs_accounted_def)
  ultimately have d: "distinct (?open @ map fst (results b))" by (metis mset_eq_imp_distinct_iff)
  then show "distinct (map fst (results b))" by simp
  show "j \<in> set (queue b) \<union> set (in_hand (pc b)) \<union> set (pending_jobs b) \<Longrightarrow> job_id j \<notin> fst ` set (results b)"
    using d by (force simp: image_iff)
qed

lemma answer_unique:
  assumes "distinct (map fst rs)" and "(i, r) \<in> set rs"
  shows "list_ex (\<lambda>(i', r'). i' = i \<and> P r') rs \<longleftrightarrow> P r"
proof -
  have "r' = r" if "(i, r') \<in> set rs" for r'
    by (rule eq_key_imp_eq_value [OF assms(1) that assms(2)])
  then have "(\<exists>r'. (i, r') \<in> set rs \<and> P r') \<longleftrightarrow> P r" using assms(2) by blast
  moreover have "list_ex (\<lambda>(i', r'). i' = i \<and> P r') rs \<longleftrightarrow> (\<exists>r'. (i, r') \<in> set rs \<and> P r')"
    by (auto simp: list_ex_iff)
  ultimately show ?thesis by simp
qed

text \<open>The accepted jobs with an answer that satisfies \<open>P\<close> are those of the flushes with such an outcome.\<close>

definition answered_jobs :: "(batch_error option \<Rightarrow> bool) \<Rightarrow> 'c batcher \<Rightarrow> batch_job list" where
  "answered_jobs P b = filter (\<lambda>j. list_ex (\<lambda>(i, r). i = job_id j \<and> P r) (results b)) (accepted b)"

lemma answered_pairs:
  assumes l: "ledger ab b" and acc: "jobs_accounted b"
    and P: "\<And>err. P (map_option StoreFailure err) = P' err" "\<not> P (Some BatcherStopped)"
  shows "mset (answered_jobs P b) = image_mset fst (mset (filter (\<lambda>(j, err). P' err) (flush_pairs b)))"
proof -
  let ?Q = "\<lambda>j. list_ex (\<lambda>(i, r). i = job_id j \<and> P r) (results b)"
  let ?open = "mset (queue b) + mset (in_hand (pc b)) + mset (pending_jobs b)"
  let ?F = "mset (flush_pairs b)"
  have all: "mset (accepted b) = ?open + image_mset fst ?F + ab"
    using l by (simp add: ledger_def store_jobs_def flush_pairs_simps add.assoc)
  have "set_mset (mset (results b)) = set_mset (image_mset (\<lambda>(j, err). (job_id j, map_option StoreFailure err)) ?F
      + image_mset (\<lambda>j. (job_id j, Some BatcherStopped)) ab)"
    using l by (simp add: ledger_def answers_ok_def flush_pairs_simps)
  then have res: "set (results b) = (\<lambda>(j, err). (job_id j, map_option StoreFailure err)) ` set (flush_pairs b)
      \<union> (\<lambda>j. (job_id j, Some BatcherStopped)) ` set_mset ab" by simp
  note dist = results_distinct_places(1) [OF acc]
  have opn: "\<not> ?Q j" if "j \<in># ?open" for j
  proof -
    have "job_id j \<notin> fst ` set (results b)" using that results_distinct_places(2) [OF acc, of j] by auto
    then show ?thesis by (force simp: list_ex_iff)
  qed
  have "\<not> ?Q j" if "j \<in># ab" for j
    using answer_unique [OF dist, of "job_id j" "Some BatcherStopped" P] that res P(2) by blast
  with opn have empty: "filter_mset ?Q ?open = {#}" "filter_mset ?Q ab = {#}"
    unfolding filter_mset_eq_mempty_iff by blast+
  have flushes: "?Q j = P' err" if "(j, err) \<in> set (flush_pairs b)" for j err
  proof -
    have "(job_id j, map_option StoreFailure err) \<in> set (results b)" using that res by force
    from answer_unique [OF dist this, of P] show ?thesis using P(1) by simp
  qed
  have "filter_mset ?Q (image_mset fst ?F) = image_mset fst (filter_mset (\<lambda>(j, err). P' err) ?F)"
    using flushes by (auto simp: filter_mset_image_mset intro!: arg_cong [where f = "image_mset fst"] filter_mset_cong)
  then show ?thesis using empty by (simp add: answered_jobs_def all)
qed

lemma sum_answered:
  fixes f :: "batch_job \<Rightarrow> 'b::comm_monoid_add"
  assumes "ledger ab b" and "jobs_accounted b"
    and "\<And>err. P (map_option StoreFailure err) = P' err" "\<not> P (Some BatcherStopped)"
  shows "(\<Sum>j\<leftarrow>answered_jobs P b. f j) = (\<Sum>(j, err)\<leftarrow>filter (\<lambda>(j, err). P' err) (flush_pairs b). f j)"
proof -
  have "mset (map f (answered_jobs P b)) = image_mset f (image_mset fst (mset (filter (\<lambda>(j, err). P' err) (flush_pairs b))))"
    unfolding mset_map answered_pairs [OF assms] ..
  also have "\<dots> = mset (map (\<lambda>p. f (fst p)) (filter (\<lambda>(j, err). P' err) (flush_pairs b)))"
    unfolding mset_map image_mset.compositionality comp_def ..
  finally have "mset (map f (answered_jobs P b)) = mset (map (\<lambda>(j, err). f j) (filter (\<lambda>(j, err). P' err) (flush_pairs b)))"
    unfolding case_prod_unfold .
  then show ?thesis by (metis sum_mset_sum_list)
qed

lemma requested_pairs:
  assumes "ledger ab b" and "jobs_accounted b"
    and "\<And>err. P (map_option StoreFailure err) = P' err" "\<not> P (Some BatcherStopped)"
  shows "requested P b k
    = (\<Sum>(j, err)\<leftarrow>filter (\<lambda>(j, err). P' err) (flush_pairs b). delta_of (Increments (request j)) k)"
  using sum_answered [OF assms] by (simp add: requested_def answered_jobs_def)

lemma requested_counted:
  assumes "reachable sa config c b" and "config_ok config" and "jobs_exact (accepted b)"
    and "\<And>err. P (map_option StoreFailure err) = P' err" "\<not> P (Some BatcherStopped)"
  shows "requested P b k = counted_as P' b k"
proof -
  obtain ab where l: "ledger ab b" using reachable_ledger [OF assms(1,2)] by blast
  have inv: "jobs_accounted b" "store_ok config b"
    using reachable_inv [OF assms(1,2)] by (simp_all add: batcher_inv_def limits_ok_iff)
  have "\<forall>(batch, err)\<in>set (flushed b). delta_of (batch_increments batch) k = (\<Sum>j\<leftarrow>jobs batch. delta_of (Increments (request j)) k)"
  proof clarify
    fix batch err
    assume f: "(batch, err) \<in> set (flushed b)"
    then have ok: "batch = batch_of (jobs batch)" "within_limits config (jobs batch)"
      using inv(2) by (auto simp: store_ok_def batch_ok_def)
    have "jobs_exact (jobs batch)"
      using ledger_places(2) [OF l f] assms(3) by (auto simp: jobs_exact_def)
    then show "delta_of (batch_increments batch) k = (\<Sum>j\<leftarrow>jobs batch. delta_of (Increments (request j)) k)"
      using batch_counts [OF assms(2) ok(2)] ok(1) by metis
  qed
  from counted_as_pairs [OF this] requested_pairs [OF l inv(1) assms(4,5)] show ?thesis by simp
qed

section \<open>The count\<close>

context timed_store
begin

lemma reachable_requested:
  assumes "reachable apply_batch config c b" and "config_ok config" and "jobs_exact (accepted b)"
    and "jobs_in_time (in_time c) (set (accepted b))"
  shows "counter c k + requested acknowledged_answer b k \<le> counter (backend b) k"
    and "counter (backend b) k
      \<le> counter c k + requested acknowledged_answer b k + requested uncertain_answer b k"
  using reachable_counts [OF assms(1,2,4)]
    requested_counted [OF assms(1-3), of acknowledged_answer acknowledged_flush k]
    requested_counted [OF assms(1-3), of uncertain_answer uncertain_flush k]
  by (simp_all add: counts_ok_def answer_of_flush)

end

context redis_server
begin

lemma conn_requested:
  assumes "reachable (Apply (lua_client redis)) config c b" and "config_ok config"
    and "jobs_exact (accepted b)" and "jobs_in_time (conn_in_time clock c) (set (accepted b))"
  shows "conn_counter val c k + requested acknowledged_answer b k \<le> conn_counter val (backend b) k \<and>
    conn_counter val (backend b) k
      \<le> conn_counter val c k + requested acknowledged_answer b k + requested uncertain_answer b k"
  using ts.reachable_requested [OF assms] by blast

end

section \<open>Properties\<close>

text \<open>A batch of one event through the in-memory server, from \<open>Start\<close> to \<open>Stop\<close>.\<close>

definition one_config :: batcher_config where
  "one_config = \<lparr>QueueSize = 1, MaxEvents = 1, MaxKeys = 1\<rparr>"

definition one_job :: batch_job where
  "one_job = \<lparr>job_id = 0, request = \<lparr>Events = 1, Increments = [\<lparr>Key = ''k'', Delta = 1, ExpireAt = 100 * Second\<rparr>]\<rparr>\<rparr>"

definition one_store :: "mem_state lua_conn store" where
  "one_store = NewStore \<lparr>server = mem_empty 5, loaded = False, faults = []\<rparr>"

definition one_run :: "mem_state lua_conn store batcher" where
  "one_run = run_handle (Apply (lua_client mem_redis)) one_config one_job
     (receive LoopGot (snd (Submit one_config one_job (Start (NewBatcher one_store)))))"

lemma one_run_eval:
  "accepted one_run = [one_job]" "results one_run = [(0, None)]"
  "conn_counter mem_val (backend one_run) ''k'' = 1" "conn_counter mem_val one_store ''k'' = 0"
  by code_simp+

lemma one_run_reachable: "reachable (Apply (lua_client mem_redis)) one_config one_store one_run"
proof -
  let ?sa = "Apply (lua_client mem_redis)"
  let ?b1 = "Start (NewBatcher one_store)"
  let ?b2 = "snd (Submit one_config one_job ?b1)"
  have "reachable ?sa one_config one_store ?b1"
    by (rule reachable.step [OF reachable.init batcher_step.start])
  moreover have "job_id one_job \<notin> job_id ` set (accepted ?b1)" by code_simp
  ultimately have "reachable ?sa one_config one_store ?b2"
    by (blast intro: reachable.step batcher_step.submit)
  moreover have "pc ?b2 = Looping" "queue ?b2 = [one_job]" by code_simp+
  ultimately have "reachable ?sa one_config one_store (receive LoopGot ?b2)"
    by (auto intro!: reachable.step [OF _ batcher_step.go [OF goroutine_step.run_receive]])
  moreover have "pc (receive LoopGot ?b2) = LoopGot one_job" by code_simp
  ultimately show ?thesis
    unfolding one_run_def by (blast intro: reachable.step batcher_step.go goroutine_step.run_handle)
qed

lemma one_run_fits:
  "config_ok one_config" "jobs_exact (accepted one_run)"
  "jobs_in_time (conn_in_time mem_clock one_store) (set (accepted one_run))"
  by (simp_all add: one_run_eval one_config_def one_job_def one_store_def config_ok_def jobs_exact_def
      exact_request_def jobs_in_time_def conn_in_time_def max_int64_def max_expiry_def NewStore_def
      mem_empty_def unix_def Second_def)

text \<open>In every run of the batcher over a Redis server, whatever the connection loses, every counter
  has grown by at least what the acknowledged requests ask for and by at most that plus what the
  requests answered with an ambiguous store error ask for: nothing acknowledged is lost, nothing
  is counted twice, and refused or aborted requests count nothing.\<close>

theorem counters_match_answers:
  assumes "redis_server redis val expiry clock"
    and "reachable (Apply (lua_client redis)) config c b" and "config_ok config"
    and "jobs_exact (accepted b)" and "jobs_in_time (conn_in_time clock c) (set (accepted b))"
  shows "conn_counter val c k + requested acknowledged_answer b k \<le> conn_counter val (backend b) k \<and>
    conn_counter val (backend b) k
      \<le> conn_counter val c k + requested acknowledged_answer b k + requested uncertain_answer b k"
  using redis_server.conn_requested [OF assms] by blast

theorem counters_match_answers_witness:
  "conn_counter mem_val one_store ''k'' + requested acknowledged_answer one_run ''k'' \<le> conn_counter mem_val (backend one_run) ''k'' \<and>
   requested acknowledged_answer one_run ''k'' = 1"
proof -
  have "conn_counter mem_val one_store ''k'' + requested acknowledged_answer one_run ''k''
      \<le> conn_counter mem_val (backend one_run) ''k''"
    using counters_match_answers [OF mem.redis_server_axioms one_run_reachable one_run_fits] by blast
  moreover have "requested acknowledged_answer one_run ''k'' = 1"
    unfolding requested_def one_run_eval by (simp add: acknowledged_answer_def one_job_def delta_of_def)
  ultimately show ?thesis by blast
qed

end
