(* ===== verification/Ingest.thy ===== *)
theory Ingest
  imports Decoder Batcher_Counts Updater_Config
begin

text \<open>
  \<^verbatim>\<open>internal/updater/http.go\<close>: the handlers of the updater. \<open>ingest\<close> turns a request into one batch
  request, hands it to the batcher and answers with one of two configured statuses. An answer is the
  status and the calls made to the metrics, in their order. The handler's own steps are functions of
  the body and the time; \<^verbatim>\<open>Submit\<close> with its wait for the result is the parameter \<open>submit\<close> over the
  state \<open>'w\<close> it shares with the batcher. \<^verbatim>\<open>http.MaxBytesReader\<close> allows one byte more than the decoder
  reads, so it never fails here. The order in which a map is ranged over is the parameter \<open>order\<close>.
\<close>

section \<open>The handlers\<close>

datatype updater_event = Rejection string | HTTPResult string int | RedisFailureSeen

type_synonym answer = "int \<times> updater_event list"

datatype submit_error = Answered batch_error | RequestCanceled | RequestDeadline

definition reject :: "updater_config \<Rightarrow> decode_error \<Rightarrow> int \<Rightarrow> answer" where
  "reject config err records =
     (U_FailureStatus config, [Rejection (RejectionReason err), HTTPResult ''rejected'' records])"

definition failBatch :: "updater_config \<Rightarrow> int \<Rightarrow> string \<Rightarrow> answer" where
  "failBatch config records reason = (U_FailureStatus config, [Rejection reason, HTTPResult ''failed'' records])"

definition zero_increment :: increment where
  "zero_increment = \<lparr>Key = [], Delta = 0, ExpireAt = zero_time\<rparr>"

definition count_access :: "string \<Rightarrow> time \<Rightarrow> (string \<times> increment) list \<Rightarrow> (string \<times> increment) list" where
  "count_access key expiry incs =
     (let increment = (case map_of incs key of None \<Rightarrow> zero_increment | Some i \<Rightarrow> i)
      in AList.update key (increment\<lparr>Key := key, Delta := wrap64 (Delta increment + 1), ExpireAt := expiry\<rparr>) incs)"

fun count_loop ::
    "string \<Rightarrow> time \<Rightarrow> time \<Rightarrow> access list \<Rightarrow> (string \<times> increment) list \<Rightarrow> contract_error + (string \<times> increment) list" where
  "count_loop inst acceptedAt expiry [] incs = Inr incs"
| "count_loop inst acceptedAt expiry (rec # recs) incs =
     (case AccessKey inst (BucketName rec) (ObjectName rec) acceptedAt of
        Inl err \<Rightarrow> Inl err
      | Inr key \<Rightarrow> count_loop inst acceptedAt expiry recs (count_access key expiry incs))"

definition request_limits :: "updater_config \<Rightarrow> decode_limits" where
  "request_limits config = \<lparr>MaxBodyBytes = U_MaxBodyBytes config, MaxRecords = U_MaxRecords config\<rparr>"

text \<open>Up to \<^verbatim>\<open>Submit\<close>: an answer, or the request for the batcher.\<close>

definition ingest_request ::
    "updater_config \<Rightarrow> (increment list \<Rightarrow> increment list) \<Rightarrow> string \<Rightarrow> (string \<times> bool) list \<Rightarrow> time \<Rightarrow> answer + batch_request" where
  "ingest_request config order contentType body acceptedAt =
     (case validateContentType contentType of
        Inl err \<Rightarrow> Inl (reject config err 0)
      | Inr _ \<Rightarrow>
          (case DecodeRequest body contentType (request_limits config) of
             Inl err \<Rightarrow> Inl (reject config err 0)
           | Inr records \<Rightarrow>
               (case count_loop (U_InstanceID config) acceptedAt (CounterExpiry acceptedAt (U_AccessRetention config)) records [] of
                  Inl err \<Rightarrow> Inl (failBatch config (int (length records)) ''identity_error'')
                | Inr incs \<Rightarrow> Inr \<lparr>Events = int (length records), Increments = order (map snd incs)\<rparr>)))"

text \<open>\<open>is_context\<close> tells whether \<^verbatim>\<open>errors.Is\<close> finds a context error inside a failure of the store.\<close>

definition failure_reason :: "(apply_error \<Rightarrow> bool) \<Rightarrow> submit_error \<Rightarrow> string" where
  "failure_reason is_context err =
     (case err of
        Answered QueueFull \<Rightarrow> ''queue_full''
      | Answered NotRunning \<Rightarrow> ''not_ready''
      | Answered (StoreFailure e) \<Rightarrow> if is_context e then ''request_context'' else ''batch_error''
      | Answered _ \<Rightarrow> ''batch_error''
      | RequestCanceled \<Rightarrow> ''request_context''
      | RequestDeadline \<Rightarrow> ''request_context'')"

definition ingest ::
    "updater_config \<Rightarrow> (increment list \<Rightarrow> increment list) \<Rightarrow> (apply_error \<Rightarrow> bool) \<Rightarrow>
       (batch_request \<Rightarrow> 'w \<Rightarrow> submit_error option \<times> 'w) \<Rightarrow> string \<Rightarrow> (string \<times> bool) list \<Rightarrow> time \<Rightarrow> 'w \<Rightarrow> answer \<times> 'w" where
  "ingest config order is_context submit contentType body acceptedAt w =
     (case ingest_request config order contentType body acceptedAt of
        Inl ans \<Rightarrow> (ans, w)
      | Inr req \<Rightarrow>
          (case submit req w of
             (Some err, w1) \<Rightarrow> (failBatch config (Events req) (failure_reason is_context err), w1)
           | (None, w1) \<Rightarrow> ((U_SuccessStatus config, [HTTPResult ''success'' (Events req)]), w1)))"

definition liveness :: "answer" where
  "liveness = (200, [])"

definition readiness :: "('c \<Rightarrow> 'e option \<times> 'c) \<Rightarrow> 'b batcher \<Rightarrow> 'c \<Rightarrow> answer \<times> 'c" where
  "readiness ping b c =
     (if \<not> ready b then ((503, []), c)
      else case ping c of
             (Some err, c1) \<Rightarrow> ((503, [RedisFailureSeen]), c1)
           | (None, c1) \<Rightarrow> ((200, []), c1))"

text \<open>What \<open>Run\<close> of \<^verbatim>\<open>run.go\<close> hands to the batcher.\<close>

definition batcher_settings :: "updater_config \<Rightarrow> batcher_config" where
  "batcher_settings config =
     \<lparr>QueueSize = U_QueueSize config, MaxEvents = U_BatchMaxEvents config, MaxKeys = U_BatchMaxKeys config\<rparr>"

section \<open>Counting the accesses of a request\<close>

text \<open>How many accesses of a request fall on a key.\<close>

definition access_total :: "string \<Rightarrow> time \<Rightarrow> access list \<Rightarrow> string \<Rightarrow> nat" where
  "access_total inst t recs k =
     length (filter (\<lambda>rec. AccessKey inst (BucketName rec) (ObjectName rec) t = Inr k) recs)"

definition tally :: "time \<Rightarrow> (string \<times> increment) list \<Rightarrow> bool" where
  "tally expiry incs \<longleftrightarrow> keyed incs \<and> (\<forall>(k, i)\<in>set incs. k \<noteq> [] \<and> 0 < Delta i \<and> ExpireAt i = expiry)"

definition tally_sum :: "(string \<times> increment) list \<Rightarrow> int" where
  "tally_sum incs = (\<Sum>(k, i)\<leftarrow>incs. Delta i)"

lemma tally_sum_update:
  "distinct (map fst incs) \<Longrightarrow> tally_sum (AList.update k i incs) = tally_sum incs + Delta i - key_delta incs k"
  by (induction incs) (auto simp: tally_sum_def key_delta_def map_of_eq_None_iff split: option.splits)

lemma tally_delta_le: "tally expiry incs \<Longrightarrow> 0 \<le> key_delta incs k \<and> key_delta incs k \<le> tally_sum incs"
proof -
  assume t: "tally expiry incs"
  then have pos: "\<forall>(k, i)\<in>set incs. 0 < Delta i" by (auto simp: tally_def)
  show ?thesis
  proof (cases "map_of incs k")
    case None
    then show ?thesis using pos by (auto simp: key_delta_def tally_sum_def intro!: sum_list_nonneg) (force intro: less_imp_le)
  next
    case (Some i)
    then have mem: "(k, i) \<in> set incs" by (rule map_of_SomeD)
    have "Delta i \<le> tally_sum incs"
      unfolding tally_sum_def using mem pos
      by (intro member_le_sum_list [of "Delta i" "map (\<lambda>(k, i). Delta i) incs"]) (force simp: image_iff)+
    then show ?thesis using pos mem by (auto simp: key_delta_def Some)
  qed
qed

lemma count_access_tally:
  assumes "tally expiry incs" and "tally_sum incs < max_int64" and "key \<noteq> []"
  shows "tally expiry (count_access key expiry incs)"
    and "tally_sum (count_access key expiry incs) = tally_sum incs + 1"
    and "key_delta (count_access key expiry incs) k = key_delta incs k + (if key = k then 1 else 0)"
proof -
  let ?i = "(case map_of incs key of None \<Rightarrow> zero_increment | Some i \<Rightarrow> i)"
  let ?new = "?i\<lparr>Key := key, Delta := wrap64 (Delta ?i + 1), ExpireAt := expiry\<rparr>"
  have upd: "count_access key expiry incs = AList.update key ?new incs" by (simp add: count_access_def Let_def)
  have k: "keyed incs" using assms(1) by (simp add: tally_def)
  have d: "Delta ?i = key_delta incs key" by (simp add: key_delta_def zero_increment_def split: option.splits)
  have bound: "0 \<le> key_delta incs key" "key_delta incs key < max_int64"
    using tally_delta_le [OF assms(1), of key] assms(2) by auto
  then have w: "wrap64 (Delta ?i + 1) = key_delta incs key + 1"
    unfolding d by (intro wrap64_id) (simp add: int64_def min_int64_def)
  have dist: "distinct (map fst (count_access key expiry incs))"
    using k by (simp add: upd keyed_def distinct_update)
  have mem: "(x, i) \<in> set (count_access key expiry incs) \<Longrightarrow> (x = key \<and> i = ?new) \<or> (x, i) \<in> set incs" for x i
    using dist by (simp add: map_of_eq_Some_iff [symmetric] upd update_conv' split: if_splits) (metis map_of_SomeD)
  show "tally expiry (count_access key expiry incs)"
    using dist mem k assms(1,3) w bound(1) by (fastforce simp: tally_def keyed_def)
  show "tally_sum (count_access key expiry incs) = tally_sum incs + 1"
    using k w by (simp add: upd tally_sum_update keyed_def)
  show "key_delta (count_access key expiry incs) k = key_delta incs k + (if key = k then 1 else 0)"
    using w by (simp add: upd key_delta_def [of "AList.update _ _ _"] update_conv') (simp add: key_delta_def)
qed

lemma AccessKey_nonempty: "AccessKey i b obj t = Inr k \<Longrightarrow> k \<noteq> []"
  by (simp add: AccessKey_Inr_iff Namespace_def)

lemma count_loop_total:
  assumes "ValidateInstanceID inst = Inr ()" and "\<forall>rec\<in>set recs. BucketName rec \<noteq> [] \<and> ObjectName rec \<noteq> []"
    and "tally expiry incs" and "tally_sum incs + int (length recs) \<le> max_int64"
  obtains incs' where "count_loop inst t expiry recs incs = Inr incs'" and "tally expiry incs'"
    and "tally_sum incs' = tally_sum incs + int (length recs)"
    and "\<And>k. key_delta incs' k = key_delta incs k + int (access_total inst t recs k)"
  using assms
proof (induction recs arbitrary: incs thesis)
  case Nil
  then show ?case by (simp add: access_total_def)
next
  case (Cons rec recs)
  obtain key where key: "AccessKey inst (BucketName rec) (ObjectName rec) t = Inr key"
    using AccessKey_total Cons.prems(2,3) by fastforce
  note step = count_access_tally [OF Cons.prems(4) _ AccessKey_nonempty [OF key]]
  have room: "tally_sum incs < max_int64" using Cons.prems(5) by simp
  obtain incs' where "count_loop inst t expiry recs (count_access key expiry incs) = Inr incs'" "tally expiry incs'"
    "tally_sum incs' = tally_sum (count_access key expiry incs) + int (length recs)"
    "\<And>k. key_delta incs' k = key_delta (count_access key expiry incs) k + int (access_total inst t recs k)"
    using Cons.IH [OF _ Cons.prems(2) _ step(1) [OF room]] Cons.prems(3,5) step(2) [OF room] by auto
  then show ?case
    using Cons.prems(1) key step(2,3) [OF room] by (simp add: access_total_def)
qed

section \<open>The request the batcher gets\<close>

lemma validate_loop_total:
  "distinct (map Key incs) \<Longrightarrow> \<forall>i\<in>set incs. Key i \<notin> seen \<and> Key i \<noteq> [] \<and> 0 < Delta i \<and> \<not> is_zero (ExpireAt i) \<Longrightarrow>
     0 \<le> tot \<Longrightarrow> tot + (\<Sum>i\<leftarrow>incs. Delta i) \<le> max_int64 \<Longrightarrow>
     validate_loop incs seen tot = Inr (tot + (\<Sum>i\<leftarrow>incs. Delta i))"
proof (induction incs arbitrary: seen tot)
  case (Cons inc incs)
  have "0 \<le> (\<Sum>i\<leftarrow>incs. Delta i)"
    using Cons.prems(2) by (intro sum_list_map_nonneg) (auto intro: less_imp_le)
  moreover have "0 < Delta inc" using Cons.prems(2) by simp
  ultimately have "wrap64 (tot + Delta inc) = tot + Delta inc"
    using Cons.prems(3,4) by (intro wrap64_id) (simp add: int64_def min_int64_def)
  moreover have "validate_loop incs (insert (Key inc) seen) (tot + Delta inc) = Inr (tot + Delta inc + (\<Sum>i\<leftarrow>incs. Delta i))"
    using Cons.prems \<open>0 < Delta inc\<close> by (intro Cons.IH) (auto simp: image_iff)
  ultimately show ?case using Cons.prems(1,2) by (simp add: add.assoc)
qed simp

lemma delta_of_mset: "mset incs = mset incs' \<Longrightarrow> delta_of incs k = delta_of incs' k"
  by (simp add: delta_of_def flip: sum_mset_sum_list mset_map) (metis mset_filter mset_map sum_mset_sum_list)

lemma delta_of_tally:
  assumes "tally expiry incs"
  shows "int (delta_of (map snd incs) k) = key_delta incs k"
proof (cases "map_of incs k")
  case None
  then have "k \<notin> Key ` set (map snd incs)"
    using assms by (force simp: tally_def keyed_def map_of_eq_None_iff image_iff)
  then show ?thesis using delta_of_notin [of k "map snd incs"] by (simp add: key_delta_def None)
next
  case (Some i)
  have k: "keyed incs" using assms by (simp add: tally_def)
  have "distinct (map Key (map snd incs))" unfolding keyed_keys [OF k] using k by (simp add: keyed_def)
  moreover have "i \<in> set (map snd incs)" "Key i = k" "0 < Delta i"
    using map_of_SomeD [OF Some] keyed_map_of [OF k Some] assms by (force simp: tally_def)+
  ultimately show ?thesis using delta_of_distinct [of "map snd incs" i] by (simp add: key_delta_def Some)
qed

lemma positive_length: "\<forall>x\<in>set xs. (0::int) < f x \<Longrightarrow> int (length xs) \<le> (\<Sum>x\<leftarrow>xs. f x)"
  by (induction xs) auto

lemma expiry_not_zero:
  assumes "0 \<le> t" and "0 < retention"
  shows "\<not> is_zero (CounterExpiry t retention)"
proof -
  have "0 < CounterExpiry t retention"
    using truncate_hour_gt [of t] assms by (simp add: CounterExpiry_def)
  then show ?thesis by (simp add: is_zero_def zero_time_def Day_def Hour_def Second_def)
qed

lemma ingest_request_built:
  assumes "valid_updater config" and "\<forall>incs. mset (order incs) = mset incs" and "0 \<le> t"
    and "DecodeRequest body contentType (request_limits config) = Inr records"
  shows "\<exists>req. ingest_request config order contentType body t = Inr req \<and>
    Events req = int (length records) \<and> validateRequest (batcher_settings config) req = Inr () \<and>
    exact_request req \<and> (\<forall>k. delta_of (Increments req) k = access_total (U_InstanceID config) t records k) \<and>
    (\<forall>i\<in>set (Increments req). ExpireAt i = CounterExpiry t (U_AccessRetention config))"
proof -
  let ?expiry = "CounterExpiry t (U_AccessRetention config)"
  note c = assms(1) [unfolded valid_updater_def]
  have recs: "records \<noteq> []" "int (length records) \<le> U_MaxRecords config"
    "\<forall>rec\<in>set records. BucketName rec \<noteq> [] \<and> ObjectName rec \<noteq> []"
    using DecodeRequest_Inr [OF assms(4)] by (simp_all add: request_limits_def)
  have type: "\<exists>mt. validateContentType contentType = Inr mt"
    using assms(4) by (auto simp: DecodeRequest_def split: if_splits sum.splits)
  have small: "int (length records) \<le> max_int64" using recs(2) c by (simp add: max_int64_def)
  have empty: "tally ?expiry []" "tally_sum [] + int (length records) \<le> max_int64"
    using small by (simp_all add: tally_def keyed_def tally_sum_def)
  obtain incs where incs: "count_loop (U_InstanceID config) t ?expiry records [] = Inr incs" "tally ?expiry incs"
    "tally_sum incs = int (length records)"
    "\<And>k. key_delta incs k = int (access_total (U_InstanceID config) t records k)"
    using count_loop_total [OF _ recs(3) empty, of "U_InstanceID config" t] c by (auto simp: tally_sum_def key_delta_def)
  define req where "req = \<lparr>Events = int (length records), Increments = order (map snd incs)\<rparr>"
  have m: "mset (order (map snd incs)) = mset (map snd incs)" using assms(2) by blast
  have sum: "(\<Sum>i\<leftarrow>order (map snd incs). Delta i) = int (length records)"
  proof -
    have "(\<Sum>i\<leftarrow>order (map snd incs). Delta i) = (\<Sum>i\<leftarrow>map snd incs. Delta i)"
      using m by (metis mset_map sum_mset_sum_list)
    then show ?thesis using incs(3) by (simp add: tally_sum_def split_def comp_def)
  qed
  have k: "keyed incs" using incs(2) by (simp add: tally_def)
  have "distinct (map fst incs)" using k by (simp add: keyed_def)
  then have "distinct (map Key (map snd incs))" unfolding keyed_keys [OF k] .
  then have dist: "distinct (map Key (order (map snd incs)))" using m by (metis mset_map mset_eq_imp_distinct_iff)
  have good: "\<forall>i\<in>set (order (map snd incs)). Key i \<noteq> [] \<and> 0 < Delta i \<and> ExpireAt i = ?expiry"
    using incs(2) m [THEN mset_eq_setD] by (fastforce simp: tally_def keyed_def)
  have "int (length (order (map snd incs))) \<le> (\<Sum>i\<leftarrow>order (map snd incs). Delta i)"
    using positive_length [of "order (map snd incs)" Delta] good by blast
  then have len: "int (length (order (map snd incs))) \<le> int (length records)" using sum by simp
  have "\<not> is_zero ?expiry" using expiry_not_zero assms(3) c by (simp add: positive_duration_def)
  then have "validate_loop (order (map snd incs)) {} 0 = Inr (int (length records))"
    using validate_loop_total [OF dist, of "{}" 0] good sum small by simp
  moreover have "order (map snd incs) \<noteq> []" using sum recs(1) by auto
  ultimately have "validateRequest (batcher_settings config) req = Inr ()"
    using recs(1,2) len c by (simp add: validateRequest_def req_def batcher_settings_def)
  moreover have "exact_request req" using sum small by (simp add: exact_request_def req_def)
  moreover have "delta_of (Increments req) k = access_total (U_InstanceID config) t records k" for k
    using delta_of_tally [OF incs(2), of k] incs(4) delta_of_mset [OF m, of k] by (simp add: req_def)
  moreover have "ingest_request config order contentType body t = Inr req"
    using type assms(4) incs(1) by (auto simp: ingest_request_def req_def)
  moreover have "\<forall>i\<in>set (Increments req). ExpireAt i = ?expiry" using good by (simp add: req_def)
  moreover have "Events req = int (length records)" by (simp add: req_def)
  ultimately show ?thesis by blast
qed

section \<open>Properties\<close>

lemma undecoded_rejected:
  assumes "valid_updater config" and "DecodeRequest body contentType (request_limits config) = Inl err"
  shows "ingest_request config order contentType body t = Inl (reject config err 0)"
  using assms by (auto simp: ingest_request_def DecodeRequest_def request_limits_def valid_updater_def split: sum.splits)

text \<open>C11: The updater answers every request truthfully. A body that does not decode is rejected with its reason
  and the batcher never hears of it. A body that decodes always becomes one request that the batcher
  accepts as valid, whose increments hold for every counter key exactly the number of accesses of
  this request with that key, whatever the order of the map; the success status is sent exactly when
  the batcher reports no error, and no request is lost because an identity could not be encoded.\<close>

theorem ingest_answers:
  assumes "LoadConfig_updater frac lookup = Inr config" and "\<forall>incs. mset (order incs) = mset incs" and "0 \<le> t"
  shows "case DecodeRequest body contentType (request_limits config) of
      Inl err \<Rightarrow> ingest config order is_context submit contentType body t w
        = ((U_FailureStatus config, [Rejection (RejectionReason err), HTTPResult ''rejected'' 0]), w)
    | Inr records \<Rightarrow>
        \<exists>req. validateRequest (batcher_settings config) req = Inr () \<and> Events req = int (length records) \<and>
          (\<forall>k. delta_of (Increments req) k = access_total (U_InstanceID config) t records k) \<and>
          ingest config order is_context submit contentType body t w =
            (case submit req w of
               (None, w1) \<Rightarrow> ((U_SuccessStatus config, [HTTPResult ''success'' (int (length records))]), w1)
             | (Some err, w1) \<Rightarrow>
                 ((U_FailureStatus config, [Rejection (failure_reason is_context err), HTTPResult ''failed'' (int (length records))]), w1))"
proof (cases "DecodeRequest body contentType (request_limits config)")
  case (Inl err)
  then show ?thesis
    using undecoded_rejected [OF LoadConfig_updater_valid [OF assms(1)] Inl] by (simp add: ingest_def reject_def)
next
  case (Inr records)
  obtain req where req: "ingest_request config order contentType body t = Inr req" "Events req = int (length records)"
    "validateRequest (batcher_settings config) req = Inr ()" "exact_request req"
    "\<forall>k. delta_of (Increments req) k = access_total (U_InstanceID config) t records k"
    using ingest_request_built [OF LoadConfig_updater_valid [OF assms(1)] assms(2,3) Inr] by blast
  have "ingest config order is_context submit contentType body t w =
      (case submit req w of
         (None, w1) \<Rightarrow> ((U_SuccessStatus config, [HTTPResult ''success'' (int (length records))]), w1)
       | (Some err, w1) \<Rightarrow>
           ((U_FailureStatus config, [Rejection (failure_reason is_context err), HTTPResult ''failed'' (int (length records))]), w1))"
    unfolding ingest_def req(1) sum.case failBatch_def req(2) by (auto split: prod.split option.split)
  then show ?thesis unfolding Inr sum.case using req(2,3,5) by blast
qed

text \<open>Two accesses to one object and one to another.\<close>

definition demo_line :: "char \<Rightarrow> string" where
  "demo_line c =
     ''{'' @ [CHR 0x22] @ ''bucket'' @ [CHR 0x22] @ '':'' @ [CHR 0x22] @ ''b'' @ [CHR 0x22] @ '','' @
     [CHR 0x22] @ ''object'' @ [CHR 0x22] @ '':'' @ [CHR 0x22, c, CHR 0x22] @ ''}'' @ [CHR 0x0A]"

definition demo_reads :: "(string \<times> bool) list" where
  "demo_reads = [(demo_line CHR ''o'', False), (demo_line CHR ''p'' @ demo_line CHR ''o'', False)]"

lemma demo_reads_decode:
  "DecodeRequest demo_reads ''application/x-ndjson'' \<lparr>MaxBodyBytes = 1048576, MaxRecords = 1000\<rparr>
    = Inr [\<lparr>BucketName = ''b'', ObjectName = ''o''\<rparr>, \<lparr>BucketName = ''b'', ObjectName = ''p''\<rparr>, \<lparr>BucketName = ''b'', ObjectName = ''o''\<rparr>]"
proof -
  have "nat (wrap64 (1048576 + 1)) = 1048577" by (simp add: wrap64_mod)
  moreover have "read_limited 1048577 demo_reads = (demo_line CHR ''o'' @ demo_line CHR ''p'' @ demo_line CHR ''o'', False)"
    by (simp add: demo_reads_def demo_line_def)
  moreover have "validateContentType ''application/x-ndjson'' = Inr ''application/x-ndjson''"
    "utf8_valid (demo_line CHR ''o'' @ demo_line CHR ''p'' @ demo_line CHR ''o'')"
    "decodeNDJSON (demo_line CHR ''o'' @ demo_line CHR ''p'' @ demo_line CHR ''o'') 1000 =
     Inr [\<lparr>BucketName = ''b'', ObjectName = ''o''\<rparr>, \<lparr>BucketName = ''b'', ObjectName = ''p''\<rparr>, \<lparr>BucketName = ''b'', ObjectName = ''o''\<rparr>]"
    "length (demo_line CHR ''o'' @ demo_line CHR ''p'' @ demo_line CHR ''o'') = 84"
    by code_simp+
  moreover have "demo_line CHR ''o'' \<noteq> []" by (simp add: demo_line_def)
  ultimately show ?thesis by (simp add: DecodeRequest_def)
qed

lemma demo_updater_config:
  "\<exists>c. LoadConfig_updater (\<lambda>f scale unit. f * unit div scale) demo_updater_env = Inr c \<and>
     request_limits c = \<lparr>MaxBodyBytes = 1048576, MaxRecords = 1000\<rparr> \<and> U_InstanceID c = ''prod'' \<and> U_SuccessStatus c = 200 \<and>
     U_AccessRetention c = 72 * Hour"
  by (simp add: LoadConfig_updater_def updater_eval request_limits_def)

theorem ingest_answers_witness:
  "\<exists>c. LoadConfig_updater (\<lambda>f scale unit. f * unit div scale) demo_updater_env = Inr c \<and>
     fst (ingest c (\<lambda>incs. incs) (\<lambda>e. False) (\<lambda>req w. (None, req # w)) ''application/x-ndjson'' demo_reads (100 * Hour) [])
       = (200, [HTTPResult ''success'' 3])"
proof -
  obtain c where c: "LoadConfig_updater (\<lambda>f scale unit. f * unit div scale) demo_updater_env = Inr c"
    "request_limits c = \<lparr>MaxBodyBytes = 1048576, MaxRecords = 1000\<rparr>" "U_SuccessStatus c = 200"
    using demo_updater_config by blast
  from ingest_answers [OF c(1), where order = "\<lambda>incs. incs" and t = "100 * Hour" and body = demo_reads
      and contentType = "''application/x-ndjson''" and is_context = "\<lambda>e. False" and submit = "\<lambda>req w. (None, req # w)" and w = "[]"]
  show ?thesis using c by (auto simp: demo_reads_decode Hour_def Second_def)
qed

end
