(* ===== verification/Scanner.thy ===== *)
theory Scanner
  imports Tierer_Store
begin

text \<open>
  \<^verbatim>\<open>internal/tierer/scanner.go\<close>: the scan. The scanner reaches the world through the interfaces
  \<^verbatim>\<open>inventory\<close>, \<^verbatim>\<open>usageReader\<close> and \<^verbatim>\<open>stateStore\<close>, a clock and the context; here they are one record
  \<open>deps\<close> of calls over a world \<open>'w\<close>, with errors \<open>'e\<close>. The state of a run is the world and the
  \<open>trace\<close>: the calls to the observer, and of the calls to the dependencies those that read a chunk,
  stat an object, or change something. Each function returns the error, if any, and the new state.

  A listing is the list of what \<^verbatim>\<open>scanBucket\<close> receives in its \<^verbatim>\<open>select\<close>: an item of the stream, the
  inactivity timer, or the end of the context; the end of the list is the closed channel. Log
  lines and the per-operation timeouts are left out, a timeout being an error of the call.
\<close>

section \<open>The interfaces\<close>

datatype 'e listing_event = Item "'e + object" | Inactive | Done

record ('w, 'e) deps =
  inv_buckets :: "'w \<Rightarrow> ('e + string list) \<times> 'w"
  inv_objects :: "'w \<Rightarrow> string \<Rightarrow> string \<Rightarrow> 'e listing_event list \<times> 'w"
  inv_stat :: "'w \<Rightarrow> object \<Rightarrow> ('e + object) \<times> 'w"
  inv_plan :: "'w \<Rightarrow> object \<Rightarrow> string \<Rightarrow> string \<Rightarrow> ('e + marker_plan) \<times> 'w"
  inv_apply :: "'w \<Rightarrow> object \<Rightarrow> marker_plan \<Rightarrow> 'e option \<times> 'w"
  inv_restore :: "'w \<Rightarrow> object \<Rightarrow> int \<Rightarrow> ('e + bool) \<times> 'w"
  use_read :: "'w \<Rightarrow> object list \<Rightarrow> time list \<Rightarrow> time list \<Rightarrow> ('e + object_usage list \<times> bool list) \<times> 'w"
  st_load :: "'w \<Rightarrow> string \<Rightarrow> ('e + cursor option) \<times> 'w"
  st_save :: "'w \<Rightarrow> string \<Rightarrow> cursor \<Rightarrow> 'e option \<times> 'w"
  st_reset :: "'w \<Rightarrow> string \<Rightarrow> 'e option \<times> 'w"
  st_reserve :: "'w \<Rightarrow> time \<Rightarrow> budget_kind \<Rightarrow> budget_limit \<Rightarrow> int \<Rightarrow> ('e + reservation) \<times> 'w"
  clock_now :: "'w \<Rightarrow> time \<times> 'w"
  ctx_err :: "'w \<Rightarrow> bool"
  is_canceled :: "'e \<Rightarrow> bool"

record scanner_config =
  ApplyMode :: bool
  Policy :: policy
  RestoreDays :: int
  MarkerKey :: string
  MarkerValue :: string
  ChunkSize :: int
  CompletionDelay :: duration
  RetryDelay :: duration
  ExcludedBuckets :: "string list"
  ExcludedPrefixes :: "string list"
  Scope :: string
  TransitionBudget :: budget_limit
  RestoreBudget :: budget_limit
  OperationTimeout :: duration

text \<open>The calls to the observer, and the recorded calls to the dependencies.\<close>

datatype 'e event =
    ScanStarted
  | ScanFinished bool
  | ObjectHandled string
  | CoverageSkipped
  | CursorLoaded time
  | CursorSaved time
  | CursorWasReset
  | CursorError
  | BudgetObserved budget_kind reservation
  | BudgetExhausted budget_kind
  | MarkerObserved "marker_outcome option" bool
  | MarkerApplied marker_outcome
  | TransitionState bool
  | RestoreObserved action bool bool
  | RestoreApplied action
  | DependencyFailure string
  | Waited duration
  | CallReadChunk "object list"
  | CallStat object "'e + object"
  | CallReserve budget_kind int "'e + reservation"
  | CallApplyMarker object marker_plan "'e option"
  | CallRestore object int "'e + bool"
  | CallSaveCursor cursor "'e option"
  | CallResetCursor "'e option"

datatype 'e scan_error =
    ScanCancelled
  | InvalidConfiguration
  | NegativeBudget
  | AggregateKeys store_error
  | CursorLoadFailed 'e
  | BucketListFailed 'e
  | ObjectListFailed 'e
  | ListingInactive
  | EmptyObjectName
  | WindowFailed contract_error
  | UsageReadFailed 'e
  | UsageCountMismatch
  | EvaluateFailed eval_error
  | ReserveFailed 'e
  | CursorSaveFailed 'e
  | CursorResetFailed 'e

record ('w, 'e) scan =
  world :: 'w
  trace :: "'e event list"

record ('w, 'e) scanner =
  config :: scanner_config
  deps :: "('w, 'e) deps"

definition NewScanner :: "scanner_config \<Rightarrow> ('w, 'e) deps \<Rightarrow> ('w, 'e) scanner" where
  "NewScanner cfg d =
     \<lparr>config = (if RetryDelay cfg \<le> 0 then cfg\<lparr>RetryDelay := 30 * Second\<rparr> else cfg), deps = d\<rparr>"

definition emit :: "'e event \<Rightarrow> ('w, 'e) scan \<Rightarrow> ('w, 'e) scan" where
  "emit ev st = st\<lparr>trace := trace st @ [ev]\<rparr>"

text \<open>The state after a call that left the world \<open>w\<close>, with the call recorded.\<close>

definition called :: "'e event \<Rightarrow> 'w \<Rightarrow> ('w, 'e) scan \<Rightarrow> ('w, 'e) scan" where
  "called ev w st = st\<lparr>world := w, trace := trace st @ [ev]\<rparr>"

definition dependencyError :: "('w, 'e) scanner \<Rightarrow> string \<Rightarrow> 'e \<Rightarrow> ('w, 'e) scan \<Rightarrow> ('w, 'e) scan" where
  "dependencyError s dependency err st =
     (if is_canceled (deps s) err \<and> ctx_err (deps s) (world st) then st
      else emit (DependencyFailure dependency) st)"

section \<open>One object\<close>

definition action_text :: "action \<Rightarrow> string" where
  "action_text a = (case a of ActionNone \<Rightarrow> ''none'' | ActionMark \<Rightarrow> ''mark''
     | ActionRestore \<Rightarrow> ''restore'' | ActionRenew \<Rightarrow> ''renew'')"

definition outcome_text :: "marker_outcome \<Rightarrow> string" where
  "outcome_text out = (case out of MarkerMatched \<Rightarrow> ''matched'' | MarkerAdded \<Rightarrow> ''added''
     | MarkerReplaced \<Rightarrow> ''replaced'' | MarkerTagLimit \<Rightarrow> ''tag_limit'')"

definition handleMarker ::
    "('w, 'e) scanner \<Rightarrow> object \<Rightarrow> ('w, 'e) scan \<Rightarrow> 'e scan_error option \<times> ('w, 'e) scan" where
  "handleMarker s obj st =
     (case inv_plan (deps s) (world st) obj (MarkerKey (config s)) (MarkerValue (config s)) of
        (Inl err, w) \<Rightarrow>
          (None, emit (ObjectHandled ''marker_error'')
             (emit (MarkerObserved None True) (dependencyError s ''minio'' err (st\<lparr>world := w\<rparr>))))
      | (Inr plan, w) \<Rightarrow>
          let st1 = emit (MarkerObserved (Some (Outcome plan)) False) (st\<lparr>world := w\<rparr>)
          in if \<not> Required plan then (None, emit (ObjectHandled (''marker_'' @ outcome_text (Outcome plan))) st1)
             else if \<not> ApplyMode (config s) then (None, emit (ObjectHandled ''audit_mark'') st1)
             else (case clock_now (deps s) (world st1) of (now, w1) \<Rightarrow>
               (case st_reserve (deps s) w1 now BudgetTransition (TransitionBudget (config s)) (Size obj) of
                  (res, w2) \<Rightarrow>
                    let st2 = called (CallReserve BudgetTransition (Size obj) res) w2 st1
                    in case res of
                         Inl err \<Rightarrow> (Some (ReserveFailed err), dependencyError s ''redis'' err st2)
                       | Inr reservation \<Rightarrow>
                           let st3 = emit (BudgetObserved BudgetTransition reservation) st2
                           in if \<not> Allowed reservation
                              then (None, emit (ObjectHandled ''transition_budget_exhausted'')
                                      (emit (BudgetExhausted BudgetTransition) st3))
                              else (case inv_apply (deps s) (world st3) obj plan of
                                (Some err, w4) \<Rightarrow>
                                  (None, emit (ObjectHandled ''marker_error'')
                                     (emit (MarkerObserved (Some (Outcome plan)) True)
                                        (dependencyError s ''minio'' err (called (CallApplyMarker obj plan (Some err)) w4 st3))))
                              | (None, w4) \<Rightarrow>
                                  (None, emit (ObjectHandled ''marked'')
                                     (emit (MarkerApplied (Outcome plan)) (called (CallApplyMarker obj plan None) w4 st3)))))))"

definition handleRestore ::
    "('w, 'e) scanner \<Rightarrow> object \<Rightarrow> action \<Rightarrow> ('w, 'e) scan \<Rightarrow> 'e scan_error option \<times> ('w, 'e) scan" where
  "handleRestore s obj act st =
     (if \<not> ApplyMode (config s)
      then (None, emit (ObjectHandled (''audit_'' @ action_text act)) (emit (RestoreObserved act False False) st))
      else let bytes = (if act = ActionRenew then 0 else Size obj)
           in case clock_now (deps s) (world st) of (now, w1) \<Rightarrow>
             (case st_reserve (deps s) w1 now BudgetRestore (RestoreBudget (config s)) bytes of
                (res, w2) \<Rightarrow>
                  let st2 = called (CallReserve BudgetRestore bytes res) w2 st
                  in case res of
                       Inl err \<Rightarrow> (Some (ReserveFailed err), dependencyError s ''redis'' err st2)
                     | Inr reservation \<Rightarrow>
                         let st3 = emit (BudgetObserved BudgetRestore reservation) st2
                         in if \<not> Allowed reservation
                            then (None, emit (ObjectHandled ''restore_budget_exhausted'')
                                    (emit (BudgetExhausted BudgetRestore) st3))
                            else (case inv_restore (deps s) (world st3) obj (RestoreDays (config s)) of
                              (out, w4) \<Rightarrow>
                                let st4 = called (CallRestore obj (RestoreDays (config s)) out) w4 st3
                                in case out of
                                     Inl err \<Rightarrow>
                                       (None, emit (ObjectHandled ''restore_error'')
                                          (dependencyError s ''minio'' err (emit (RestoreObserved act False True) st4)))
                                   | Inr pending \<Rightarrow>
                                       let st5 = emit (RestoreObserved act pending False) st4
                                       in if pending then (None, emit (ObjectHandled ''restore_pending'') st5)
                                          else (None, emit (ObjectHandled (action_text act))
                                                  (emit (RestoreApplied act) st5)))))"

text \<open>The \<^verbatim>\<open>switch\<close> at the end of \<open>handleObject\<close>.\<close>

definition perform ::
    "('w, 'e) scanner \<Rightarrow> object \<Rightarrow> object_state \<Rightarrow> action \<Rightarrow> ('w, 'e) scan \<Rightarrow> 'e scan_error option \<times> ('w, 'e) scan" where
  "perform s obj state act st =
     (let st1 = emit (TransitionState (Transitioned state)) st
      in case act of
           ActionNone \<Rightarrow> (None, emit (ObjectHandled ''no_action'') st1)
         | ActionMark \<Rightarrow> handleMarker s obj st1
         | ActionRestore \<Rightarrow> handleRestore s obj ActionRestore st1
         | ActionRenew \<Rightarrow> handleRestore s obj ActionRenew st1)"

definition handleObject ::
    "('w, 'e) scanner \<Rightarrow> object \<Rightarrow> result \<Rightarrow> time \<Rightarrow> ('w, 'e) scan \<Rightarrow> 'e scan_error option \<times> ('w, 'e) scan" where
  "handleObject s listed_obj res chunkNow st =
     (let act = (if StateKnown listed_obj
                 then DecideAction (State listed_obj) (Low res) (High res) chunkNow else ActionNone)
      in if (\<not> StateKnown listed_obj \<and> (Low res \<or> High res)) \<or> act \<noteq> ActionNone
         then (case inv_stat (deps s) (world st) listed_obj of
                 (out, w) \<Rightarrow>
                   let st1 = called (CallStat listed_obj out) w st
                   in case out of
                        Inl err \<Rightarrow> (None, emit (ObjectHandled ''stat_error'') (dependencyError s ''minio'' err st1))
                      | Inr current \<Rightarrow>
                          if \<not> SameIdentity listed_obj current
                          then (None, emit (ObjectHandled ''identity_changed'') st1)
                          else perform s current (State current)
                                 (DecideAction (State current) (Low res) (High res) chunkNow) st1)
         else perform s listed_obj (State listed_obj) act st)"

section \<open>One chunk\<close>

fun evaluate_loop ::
    "('w, 'e) scanner \<Rightarrow> time \<Rightarrow> bool list \<Rightarrow> (object \<times> object_usage) list \<Rightarrow> ('w, 'e) scan \<Rightarrow>
       ('e scan_error + (object \<times> result) list) \<times> ('w, 'e) scan" where
  "evaluate_loop s hour coverage [] st = (Inr [], st)"
| "evaluate_loop s hour coverage ((obj, usage) # rest) st =
     (if ctx_err (deps s) (world st) then (Inl ScanCancelled, st)
      else case Evaluate \<lparr>EvalHour = hour, EvalLastModified = LastModified obj, LowCounts = UsageLow usage,
                   LowCoverage = coverage, HighCounts = UsageHigh usage\<rparr> (Policy (config s)) of
             Inl err \<Rightarrow> (Inl (EvaluateFailed err), st)
           | Inr res \<Rightarrow>
               let st1 = (if CoverageComplete res then st else emit CoverageSkipped st)
               in case evaluate_loop s hour coverage rest st1 of
                    (Inl err, st2) \<Rightarrow> (Inl err, st2)
                  | (Inr evaluated, st2) \<Rightarrow> (Inr ((obj, res) # evaluated), st2))"

fun handle_loop ::
    "('w, 'e) scanner \<Rightarrow> time \<Rightarrow> (object \<times> result) list \<Rightarrow> ('w, 'e) scan \<Rightarrow> 'e scan_error option \<times> ('w, 'e) scan" where
  "handle_loop s chunkNow [] st = (None, st)"
| "handle_loop s chunkNow ((obj, res) # rest) st =
     (case handleObject s obj res chunkNow st of
        (Some err, st1) \<Rightarrow> (Some err, st1)
      | (None, st1) \<Rightarrow> handle_loop s chunkNow rest st1)"

definition processChunk ::
    "('w, 'e) scanner \<Rightarrow> object list \<Rightarrow> ('w, 'e) scan \<Rightarrow> 'e scan_error option \<times> ('w, 'e) scan" where
  "processChunk s objects st =
     (case clock_now (deps s) (world st) of (chunkNow, w0) \<Rightarrow>
        let st0 = st\<lparr>world := w0\<rparr>;
            evaluationHour = truncate_time chunkNow Hour;
            policy = Policy (config s)
        in case HourWindow evaluationHour (LowWindowHours policy) False of
             Inl err \<Rightarrow> (Some (WindowFailed err), st0)
           | Inr lowHours \<Rightarrow>
               (case HourWindow evaluationHour (HighWindowHours policy) (HighIncludeCurrent policy) of
                  Inl err \<Rightarrow> (Some (WindowFailed err), st0)
                | Inr highHours \<Rightarrow>
                    (case use_read (deps s) (world st0) objects lowHours highHours of
                       (read, w1) \<Rightarrow>
                         let st1 = called (CallReadChunk objects) w1 st0
                         in case read of
                              Inl err \<Rightarrow> (Some (UsageReadFailed err), dependencyError s ''redis'' err st1)
                            | Inr (chunkUsage, coverage) \<Rightarrow>
                                if length chunkUsage \<noteq> length objects then (Some UsageCountMismatch, st1)
                                else (case evaluate_loop s evaluationHour coverage (zip objects chunkUsage) st1 of
                                   (Inl err, st2) \<Rightarrow> (Some err, st2)
                                 | (Inr evaluated, st2) \<Rightarrow>
                                     (case handle_loop s chunkNow evaluated st2 of
                                        (Some err, st3) \<Rightarrow> (Some err, st3)
                                      | (None, st3) \<Rightarrow>
                                          let lst = last objects;
                                              cur = \<lparr>CursorBucket = Bucket lst, CursorObject = Name lst, UpdatedAt = chunkNow\<rparr>
                                          in case st_save (deps s) (world st3) (Scope (config s)) cur of
                                               (Some err, w4) \<Rightarrow>
                                                 (Some (CursorSaveFailed err),
                                                  dependencyError s ''redis'' err
                                                    (emit CursorError (called (CallSaveCursor cur (Some err)) w4 st3)))
                                             | (None, w4) \<Rightarrow>
                                                 (None, emit (CursorSaved chunkNow)
                                                          (called (CallSaveCursor cur None) w4 st3)))))))"

section \<open>One bucket\<close>

definition has_suffix :: "string \<Rightarrow> string \<Rightarrow> bool" where
  "has_suffix s suffix \<longleftrightarrow> has_prefix (rev s) (rev suffix)"

definition is_directory :: "object \<Rightarrow> bool" where
  "is_directory obj \<longleftrightarrow> Size obj = 0 \<and> has_suffix (Name obj) ''/''"

fun bucket_loop ::
    "('w, 'e) scanner \<Rightarrow> object list \<Rightarrow> 'e listing_event list \<Rightarrow> ('w, 'e) scan \<Rightarrow>
       'e scan_error option \<times> ('w, 'e) scan" where
  "bucket_loop s chunk [] st = (if chunk \<noteq> [] then processChunk s chunk st else (None, st))"
| "bucket_loop s chunk (Done # stream) st = (Some ScanCancelled, st)"
| "bucket_loop s chunk (Inactive # stream) st =
     (if OperationTimeout (config s) > 0 then (Some ListingInactive, emit (DependencyFailure ''minio'') st)
      else bucket_loop s chunk stream st)"
| "bucket_loop s chunk (Item (Inl err) # stream) st =
     (Some (ObjectListFailed err), dependencyError s ''minio'' err st)"
| "bucket_loop s chunk (Item (Inr obj) # stream) st =
     (if Name obj = [] then (Some EmptyObjectName, st)
      else if is_directory obj then bucket_loop s chunk stream (emit (ObjectHandled ''directory_skipped'') st)
      else let chunk1 = chunk @ [obj]
           in if int (length chunk1) = ChunkSize (config s)
              then (case processChunk s chunk1 st of
                      (Some err, st1) \<Rightarrow> (Some err, st1)
                    | (None, st1) \<Rightarrow> bucket_loop s [] stream st1)
              else bucket_loop s chunk1 stream st)"

definition scanBucket ::
    "('w, 'e) scanner \<Rightarrow> string \<Rightarrow> string \<Rightarrow> ('w, 'e) scan \<Rightarrow> 'e scan_error option \<times> ('w, 'e) scan" where
  "scanBucket s bucket startAfter st =
     (case inv_objects (deps s) (world st) bucket startAfter of
        (stream, w) \<Rightarrow> bucket_loop s [] stream (st\<lparr>world := w\<rparr>))"

section \<open>One scan\<close>

definition validate :: "scanner_config \<Rightarrow> ('e scan_error) option" where
  "validate cfg =
     (if ChunkSize cfg \<le> 0 \<or> LowWindowHours (Policy cfg) \<le> 0 \<or> HighWindowHours (Policy cfg) \<le> 0 \<or>
         RestoreDays cfg \<le> 0 \<or> MarkerKey cfg = [] \<or> MarkerValue cfg = [] \<or> Scope cfg = []
      then Some InvalidConfiguration
      else if ApplyMode cfg \<and> (Attempts (TransitionBudget cfg) < 0 \<or> Bytes (TransitionBudget cfg) < 0 \<or>
              Attempts (RestoreBudget cfg) < 0 \<or> Bytes (RestoreBudget cfg) < 0)
      then Some NegativeBudget
      else case validateAggregateAccessKeys (ChunkSize cfg) (LowWindowHours (Policy cfg))
                  (HighWindowHours (Policy cfg)) maxRedisAccessKeysPerChunk of
             Inl err \<Rightarrow> Some (AggregateKeys err)
           | Inr _ \<Rightarrow> None)"

definition excluded :: "scanner_config \<Rightarrow> string \<Rightarrow> bool" where
  "excluded cfg bucket \<longleftrightarrow>
     list_ex (\<lambda>exact. bucket = exact) (ExcludedBuckets cfg) \<or>
     list_ex (\<lambda>prefix. has_prefix bucket prefix) (ExcludedPrefixes cfg)"

fun buckets_loop ::
    "('w, 'e) scanner \<Rightarrow> cursor option \<Rightarrow> string list \<Rightarrow> ('w, 'e) scan \<Rightarrow> 'e scan_error option \<times> ('w, 'e) scan" where
  "buckets_loop s cur [] st = (None, st)"
| "buckets_loop s cur (bucket # rest) st =
     (if excluded (config s) bucket \<or> (case cur of None \<Rightarrow> False | Some c \<Rightarrow> bucket < CursorBucket c)
      then buckets_loop s cur rest st
      else let startAfter = (case cur of None \<Rightarrow> [] | Some c \<Rightarrow> if bucket = CursorBucket c then CursorObject c else [])
           in case scanBucket s bucket startAfter st of
                (Some err, st1) \<Rightarrow> (Some err, st1)
              | (None, st1) \<Rightarrow> buckets_loop s cur rest st1)"

definition scan_body ::
    "('w, 'e) scanner \<Rightarrow> ('w, 'e) scan \<Rightarrow> 'e scan_error option \<times> ('w, 'e) scan" where
  "scan_body s st =
     (case validate (config s) of
        Some err \<Rightarrow> (Some err, st)
      | None \<Rightarrow>
          (case st_load (deps s) (world st) (Scope (config s)) of
             (Inl err, w) \<Rightarrow>
               (Some (CursorLoadFailed err), dependencyError s ''redis'' err (emit CursorError (st\<lparr>world := w\<rparr>)))
           | (Inr cur, w) \<Rightarrow>
               let st1 = (case cur of None \<Rightarrow> st\<lparr>world := w\<rparr> | Some c \<Rightarrow> emit (CursorLoaded (UpdatedAt c)) (st\<lparr>world := w\<rparr>))
               in case inv_buckets (deps s) (world st1) of
                    (Inl err, w1) \<Rightarrow>
                      (Some (BucketListFailed err), dependencyError s ''minio'' err (st1\<lparr>world := w1\<rparr>))
                  | (Inr buckets, w1) \<Rightarrow>
                      (case buckets_loop s cur (slicesSort buckets) (st1\<lparr>world := w1\<rparr>) of
                         (Some err, st2) \<Rightarrow> (Some err, st2)
                       | (None, st2) \<Rightarrow>
                           (case st_reset (deps s) (world st2) (Scope (config s)) of
                              (Some err, w3) \<Rightarrow>
                                (Some (CursorResetFailed err),
                                 dependencyError s ''redis'' err (emit CursorError (called (CallResetCursor (Some err)) w3 st2)))
                            | (None, w3) \<Rightarrow>
                                (None, emit CursorWasReset (called (CallResetCursor None) w3 st2))))))"

text \<open>\<open>lock\<close> says whether the first \<^verbatim>\<open>select\<close> took the scan lock, or saw the context end.\<close>

definition ScanOnce ::
    "('w, 'e) scanner \<Rightarrow> bool \<Rightarrow> ('w, 'e) scan \<Rightarrow> 'e scan_error option \<times> ('w, 'e) scan" where
  "ScanOnce s lock st =
     (if \<not> lock then (Some ScanCancelled, st)
      else case scan_body s (emit ScanStarted st) of
             (err, st1) \<Rightarrow> (err, emit (ScanFinished (err = None)) st1))"

text \<open>
  \<open>Run\<close>: the rounds of the loop, each with the branch its \<^verbatim>\<open>select\<close>s take: the lock, and whether the
  wait ends with the context. \<open>False\<close> is a loop that still runs after the given rounds.
\<close>

fun Run :: "('w, 'e) scanner \<Rightarrow> (bool \<times> bool) list \<Rightarrow> ('w, 'e) scan \<Rightarrow> bool \<times> ('w, 'e) scan" where
  "Run s [] st = (False, st)"
| "Run s ((lock, cancelled_waiting) # rounds) st =
     (case ScanOnce s lock st of
        (err, st1) \<Rightarrow>
          if ctx_err (deps s) (world st1) then (True, st1)
          else let delay = (if err = None then CompletionDelay (config s) else RetryDelay (config s))
               in if cancelled_waiting then (True, st1) else Run s rounds (emit (Waited delay) st1))"

end
