(* ===== verification/Scanner_Laws.thy ===== *)
theory Scanner_Laws
  imports Scanner
begin

text \<open>
  Laws of a scan: the locales below carry a fact from one object, one chunk or one call through all
  the loops of the scan to a whole run.
\<close>

section \<open>The trace grows\<close>

definition adds :: "('e event list \<Rightarrow> bool) \<Rightarrow> ('w, 'e) scan \<Rightarrow> ('w, 'e) scan \<Rightarrow> bool" where
  "adds P st st' \<longleftrightarrow> (\<exists>evs. trace st' = trace st @ evs \<and> P evs)"

lemma trace_simps [simp]:
  "trace (emit ev st) = trace st @ [ev]" "trace (called ev w st) = trace st @ [ev]"
  "world (emit ev st) = world st" "world (called ev w st) = w"
  by (simp_all add: emit_def called_def)

lemma dependencyError_trace:
  "trace (dependencyError s d err st) = trace st \<or> trace (dependencyError s d err st) = trace st @ [DependencyFailure d]"
  by (simp add: dependencyError_def)

lemma dependencyError_world [simp]: "world (dependencyError s d err st) = world st"
  by (simp add: dependencyError_def)

text \<open>The events of the loops around the objects.\<close>

fun outer_event :: "'e event \<Rightarrow> bool" where
  "outer_event ScanStarted = True"
| "outer_event (ScanFinished ok) = True"
| "outer_event (ObjectHandled x) = (x = ''directory_skipped'')"
| "outer_event CoverageSkipped = True"
| "outer_event (CursorLoaded t) = True"
| "outer_event (CursorSaved t) = True"
| "outer_event CursorWasReset = True"
| "outer_event CursorError = True"
| "outer_event (DependencyFailure d) = True"
| "outer_event (CallReadChunk objs) = True"
| "outer_event (CallSaveCursor c r) = True"
| "outer_event (CallResetCursor r) = True"
| "outer_event (Waited d) = True"
| "outer_event _ = False"

text \<open>
  The ways a chunk can go: no window or no usable reply, an object that cannot be evaluated, one that
  stops the scan, a cursor that is not saved, and the chunk that is done.
\<close>

definition chunk_cursor :: "object list \<Rightarrow> time \<Rightarrow> cursor" where
  "chunk_cursor objs now = \<lparr>CursorBucket = Bucket (last objs), CursorObject = Name (last objs), UpdatedAt = now\<rparr>"

definition chunk_windows :: "('w, 'e) scanner \<Rightarrow> time \<Rightarrow> time \<Rightarrow> time list \<Rightarrow> time list \<Rightarrow> bool" where
  "chunk_windows s now hour lows highs \<longleftrightarrow> hour = truncate_time now Hour \<and>
     HourWindow hour (LowWindowHours (Policy (config s))) False = Inr lows \<and>
     HourWindow hour (HighWindowHours (Policy (config s))) (HighIncludeCurrent (Policy (config s))) = Inr highs"

inductive chunk_run ::
    "('w, 'e) scanner \<Rightarrow> object list \<Rightarrow> ('w, 'e) scan \<Rightarrow> 'e scan_error option \<Rightarrow> ('w, 'e) scan \<Rightarrow> bool"
  for s :: "('w, 'e) scanner" and objs :: "object list" and st :: "('w, 'e) scan"
where
  no_window: "clock_now (deps s) (world st) = (now, w0) \<Longrightarrow>
     chunk_run s objs st (Some (WindowFailed e)) (st\<lparr>world := w0\<rparr>)"
| unread: "clock_now (deps s) (world st) = (now, w0) \<Longrightarrow> use_read (deps s) w0 objs lows highs = (rd, w1) \<Longrightarrow>
     st1 = called (CallReadChunk objs) w1 (st\<lparr>world := w0\<rparr>) \<Longrightarrow>
     st' = st1 \<or> (\<exists>e. st' = dependencyError s ''redis'' e st1) \<Longrightarrow> chunk_run s objs st (Some err) st'"
| unevaluated: "clock_now (deps s) (world st) = (now, w0) \<Longrightarrow>
     use_read (deps s) w0 objs lows highs = (Inr (usage, cov), w1) \<Longrightarrow> length usage = length objs \<Longrightarrow>
     evaluate_loop s hour cov (zip objs usage) (called (CallReadChunk objs) w1 (st\<lparr>world := w0\<rparr>)) = (Inl err, st') \<Longrightarrow>
     chunk_windows s now hour lows highs \<Longrightarrow> chunk_run s objs st (Some err) st'"
| unhandled: "clock_now (deps s) (world st) = (now, w0) \<Longrightarrow>
     use_read (deps s) w0 objs lows highs = (Inr (usage, cov), w1) \<Longrightarrow> length usage = length objs \<Longrightarrow>
     evaluate_loop s hour cov (zip objs usage) (called (CallReadChunk objs) w1 (st\<lparr>world := w0\<rparr>)) = (Inr items, st2) \<Longrightarrow>
     handle_loop s now items st2 = (Some err, st') \<Longrightarrow> chunk_windows s now hour lows highs \<Longrightarrow> chunk_run s objs st (Some err) st'"
| unsaved: "clock_now (deps s) (world st) = (now, w0) \<Longrightarrow>
     use_read (deps s) w0 objs lows highs = (Inr (usage, cov), w1) \<Longrightarrow> length usage = length objs \<Longrightarrow>
     evaluate_loop s hour cov (zip objs usage) (called (CallReadChunk objs) w1 (st\<lparr>world := w0\<rparr>)) = (Inr items, st2) \<Longrightarrow>
     handle_loop s now items st2 = (None, st3) \<Longrightarrow>
     st_save (deps s) (world st3) (Scope (config s)) (chunk_cursor objs now) = (Some e, w4) \<Longrightarrow>
     chunk_windows s now hour lows highs \<Longrightarrow> chunk_run s objs st (Some (CursorSaveFailed e))
       (dependencyError s ''redis'' e (emit CursorError (called (CallSaveCursor (chunk_cursor objs now) (Some e)) w4 st3)))"
| chunk_done: "clock_now (deps s) (world st) = (now, w0) \<Longrightarrow>
     use_read (deps s) w0 objs lows highs = (Inr (usage, cov), w1) \<Longrightarrow> length usage = length objs \<Longrightarrow>
     evaluate_loop s hour cov (zip objs usage) (called (CallReadChunk objs) w1 (st\<lparr>world := w0\<rparr>)) = (Inr items, st2) \<Longrightarrow>
     handle_loop s now items st2 = (None, st3) \<Longrightarrow>
     st_save (deps s) (world st3) (Scope (config s)) (chunk_cursor objs now) = (None, w4) \<Longrightarrow>
     chunk_windows s now hour lows highs \<Longrightarrow> chunk_run s objs st None (emit (CursorSaved now) (called (CallSaveCursor (chunk_cursor objs now) None) w4 st3))"

lemma processChunk_run:
  assumes run: "processChunk s objs st = (err, st')"
  shows "chunk_run s objs st err st'"
proof -
  obtain now w0 where now: "clock_now (deps s) (world st) = (now, w0)" by fastforce
  define hour where "hour = truncate_time now Hour"
  show ?thesis
  proof (cases "\<exists>lows highs. HourWindow hour (LowWindowHours (Policy (config s))) False = Inr lows \<and>
      HourWindow hour (HighWindowHours (Policy (config s))) (HighIncludeCurrent (Policy (config s))) = Inr highs")
    case False
    then show ?thesis
      using run now chunk_run.no_window [OF now] by (auto simp: processChunk_def Let_def hour_def split: sum.splits)
  next
    case True
    then obtain lows highs where win: "HourWindow hour (LowWindowHours (Policy (config s))) False = Inr lows"
      "HourWindow hour (HighWindowHours (Policy (config s))) (HighIncludeCurrent (Policy (config s))) = Inr highs" by blast
    then have windows: "chunk_windows s now hour lows highs" by (simp add: chunk_windows_def hour_def)
    obtain rd w1 where rd: "use_read (deps s) w0 objs lows highs = (rd, w1)" by fastforce
    define st1 where "st1 = called (CallReadChunk objs) w1 (st\<lparr>world := w0\<rparr>)"
    show ?thesis
    proof (cases "\<exists>usage cov. rd = Inr (usage, cov) \<and> length usage = length objs")
      case False
      then have "(st' = st1 \<or> (\<exists>e. st' = dependencyError s ''redis'' e st1)) \<and> err \<noteq> None"
        using run now win rd by (cases rd) (auto simp: processChunk_def Let_def hour_def st1_def)
      then show ?thesis using chunk_run.unread [OF now rd st1_def] by auto
    next
      case True
      then obtain usage cov where u: "rd = Inr (usage, cov)" "length usage = length objs" by blast
      obtain ev st2 where ev: "evaluate_loop s hour cov (zip objs usage) st1 = (ev, st2)" by fastforce
      note read = now rd [unfolded u(1)] u(2)
      show ?thesis
      proof (cases ev)
        case (Inl e)
        then have "err = Some e" "st' = st2"
          using run now win rd u ev by (auto simp: processChunk_def Let_def hour_def st1_def)
        then show ?thesis using chunk_run.unevaluated [OF read ev [unfolded st1_def Inl] windows] by simp
      next
        case (Inr items)
        obtain he st3 where he: "handle_loop s now items st2 = (he, st3)" by fastforce
        obtain se w4 where save: "st_save (deps s) (world st3) (Scope (config s)) (chunk_cursor objs now) = (se, w4)"
          by fastforce
        note handled = read ev [unfolded st1_def Inr]
        have "processChunk s objs st = (case he of
            Some e \<Rightarrow> (Some e, st3)
          | None \<Rightarrow> (case se of
              Some e \<Rightarrow> (Some (CursorSaveFailed e), dependencyError s ''redis'' e (emit CursorError
                (called (CallSaveCursor (chunk_cursor objs now) (Some e)) w4 st3)))
            | None \<Rightarrow> (None, emit (CursorSaved now) (called (CallSaveCursor (chunk_cursor objs now) None) w4 st3))))"
          using now win rd u ev Inr he save
          by (auto simp: processChunk_def Let_def hour_def st1_def chunk_cursor_def split: option.splits)
        then show ?thesis
          using run chunk_run.unhandled [OF handled _ windows] chunk_run.unsaved [OF handled _ _ windows]
            chunk_run.chunk_done [OF handled _ _ windows] he save
          by (cases he; cases se) auto
      qed
    qed
  qed
qed

text \<open>The calls of the observer.\<close>

fun plain_event :: "'e event \<Rightarrow> bool" where
  "plain_event (CallReadChunk objs) = False"
| "plain_event (CallStat obj r) = False"
| "plain_event (CallReserve kind bytes r) = False"
| "plain_event (CallApplyMarker obj plan r) = False"
| "plain_event (CallRestore obj days r) = False"
| "plain_event (CallSaveCursor c r) = False"
| "plain_event (CallResetCursor r) = False"
| "plain_event _ = True"

text \<open>Those of the loops over the buckets, and those around them.\<close>

fun loop_event :: "'e event \<Rightarrow> bool" where
  "loop_event (ObjectHandled x) = (x = ''directory_skipped'')"
| "loop_event CursorError = True"
| "loop_event (DependencyFailure d) = True"
| "loop_event _ = False"

fun frame_event :: "'e event \<Rightarrow> bool" where
  "frame_event ScanStarted = True"
| "frame_event (ScanFinished ok) = True"
| "frame_event (CursorLoaded t) = True"
| "frame_event (Waited d) = True"
| "frame_event _ = False"

lemma event_classes: "loop_event ev \<Longrightarrow> outer_event ev \<and> plain_event ev" "frame_event ev \<Longrightarrow> outer_event ev \<and> plain_event ev"
  by (cases ev; simp)+

text \<open>
  A law of a scan is a reflexive and transitive relation between its states. \<open>chunk_law\<close> asks it of one
  object and carries it through the loops of \<open>processChunk\<close>; \<open>bucket_law\<close> asks it of one chunk and carries
  it through the loop over the buckets, \<open>traversal_law\<close> through the whole run. \<open>loops_law\<close> and \<open>scan_law\<close>
  ask it of an object and of the calls around a chunk, and are cases of the two; \<open>trace_law\<close> is a law
  of the events alone.
\<close>

locale relation_law =
  fixes s :: "('w, 'e) scanner" and R :: "('w, 'e) scan \<Rightarrow> ('w, 'e) scan \<Rightarrow> bool"
  assumes R_refl: "R st st"
    and R_trans: "R st st1 \<Longrightarrow> R st1 st2 \<Longrightarrow> R st st2"

locale chunk_law = relation_law s R
  for s :: "('w, 'e) scanner" and R :: "('w, 'e) scan \<Rightarrow> ('w, 'e) scan \<Rightarrow> bool" +
  assumes R_skip: "R st (emit CoverageSkipped st)"
    and R_object: "handleObject s obj res now st = (err, st') \<Longrightarrow> R st st'"
begin

lemma R_evaluate: "evaluate_loop s hour cov items st = (out, st') \<Longrightarrow> R st st'"
proof (induction items arbitrary: st out)
  case (Cons item items)
  obtain obj usage where item: "item = (obj, usage)" by (cases item)
  show ?case
  proof (cases "ctx_err (deps s) (world st)")
    case True
    then show ?thesis using Cons.prems item by (simp add: R_refl)
  next
    case False
    show ?thesis
    proof (cases "Evaluate \<lparr>EvalHour = hour, EvalLastModified = LastModified obj, LowCounts = UsageLow usage,
                   LowCoverage = cov, HighCounts = UsageHigh usage\<rparr> (Policy (config s))")
      case (Inl err)
      then show ?thesis using Cons.prems item False by (simp add: R_refl)
    next
      case (Inr res)
      define st1 where "st1 = (if CoverageComplete res then st else emit CoverageSkipped st)"
      obtain out1 where "evaluate_loop s hour cov items st1 = (out1, st')"
        using Cons.prems item False Inr by (auto simp: st1_def Let_def split: prod.splits sum.splits)
      from Cons.IH [OF this] have "R st1 st'" .
      moreover have "R st st1" by (simp add: st1_def R_refl R_skip)
      ultimately show ?thesis by (rule R_trans [rotated])
    qed
  qed
qed (simp add: R_refl)

lemma R_handle: "handle_loop s now items st = (err, st') \<Longrightarrow> R st st'"
proof (induction items arbitrary: st)
  case (Cons item items)
  obtain obj res where item: "item = (obj, res)" by (cases item)
  obtain e st1 where h: "handleObject s obj res now st = (e, st1)" by fastforce
  have "R st st1" by (rule R_object [OF h])
  moreover have "R st1 st'" using Cons h item by (cases e) (auto simp: R_refl)
  ultimately show ?case by (rule R_trans)
qed (simp add: R_refl)

end

locale emit_law = relation_law s R
  for s :: "('w, 'e) scanner" and R :: "('w, 'e) scan \<Rightarrow> ('w, 'e) scan \<Rightarrow> bool" +
  assumes R_emit: "loop_event ev \<Longrightarrow> R st (emit ev st)"
begin

lemma R_dependencyError: "R st (dependencyError s d err st)"
  using R_refl R_emit by (simp add: dependencyError_def)

lemma R_fail: "R st st1 \<Longrightarrow> R st (dependencyError s d err (emit CursorError st1))"
  using R_trans [OF R_trans [OF _ R_emit [of CursorError]] R_dependencyError] by simp

lemma R_then_emit: "R st st1 \<Longrightarrow> loop_event ev \<Longrightarrow> R st (emit ev st1)"
  using R_trans R_emit by blast

lemma R_then_error: "R st st1 \<Longrightarrow> R st (dependencyError s d err st1)"
  using R_trans R_dependencyError by blast

end

locale bucket_law = emit_law s R
  for s :: "('w, 'e) scanner" and R :: "('w, 'e) scan \<Rightarrow> ('w, 'e) scan \<Rightarrow> bool" +
  assumes R_objects: "inv_objects (deps s) (world st) bucket start = (stream, w) \<Longrightarrow> R st (st\<lparr>world := w\<rparr>)"
    and R_chunk: "processChunk s objs st = (err, st') \<Longrightarrow> R st st'"
begin

lemma R_bucket_loop: "bucket_loop s chunk stream st = (err, st') \<Longrightarrow> R st st'"
proof (induction stream arbitrary: chunk st)
  case Nil
  then show ?case by (auto simp: R_refl intro: R_chunk split: if_splits)
next
  case (Cons ev stream)
  show ?case
  proof (cases ev)
    case (Item r)
    show ?thesis
    proof (cases r)
      case (Inl e)
      then show ?thesis using Cons.prems Item by (auto simp: R_dependencyError)
    next
      case (Inr obj)
      consider (empty) "Name obj = []" | (dir) "Name obj \<noteq> []" "is_directory obj"
        | (full) "Name obj \<noteq> []" "\<not> is_directory obj" "int (length (chunk @ [obj])) = ChunkSize (config s)"
        | (more) "Name obj \<noteq> []" "\<not> is_directory obj" "int (length (chunk @ [obj])) \<noteq> ChunkSize (config s)"
        by blast
      then show ?thesis
      proof cases
        case empty
        then show ?thesis using Cons.prems Item Inr by (simp add: R_refl)
      next
        case dir
        then have "bucket_loop s chunk stream (emit (ObjectHandled ''directory_skipped'') st) = (err, st')"
          using Cons.prems Item Inr by simp
        from R_trans [OF R_emit Cons.IH [OF this]] show ?thesis by simp
      next
        case full
        obtain pe st1 where pc: "processChunk s (chunk @ [obj]) st = (pe, st1)" by fastforce
        note st1 = R_chunk [OF pc]
        show ?thesis
        proof (cases pe)
          case None
          then have "bucket_loop s [] stream st1 = (err, st')" using Cons.prems Item Inr full pc by simp
          from R_trans [OF st1 Cons.IH [OF this]] show ?thesis .
        next
          case (Some e)
          then show ?thesis using Cons.prems Item Inr full pc st1 by simp
        qed
      next
        case more
        then have "bucket_loop s (chunk @ [obj]) stream st = (err, st')" using Cons.prems Item Inr by simp
        then show ?thesis by (rule Cons.IH)
      qed
    qed
  next
    case Inactive
    then show ?thesis
      using Cons.prems Cons.IH R_emit [of "DependencyFailure ''minio''" st]
      by (auto split: if_splits)
  next
    case Done
    then show ?thesis using Cons.prems by (simp add: R_refl)
  qed
qed

lemma R_scanBucket: "scanBucket s bucket start st = (err, st') \<Longrightarrow> R st st'"
proof -
  assume run: "scanBucket s bucket start st = (err, st')"
  obtain stream w where obj: "inv_objects (deps s) (world st) bucket start = (stream, w)" by fastforce
  then have "bucket_loop s [] stream (st\<lparr>world := w\<rparr>) = (err, st')" using run by (simp add: scanBucket_def)
  from R_trans [OF R_objects [OF obj] R_bucket_loop [OF this]] show ?thesis .
qed

lemma R_buckets_loop: "buckets_loop s cur buckets st = (err, st') \<Longrightarrow> R st st'"
proof (induction buckets arbitrary: st)
  case (Cons bucket buckets)
  show ?case
  proof (cases "excluded (config s) bucket \<or> (case cur of None \<Rightarrow> False | Some c \<Rightarrow> bucket < CursorBucket c)")
    case True
    then show ?thesis using Cons by simp
  next
    case False
    define start where "start = (case cur of None \<Rightarrow> [] | Some c \<Rightarrow> if bucket = CursorBucket c then CursorObject c else [])"
    obtain e st1 where sb: "scanBucket s bucket start st = (e, st1)" by fastforce
    note st1 = R_scanBucket [OF sb]
    show ?thesis
    proof (cases e)
      case None
      then have "buckets_loop s cur buckets st1 = (err, st')"
        using Cons.prems False sb by (simp add: start_def Let_def)
      from R_trans [OF st1 Cons.IH [OF this]] show ?thesis .
    next
      case (Some x)
      then show ?thesis using Cons.prems False sb st1 by (simp add: start_def Let_def)
    qed
  qed
qed (simp add: R_refl)

end

locale traversal_law = bucket_law s R
  for s :: "('w, 'e) scanner" and R :: "('w, 'e) scan \<Rightarrow> ('w, 'e) scan \<Rightarrow> bool" +
  assumes R_frame: "frame_event ev \<Longrightarrow> R st (emit ev st)"
    and R_buckets: "inv_buckets (deps s) (world st) = (bs, w) \<Longrightarrow> R st (st\<lparr>world := w\<rparr>)"
    and R_load: "st_load (deps s) (world st) scope = (cur, w) \<Longrightarrow> R st (st\<lparr>world := w\<rparr>)"
    and R_reset: "st_reset (deps s) (world st) scope = (None, w) \<Longrightarrow>
          R st (emit CursorWasReset (called (CallResetCursor None) w st))"
    and R_reset_failed: "st_reset (deps s) (world st) scope = (Some e, w) \<Longrightarrow>
          R st (called (CallResetCursor (Some e)) w st)"
begin

lemma R_then_frame: "R st st1 \<Longrightarrow> frame_event ev \<Longrightarrow> R st (emit ev st1)"
  using R_trans R_frame by blast

lemma R_scan_body: "scan_body s st = (err, st') \<Longrightarrow> R st st'"
proof -
  assume run: "scan_body s st = (err, st')"
  obtain ld w where ld: "st_load (deps s) (world st) (Scope (config s)) = (ld, w)" by fastforce
  note st0 = R_load [OF ld]
  show ?thesis
  proof (cases "(validate (config s) :: 'e scan_error option) = None \<and> (\<exists>cur. ld = Inr cur)")
    case False
    then have "st' = st \<or> (\<exists>e. st' = dependencyError s ''redis'' e (emit CursorError (st\<lparr>world := w\<rparr>)))"
      using run ld by (cases ld; cases "validate (config s) :: 'e scan_error option") (auto simp: scan_body_def)
    then show ?thesis using R_refl R_fail [OF st0] by auto
  next
    case True
    then obtain cur where v: "(validate (config s) :: 'e scan_error option) = None" and cur: "ld = Inr cur" by blast
    define st1 where "st1 = (case cur of None \<Rightarrow> st\<lparr>world := w\<rparr> | Some c \<Rightarrow> emit (CursorLoaded (UpdatedAt c)) (st\<lparr>world := w\<rparr>))"
    have st1: "R st st1" using st0 R_then_frame [OF st0] by (auto simp: st1_def split: option.splits)
    obtain bs w1 where bs: "inv_buckets (deps s) (world st1) = (bs, w1)" by fastforce
    have st1w: "R st (st1\<lparr>world := w1\<rparr>)" using R_trans [OF st1 R_buckets [OF bs]] .
    show ?thesis
    proof (cases bs)
      case (Inl e)
      then have "st' = dependencyError s ''minio'' e (st1\<lparr>world := w1\<rparr>)"
        using run ld v cur bs by (simp add: scan_body_def st1_def Let_def)
      then show ?thesis using R_then_error [OF st1w] by simp
    next
      case (Inr buckets)
      obtain be st2 where bl: "buckets_loop s cur (slicesSort buckets) (st1\<lparr>world := w1\<rparr>) = (be, st2)" by fastforce
      have st2: "R st st2" using R_trans [OF st1w R_buckets_loop [OF bl]] .
      obtain re w3 where re: "st_reset (deps s) (world st2) (Scope (config s)) = (re, w3)" by fastforce
      have none: "R st (emit CursorWasReset (called (CallResetCursor None) w3 st2))" if "re = None"
        using R_trans [OF st2 R_reset] re that by blast
      have some: "R st (dependencyError s ''redis'' e (emit CursorError (called (CallResetCursor (Some e)) w3 st2)))"
        if "re = Some e" for e
        using R_fail [OF R_trans [OF st2 R_reset_failed]] re that by blast
      have "be \<noteq> None \<Longrightarrow> st' = st2"
        using run ld v cur bs Inr bl by (auto simp: scan_body_def st1_def [symmetric])
      moreover have "be = None \<Longrightarrow> st' = (case re of
          None \<Rightarrow> emit CursorWasReset (called (CallResetCursor None) w3 st2)
        | Some e \<Rightarrow> dependencyError s ''redis'' e (emit CursorError (called (CallResetCursor (Some e)) w3 st2)))"
        using run ld v cur bs Inr bl re by (auto simp: scan_body_def st1_def [symmetric] split: option.splits)
      ultimately show ?thesis
        using st2 none some by (cases be; cases re) auto
    qed
  qed
qed

lemma R_ScanOnce: "ScanOnce s lock st = (err, st') \<Longrightarrow> R st st'"
proof -
  assume run: "ScanOnce s lock st = (err, st')"
  obtain e st1 where body: "scan_body s (emit ScanStarted st) = (e, st1)" by fastforce
  have "R st st1" by (rule R_trans [OF R_frame R_scan_body [OF body]]) simp_all
  then have "R st (emit (ScanFinished (e = None)) st1)" by (rule R_then_frame) simp_all
  then show ?thesis using run body R_refl [of st] by (auto simp: ScanOnce_def split: if_splits)
qed

lemma R_Run: "R st (snd (Run s rounds st))"
proof (induction rounds arbitrary: st)
  case (Cons rnd rounds)
  obtain lock waiting where rnd: "rnd = (lock, waiting)" by (cases rnd)
  obtain err st1 where once: "ScanOnce s lock st = (err, st1)" by fastforce
  note st1 = R_ScanOnce [OF once]
  have "R st (snd (Run s rounds (emit (Waited d) st1)))" for d
    using R_trans [OF R_then_frame [OF st1, of "Waited d"] Cons.IH] by simp
  with st1 show ?case using rnd once by (auto simp: Let_def)
qed (simp add: R_refl)

end

locale loops_law = chunk_law s R + emit_law s R
  for s :: "('w, 'e) scanner" and R :: "('w, 'e) scan \<Rightarrow> ('w, 'e) scan \<Rightarrow> bool" +
  assumes R_now: "clock_now (deps s) (world st) = (t, w) \<Longrightarrow> R st (st\<lparr>world := w\<rparr>)"
    and R_listing: "inv_objects (deps s) (world st) bucket start = (stream, w) \<Longrightarrow> R st (st\<lparr>world := w\<rparr>)"
    and R_read: "use_read (deps s) (world st) objs lows highs = (rd, w) \<Longrightarrow> R st (called (CallReadChunk objs) w st)"
    and R_save: "st_save (deps s) (world st) scope c = (e, w) \<Longrightarrow> R st (called (CallSaveCursor c e) w st)"
    and R_saved: "R st (emit (CursorSaved now) st)"
begin

lemma R_processChunk:
  assumes "processChunk s objs st = (err, st')"
  shows "R st st'"
proof -
  have st0: "R st (st\<lparr>world := w\<rparr>)" if "clock_now (deps s) (world st) = (now, w)" for now w
    by (rule R_now [OF that])
  have st1: "R st (called (CallReadChunk objs) w1 (st\<lparr>world := w0\<rparr>))"
    if "clock_now (deps s) (world st) = (now, w0)" "use_read (deps s) w0 objs lows highs = (rd, w1)" for now w0 lows highs rd w1
    using R_trans [OF st0 [OF that(1)] R_read [of "st\<lparr>world := w0\<rparr>"]] that(2) by simp
  from processChunk_run [OF assms] show ?thesis
  proof (cases rule: chunk_run.cases)
    case (unread now w0 lows highs rd w1 st1 e)
    then show ?thesis using st1 R_then_error by blast
  next
    case (unsaved now w0 lows highs usage cov w1 hour items st2 st3 e w4)
    then have "R st st3" using R_trans [OF R_trans [OF st1 R_evaluate] R_handle] by blast
    from R_fail [OF R_trans [OF this R_save]] show ?thesis using unsaved by blast
  next
    case (chunk_done now w0 lows highs usage cov w1 hour items st2 st3 w4)
    then have "R st st3" using R_trans [OF R_trans [OF st1 R_evaluate] R_handle] by blast
    from R_trans [OF R_trans [OF this R_save] R_saved] show ?thesis using chunk_done by blast
  next
    case (no_window now w0 e)
    then show ?thesis using st0 by simp
  next
    case (unevaluated now w0 lows highs usage cov w1 hour e)
    then show ?thesis using R_trans [OF st1 R_evaluate] by blast
  next
    case (unhandled now w0 lows highs usage cov w1 hour items st2 e)
    then show ?thesis using R_trans [OF R_trans [OF st1 R_evaluate] R_handle] by blast
  qed
qed

end

sublocale loops_law \<subseteq> bucket_law s R
  by unfold_locales (rule R_listing R_processChunk, assumption)+

locale scan_law = loops_law s R
  for s :: "('w, 'e) scanner" and R :: "('w, 'e) scan \<Rightarrow> ('w, 'e) scan \<Rightarrow> bool" +
  assumes S_outer: "outer_event ev \<Longrightarrow> plain_event ev \<Longrightarrow> R st (emit ev st)"
    and S_buckets: "inv_buckets (deps s) (world st) = (bs, w) \<Longrightarrow> R st (st\<lparr>world := w\<rparr>)"
    and S_load: "st_load (deps s) (world st) scope = (cur, w) \<Longrightarrow> R st (st\<lparr>world := w\<rparr>)"
    and S_reset: "st_reset (deps s) (world st) scope = (e, w) \<Longrightarrow> R st (called (CallResetCursor e) w st)"

sublocale scan_law \<subseteq> traversal_law s R
proof
  fix st :: "('w, 'e) scan" and ev :: "'e event"
  show "frame_event ev \<Longrightarrow> R st (emit ev st)" using event_classes(2) S_outer by blast
  show "R st (emit CursorWasReset (called (CallResetCursor None) w st))" if "st_reset (deps s) (world st) scope = (None, w)" for scope w
    by (rule R_trans [OF S_reset [OF that] S_outer]) simp_all
qed (fact S_buckets S_load S_reset)+

locale trace_law =
  fixes s :: "('w, 'e) scanner" and P :: "'e event list \<Rightarrow> bool"
  assumes P_nil: "P []"
    and P_append: "P xs \<Longrightarrow> P ys \<Longrightarrow> P (xs @ ys)"
    and P_outer: "outer_event ev \<Longrightarrow> P [ev]"
    and P_object: "handleObject s obj res now st = (err, st') \<Longrightarrow> adds P st st'"

sublocale trace_law \<subseteq> law: scan_law s "adds P"
proof
  fix st st1 st2 :: "('w, 'e) scan" and ev :: "'e event"
  show "adds P st st" using P_nil by (auto simp: adds_def)
  show "adds P st st1 \<Longrightarrow> adds P st1 st2 \<Longrightarrow> adds P st st2" using P_append by (auto simp: adds_def)
  show "adds P st (emit CoverageSkipped st)" using P_outer [of CoverageSkipped] by (auto simp: adds_def)
  show "outer_event ev \<Longrightarrow> plain_event ev \<Longrightarrow> adds P st (emit ev st)" using P_outer by (auto simp: adds_def)
  show "loop_event ev \<Longrightarrow> adds P st (emit ev st)" using P_outer event_classes(1) by (auto simp: adds_def)
qed (use P_nil P_outer P_object in \<open>auto simp: adds_def\<close>)

end
