(* ===== verification/Scanner_Safety.thy ===== *)
theory Scanner_Safety
  imports Scanner_Laws
begin

text \<open>
  What a scan may do: an audit scan changes nothing, every change is preceded by a fresh stat of the
  same object and a granted reservation, and every granted reservation pays for exactly one change.
\<close>

section \<open>What one object adds to the trace\<close>

text \<open>
  The traces of \<open>handleMarker\<close> and \<open>handleRestore\<close>; \<open>fail\<close> is what \<open>dependencyError\<close> adds, the failure or,
  after a cancellation, nothing. The last argument tells whether the scan stops.
\<close>

definition failure_events :: "string \<Rightarrow> 'e event list \<Rightarrow> bool" where
  "failure_events d evs \<longleftrightarrow> evs = [] \<or> evs = [DependencyFailure d]"

inductive marker_trace :: "scanner_config \<Rightarrow> object \<Rightarrow> 'e event list \<Rightarrow> bool \<Rightarrow> bool"
  for cfg :: scanner_config and obj :: object
where
  plan_error: "failure_events ''minio'' D \<Longrightarrow>
     marker_trace cfg obj (D @ [MarkerObserved None True, ObjectHandled ''marker_error'']) False"
| not_required: "\<not> Required (plan :: marker_plan) \<Longrightarrow>
     marker_trace cfg obj [MarkerObserved (Some (Outcome plan)) False,
       ObjectHandled (''marker_'' @ outcome_text (Outcome plan))] False"
| audit: "Required (plan :: marker_plan) \<Longrightarrow> \<not> ApplyMode cfg \<Longrightarrow>
     marker_trace cfg obj [MarkerObserved (Some (Outcome plan)) False, ObjectHandled ''audit_mark''] False"
| reserve_error: "Required (plan :: marker_plan) \<Longrightarrow> ApplyMode cfg \<Longrightarrow> failure_events ''redis'' D \<Longrightarrow>
     marker_trace cfg obj ([MarkerObserved (Some (Outcome plan)) False,
       CallReserve BudgetTransition (Size obj) (Inl err)] @ D) True"
| exhausted: "Required (plan :: marker_plan) \<Longrightarrow> ApplyMode cfg \<Longrightarrow> \<not> Allowed r \<Longrightarrow>
     marker_trace cfg obj [MarkerObserved (Some (Outcome plan)) False,
       CallReserve BudgetTransition (Size obj) (Inr r), BudgetObserved BudgetTransition r,
       BudgetExhausted BudgetTransition, ObjectHandled ''transition_budget_exhausted''] False"
| apply_error: "Required (plan :: marker_plan) \<Longrightarrow> ApplyMode cfg \<Longrightarrow> Allowed r \<Longrightarrow> failure_events ''minio'' D \<Longrightarrow>
     marker_trace cfg obj ([MarkerObserved (Some (Outcome plan)) False,
       CallReserve BudgetTransition (Size obj) (Inr r), BudgetObserved BudgetTransition r,
       CallApplyMarker obj plan (Some err)] @ D @
       [MarkerObserved (Some (Outcome plan)) True, ObjectHandled ''marker_error'']) False"
| applied: "Required (plan :: marker_plan) \<Longrightarrow> ApplyMode cfg \<Longrightarrow> Allowed r \<Longrightarrow>
     marker_trace cfg obj [MarkerObserved (Some (Outcome plan)) False,
       CallReserve BudgetTransition (Size obj) (Inr r), BudgetObserved BudgetTransition r,
       CallApplyMarker obj plan None, MarkerApplied (Outcome plan), ObjectHandled ''marked''] False"

definition restore_bytes :: "object \<Rightarrow> action \<Rightarrow> int" where
  "restore_bytes obj act = (if act = ActionRenew then 0 else Size obj)"

inductive restore_trace :: "scanner_config \<Rightarrow> object \<Rightarrow> action \<Rightarrow> 'e event list \<Rightarrow> bool \<Rightarrow> bool"
  for cfg :: scanner_config and obj :: object and act :: action
where
  audit: "\<not> ApplyMode cfg \<Longrightarrow>
     restore_trace cfg obj act [RestoreObserved act False False, ObjectHandled (''audit_'' @ action_text act)] False"
| reserve_error: "ApplyMode cfg \<Longrightarrow> failure_events ''redis'' D \<Longrightarrow>
     restore_trace cfg obj act ([CallReserve BudgetRestore (restore_bytes obj act) (Inl err)] @ D) True"
| exhausted: "ApplyMode cfg \<Longrightarrow> \<not> Allowed r \<Longrightarrow>
     restore_trace cfg obj act [CallReserve BudgetRestore (restore_bytes obj act) (Inr r),
       BudgetObserved BudgetRestore r, BudgetExhausted BudgetRestore,
       ObjectHandled ''restore_budget_exhausted''] False"
| restore_error: "ApplyMode cfg \<Longrightarrow> Allowed r \<Longrightarrow> failure_events ''minio'' D \<Longrightarrow>
     restore_trace cfg obj act ([CallReserve BudgetRestore (restore_bytes obj act) (Inr r),
       BudgetObserved BudgetRestore r, CallRestore obj (RestoreDays cfg) (Inl err),
       RestoreObserved act False True] @ D @ [ObjectHandled ''restore_error'']) False"
| pending: "ApplyMode cfg \<Longrightarrow> Allowed r \<Longrightarrow>
     restore_trace cfg obj act [CallReserve BudgetRestore (restore_bytes obj act) (Inr r),
       BudgetObserved BudgetRestore r, CallRestore obj (RestoreDays cfg) (Inr True),
       RestoreObserved act True False, ObjectHandled ''restore_pending''] False"
| restored: "ApplyMode cfg \<Longrightarrow> Allowed r \<Longrightarrow>
     restore_trace cfg obj act [CallReserve BudgetRestore (restore_bytes obj act) (Inr r),
       BudgetObserved BudgetRestore r, CallRestore obj (RestoreDays cfg) (Inr False),
       RestoreObserved act False False, RestoreApplied act, ObjectHandled (action_text act)] False"

text \<open>An object: no action, or a stat that finds it unchanged, then what the action needs.\<close>

inductive object_trace :: "scanner_config \<Rightarrow> object \<Rightarrow> result \<Rightarrow> time \<Rightarrow> 'e event list \<Rightarrow> bool \<Rightarrow> bool"
  for cfg :: scanner_config and lobj :: object and res :: result and now :: time
where
  idle: "object_trace cfg lobj res now [TransitionState (Transitioned (State lobj)), ObjectHandled ''no_action''] False"
| stat_error: "failure_events ''minio'' D \<Longrightarrow>
     object_trace cfg lobj res now ([CallStat lobj (Inl err)] @ D @ [ObjectHandled ''stat_error'']) False"
| changed: "\<not> SameIdentity lobj cur \<Longrightarrow>
     object_trace cfg lobj res now [CallStat lobj (Inr cur), ObjectHandled ''identity_changed''] False"
| nothing: "SameIdentity lobj cur \<Longrightarrow> DecideAction (State cur) (Low res) (High res) now = ActionNone \<Longrightarrow>
     object_trace cfg lobj res now [CallStat lobj (Inr cur), TransitionState (Transitioned (State cur)),
       ObjectHandled ''no_action''] False"
| mark: "SameIdentity lobj cur \<Longrightarrow> DecideAction (State cur) (Low res) (High res) now = ActionMark \<Longrightarrow>
     marker_trace cfg cur evs stop \<Longrightarrow>
     object_trace cfg lobj res now ([CallStat lobj (Inr cur), TransitionState (Transitioned (State cur))] @ evs) stop"
| restore: "SameIdentity lobj cur \<Longrightarrow> DecideAction (State cur) (Low res) (High res) now = act \<Longrightarrow>
     act = ActionRestore \<or> act = ActionRenew \<Longrightarrow> restore_trace cfg cur act evs stop \<Longrightarrow>
     object_trace cfg lobj res now ([CallStat lobj (Inr cur), TransitionState (Transitioned (State cur))] @ evs) stop"

lemma dependencyError_events:
  "\<exists>D. failure_events d D \<and> trace (dependencyError s d err st) = trace st @ D"
  by (auto simp: dependencyError_def failure_events_def)

lemma handleMarker_trace:
  assumes "handleMarker s obj st = (err, st')"
  shows "adds (\<lambda>evs. marker_trace (config s) obj evs (err \<noteq> None)) st st'"
proof -
  obtain r w where plan: "inv_plan (deps s) (world st) obj (MarkerKey (config s)) (MarkerValue (config s)) = (r, w)"
    by fastforce
  show ?thesis
  proof (cases r)
    case (Inl e)
    then show ?thesis
      using assms plan dependencyError_events [of "''minio''" s e "st\<lparr>world := w\<rparr>"]
      by (auto simp: handleMarker_def adds_def intro: marker_trace.plan_error)
  next
    case (Inr p)
    define st1 where "st1 = emit (MarkerObserved (Some (Outcome p)) False) (st\<lparr>world := w\<rparr>)"
    show ?thesis
    proof (cases "Required p \<and> ApplyMode (config s)")
      case False
      then consider "\<not> Required p" | "Required p" "\<not> ApplyMode (config s)" by blast
      then show ?thesis
      proof cases
        case 1
        then show ?thesis
          using assms plan Inr marker_trace.not_required [of p] by (auto simp: handleMarker_def adds_def Let_def)
      next
        case 2
        then show ?thesis
          using assms plan Inr marker_trace.audit [of p "config s"] by (auto simp: handleMarker_def adds_def Let_def)
      qed
    next
      case True
      obtain now w1 where now: "clock_now (deps s) (world st1) = (now, w1)" by fastforce
      obtain res w2 where res: "st_reserve (deps s) w1 now BudgetTransition (TransitionBudget (config s)) (Size obj) = (res, w2)"
        by fastforce
      define st2 where "st2 = called (CallReserve BudgetTransition (Size obj) res) w2 st1"
      show ?thesis
      proof (cases res)
        case e: (Inl e)
        then show ?thesis
          using assms plan Inr True now res dependencyError_events [of "''redis''" s e st2]
            marker_trace.reserve_error [of p "config s"]
          by (auto simp: handleMarker_def adds_def Let_def st1_def st2_def)
      next
        case r: (Inr rv)
        define st3 where "st3 = emit (BudgetObserved BudgetTransition rv) st2"
        obtain a w4 where a: "inv_apply (deps s) (world st3) obj p = (a, w4)" by fastforce
        define st4 where "st4 = called (CallApplyMarker obj p a) w4 st3"
        have t4: "trace st4 = trace st @ [MarkerObserved (Some (Outcome p)) False,
            CallReserve BudgetTransition (Size obj) (Inr rv), BudgetObserved BudgetTransition rv, CallApplyMarker obj p a]"
          by (simp add: st4_def st3_def st2_def st1_def r)
        show ?thesis
        proof (cases "Allowed rv")
          case False
          then show ?thesis
            using assms plan Inr True now res r marker_trace.exhausted [of p "config s" rv]
            by (auto simp: handleMarker_def adds_def Let_def st1_def)
        next
          case ok: True
          show ?thesis
          proof (cases a)
            case None
            then have "st' = emit (ObjectHandled ''marked'') (emit (MarkerApplied (Outcome p)) st4)" "err = None"
              using assms plan Inr True now res r ok a
              by (auto simp: handleMarker_def Let_def st1_def st2_def st3_def st4_def)
            then show ?thesis
              using t4 None marker_trace.applied [of p "config s" rv] True ok by (auto simp: adds_def)
          next
            case (Some e)
            then have "st' = emit (ObjectHandled ''marker_error'') (emit (MarkerObserved (Some (Outcome p)) True)
                (dependencyError s ''minio'' e st4))" "err = None"
              using assms plan Inr True now res r ok a
              by (auto simp: handleMarker_def Let_def st1_def st2_def st3_def st4_def)
            then show ?thesis
              using t4 Some marker_trace.apply_error [of p "config s" rv] True ok
                dependencyError_events [of "''minio''" s e st4] by (auto simp: adds_def)
          qed
        qed
      qed
    qed
  qed
qed

lemma handleRestore_trace:
  assumes "handleRestore s obj act st = (err, st')"
  shows "adds (\<lambda>evs. restore_trace (config s) obj act evs (err \<noteq> None)) st st'"
proof (cases "ApplyMode (config s)")
  case False
  then show ?thesis
    using assms restore_trace.audit [of "config s"] by (auto simp: handleRestore_def [folded restore_bytes_def] adds_def)
next
  case apply_mode: True
  let ?bytes = "restore_bytes obj act"
  obtain now w1 where now: "clock_now (deps s) (world st) = (now, w1)" by fastforce
  obtain res w2 where res: "st_reserve (deps s) w1 now BudgetRestore (RestoreBudget (config s)) ?bytes = (res, w2)"
    by fastforce
  define st2 where "st2 = called (CallReserve BudgetRestore ?bytes res) w2 st"
  show ?thesis
  proof (cases res)
    case (Inl e)
    then have "st' = dependencyError s ''redis'' e st2" "err \<noteq> None"
      using assms now res apply_mode by (auto simp: handleRestore_def [folded restore_bytes_def] Let_def st2_def)
    then show ?thesis
      using dependencyError_events [of "''redis''" s e st2] restore_trace.reserve_error [of "config s"] apply_mode Inl
      by (auto simp: adds_def st2_def)
  next
    case (Inr rv)
    define st3 where "st3 = emit (BudgetObserved BudgetRestore rv) st2"
    obtain out w4 where out: "inv_restore (deps s) (world st3) obj (RestoreDays (config s)) = (out, w4)" by fastforce
    define st4 where "st4 = called (CallRestore obj (RestoreDays (config s)) out) w4 st3"
    have t4: "trace st4 = trace st @ [CallReserve BudgetRestore ?bytes (Inr rv), BudgetObserved BudgetRestore rv,
        CallRestore obj (RestoreDays (config s)) out]"
      by (simp add: st4_def st3_def st2_def Inr)
    show ?thesis
    proof (cases "Allowed rv")
      case False
      then have "st' = emit (ObjectHandled ''restore_budget_exhausted'') (emit (BudgetExhausted BudgetRestore) st3)" "err = None"
        using assms now res apply_mode Inr by (auto simp: handleRestore_def [folded restore_bytes_def] Let_def st2_def st3_def)
      then show ?thesis
        using restore_trace.exhausted [of "config s" rv] apply_mode False Inr by (auto simp: adds_def st2_def st3_def)
    next
      case ok: True
      show ?thesis
      proof (cases out)
        case e: (Inl e)
        then have "st' = emit (ObjectHandled ''restore_error'')
            (dependencyError s ''minio'' e (emit (RestoreObserved act False True) st4))" "err = None"
          using assms now res apply_mode Inr ok out
          by (auto simp: handleRestore_def [folded restore_bytes_def] Let_def st2_def st3_def st4_def)
        then show ?thesis
          using t4 e restore_trace.restore_error [of "config s" rv] apply_mode ok
            dependencyError_events [of "''minio''" s e "emit (RestoreObserved act False True) st4"]
          by (auto simp: adds_def)
      next
        case p: (Inr pend)
        then have "st' = (if pend then emit (ObjectHandled ''restore_pending'') (emit (RestoreObserved act pend False) st4)
            else emit (ObjectHandled (action_text act)) (emit (RestoreApplied act) (emit (RestoreObserved act pend False) st4)))"
          "err = None"
          using assms now res apply_mode Inr ok out
          by (auto simp: handleRestore_def [folded restore_bytes_def] Let_def st2_def st3_def st4_def split: if_splits)
        then show ?thesis
          using t4 p restore_trace.pending [of "config s" rv] restore_trace.restored [of "config s" rv] apply_mode ok
          by (auto simp: adds_def)
      qed
    qed
  qed
qed

lemma perform_trace:
  assumes "perform s obj (State obj) act st = (err, st')"
  shows "act = ActionNone \<Longrightarrow> err = None \<and>
      trace st' = trace st @ [TransitionState (Transitioned (State obj)), ObjectHandled ''no_action'']"
    and "act = ActionMark \<Longrightarrow> \<exists>evs. marker_trace (config s) obj evs (err \<noteq> None) \<and>
      trace st' = trace st @ [TransitionState (Transitioned (State obj))] @ evs"
    and "act = ActionRestore \<or> act = ActionRenew \<Longrightarrow> \<exists>evs. restore_trace (config s) obj act evs (err \<noteq> None) \<and>
      trace st' = trace st @ [TransitionState (Transitioned (State obj))] @ evs"
  using assms handleMarker_trace [of s obj "emit (TransitionState (Transitioned (State obj))) st" err st']
    handleRestore_trace [of s obj act "emit (TransitionState (Transitioned (State obj))) st" err st']
  by (auto simp: perform_def adds_def Let_def)

lemma handleObject_trace:
  assumes "handleObject s lobj res now st = (err, st')"
  shows "adds (\<lambda>evs. object_trace (config s) lobj res now evs (err \<noteq> None)) st st'"
proof -
  define act where "act = (if StateKnown lobj then DecideAction (State lobj) (Low res) (High res) now else ActionNone)"
  show ?thesis
  proof (cases "(\<not> StateKnown lobj \<and> (Low res \<or> High res)) \<or> act \<noteq> ActionNone")
    case False
    then have "perform s lobj (State lobj) ActionNone st = (err, st')"
      using assms by (auto simp: handleObject_def act_def [symmetric] split: if_splits)
    from perform_trace(1) [OF this] show ?thesis
      by (auto simp: adds_def intro: object_trace.idle)
  next
    case True
    obtain out w where stat: "inv_stat (deps s) (world st) lobj = (out, w)" by fastforce
    define st1 where "st1 = called (CallStat lobj out) w st"
    show ?thesis
    proof (cases out)
      case (Inl e)
      then have "st' = emit (ObjectHandled ''stat_error'') (dependencyError s ''minio'' e st1)" "err = None"
        using assms True stat by (auto simp: handleObject_def act_def [symmetric] st1_def Let_def)
      then show ?thesis
        using dependencyError_events [of "''minio''" s e st1] object_trace.stat_error Inl
        by (fastforce simp: adds_def st1_def)
    next
      case (Inr cur)
      show ?thesis
      proof (cases "SameIdentity lobj cur")
        case False
        then have "st' = emit (ObjectHandled ''identity_changed'') st1" "err = None"
          using assms True stat Inr by (auto simp: handleObject_def act_def [symmetric] st1_def Let_def)
        then show ?thesis using object_trace.changed [OF False] Inr by (simp add: adds_def st1_def)
      next
        case same: True
        define act' where "act' = DecideAction (State cur) (Low res) (High res) now"
        have perform: "perform s cur (State cur) act' st1 = (err, st')"
          using assms True stat Inr same
          by (auto simp: handleObject_def act_def [symmetric] act'_def [symmetric] st1_def Let_def)
        have t1: "trace st1 = trace st @ [CallStat lobj (Inr cur)]" by (simp add: st1_def Inr)
        consider "act' = ActionNone" | "act' = ActionMark" | "act' = ActionRestore \<or> act' = ActionRenew"
          by (cases act') auto
        then show ?thesis
        proof cases
          case 1
          then show ?thesis
            using perform_trace(1) [OF perform] t1 object_trace.nothing [OF same] by (simp add: adds_def act'_def)
        next
          case 2
          then obtain evs where "marker_trace (config s) cur evs (err \<noteq> None)"
            "trace st' = trace st1 @ [TransitionState (Transitioned (State cur))] @ evs"
            using perform_trace(2) [OF perform] by blast
          then show ?thesis
            using t1 object_trace.mark [OF same] 2 unfolding act'_def by (fastforce simp: adds_def)
        next
          case 3
          then obtain evs where "restore_trace (config s) cur act' evs (err \<noteq> None)"
            "trace st' = trace st1 @ [TransitionState (Transitioned (State cur))] @ evs"
            using perform_trace(3) [OF perform] by blast
          then show ?thesis
            using t1 object_trace.restore [OF same act'_def [symmetric] 3] by (fastforce simp: adds_def)
        qed
      qed
    qed
  qed
qed

inductive_cases marker_traceE: "marker_trace cfg obj evs stop"
inductive_cases restore_traceE: "restore_trace cfg obj act evs stop"
inductive_cases object_traceE: "object_trace cfg lobj res now evs stop"

text \<open>The events of an object are not those of the loops around it.\<close>

fun inner_event :: "'e event \<Rightarrow> bool" where
  "inner_event (ObjectHandled x) = True"
| "inner_event (BudgetObserved k r) = True"
| "inner_event (BudgetExhausted k) = True"
| "inner_event (MarkerObserved out err) = True"
| "inner_event (MarkerApplied out) = True"
| "inner_event (TransitionState b) = True"
| "inner_event (RestoreObserved act pend err) = True"
| "inner_event (RestoreApplied act) = True"
| "inner_event (DependencyFailure d) = True"
| "inner_event (CallStat obj r) = True"
| "inner_event (CallReserve k b r) = True"
| "inner_event (CallApplyMarker obj plan r) = True"
| "inner_event (CallRestore obj days r) = True"
| "inner_event _ = False"

lemma failure_inner: "failure_events d D \<Longrightarrow> list_all inner_event D"
  by (auto simp: failure_events_def)

lemma object_trace_inner: "object_trace cfg lobj res now evs stop \<Longrightarrow> list_all inner_event evs"
proof (induction rule: object_trace.induct)
  case (mark cur evs stop)
  from mark(3) show ?case by (cases rule: marker_trace.cases) (auto simp: failure_inner)
next
  case (restore cur act evs stop)
  from restore(4) show ?case by (cases rule: restore_trace.cases) (auto simp: failure_inner)
qed (auto simp: failure_inner)

section \<open>An audit scan changes nothing\<close>

fun mutates :: "'e event \<Rightarrow> bool" where
  "mutates (CallReserve k b r) = True"
| "mutates (CallApplyMarker obj plan r) = True"
| "mutates (CallRestore obj days r) = True"
| "mutates _ = False"

definition quiet_in_audit :: "('w, 'e) scanner \<Rightarrow> 'e event list \<Rightarrow> bool" where
  "quiet_in_audit s evs \<longleftrightarrow> ApplyMode (config s) \<or> list_all (\<lambda>ev. \<not> mutates ev) evs"

lemma failure_quiet: "failure_events d D \<Longrightarrow> list_all (\<lambda>ev. \<not> mutates ev) D"
  by (auto simp: failure_events_def)

lemma object_trace_quiet:
  "object_trace cfg lobj res now evs stop \<Longrightarrow> \<not> ApplyMode cfg \<Longrightarrow> list_all (\<lambda>ev. \<not> mutates ev) evs"
proof (induction rule: object_trace.induct)
  case (mark cur evs stop)
  from mark(3) show ?case using mark(4) by (cases rule: marker_trace.cases) (auto simp: failure_quiet)
next
  case (restore cur act evs stop)
  from restore(4) show ?case using restore(5) by (cases rule: restore_trace.cases) (auto simp: failure_quiet)
qed (auto simp: failure_quiet)

lemma outer_quiet: "outer_event ev \<Longrightarrow> \<not> mutates ev"
  by (cases ev) auto

interpretation audit: trace_law s "quiet_in_audit s" for s :: "('w, 'e) scanner"
proof
  fix obj res now st err st'
  assume "handleObject s obj res now st = (err, st')"
  from handleObject_trace [OF this] show "adds (quiet_in_audit s) st st'"
    using object_trace_quiet by (fastforce simp: adds_def quiet_in_audit_def)
qed (auto simp: quiet_in_audit_def outer_quiet)

section \<open>Every grant pays for one change\<close>

definition granted_event :: "budget_kind \<Rightarrow> 'e event \<Rightarrow> bool" where
  "granted_event kind ev = (case ev of CallReserve k b (Inr r) \<Rightarrow> k = kind \<and> Allowed r | _ \<Rightarrow> False)"

definition marker_event :: "'e event \<Rightarrow> bool" where
  "marker_event ev = (case ev of CallApplyMarker obj plan r \<Rightarrow> True | _ \<Rightarrow> False)"

definition restore_event :: "'e event \<Rightarrow> bool" where
  "restore_event ev = (case ev of CallRestore obj days r \<Rightarrow> True | _ \<Rightarrow> False)"

definition occurrences :: "('e event \<Rightarrow> bool) \<Rightarrow> 'e event list \<Rightarrow> nat" where
  "occurrences P evs = length (filter P evs)"

lemma occurrences_simps [simp]:
  "occurrences P [] = 0" "occurrences P (ev # evs) = (if P ev then 1 else 0) + occurrences P evs"
  "occurrences P (evs @ evs') = occurrences P evs + occurrences P evs'"
  by (simp_all add: occurrences_def)

definition grants_spent :: "'e event list \<Rightarrow> bool" where
  "grants_spent evs \<longleftrightarrow>
     occurrences marker_event evs = occurrences (granted_event BudgetTransition) evs \<and>
     occurrences restore_event evs = occurrences (granted_event BudgetRestore) evs"

lemma budget_kinds [simp]: "BudgetTransition \<noteq> BudgetRestore" "BudgetRestore \<noteq> BudgetTransition"
  by (simp_all add: BudgetTransition_def BudgetRestore_def)

lemmas event_kinds = granted_event_def marker_event_def restore_event_def

lemma failure_spent: "failure_events d D \<Longrightarrow> occurrences marker_event D = 0 \<and> occurrences restore_event D = 0 \<and>
    occurrences (granted_event k) D = 0"
  by (auto simp: failure_events_def event_kinds)

lemma object_trace_spent: "object_trace cfg lobj res now evs stop \<Longrightarrow> grants_spent evs"
proof (induction rule: object_trace.induct)
  case (mark cur evs stop)
  from mark(3) show ?case
    by (cases rule: marker_trace.cases) (auto simp: grants_spent_def event_kinds failure_spent)
next
  case (restore cur act evs stop)
  from restore(4) show ?case
    by (cases rule: restore_trace.cases) (auto simp: grants_spent_def event_kinds failure_spent)
qed (auto simp: grants_spent_def event_kinds failure_spent)

interpretation spent: trace_law s grants_spent for s :: "('w, 'e) scanner"
proof
  fix obj res now st err st'
  assume "handleObject s obj res now st = (err, st')"
  from handleObject_trace [OF this] show "adds grants_spent st st'"
    using object_trace_spent by (fastforce simp: adds_def)
next
  fix ev :: "'e event"
  show "outer_event ev \<Longrightarrow> grants_spent [ev]"
    by (cases ev) (auto simp: grants_spent_def event_kinds)
qed (auto simp: grants_spent_def)

section \<open>Every change is earned\<close>

text \<open>
  What must stand in the trace before a change: a stat of that very object that found it unchanged
  since its listing, in the state that calls for the change, and directly before it a granted
  reservation of its size (nothing for a renewal).
\<close>

definition just_granted :: "budget_kind \<Rightarrow> int \<Rightarrow> 'e event list \<Rightarrow> bool" where
  "just_granted kind bytes before \<longleftrightarrow>
     (\<exists>pre r. before = pre @ [CallReserve kind bytes (Inr r), BudgetObserved kind r] \<and> Allowed r)"

definition fresh_stat :: "object \<Rightarrow> 'e event list \<Rightarrow> bool" where
  "fresh_stat obj before \<longleftrightarrow> (\<exists>lobj. CallStat lobj (Inr obj) \<in> set before \<and> SameIdentity lobj obj)"

definition permitted :: "scanner_config \<Rightarrow> 'e event list \<Rightarrow> 'e event \<Rightarrow> bool" where
  "permitted cfg before ev =
     (case ev of
        CallApplyMarker obj plan r \<Rightarrow>
          ApplyMode cfg \<and> Required plan \<and> \<not> Transitioned (State obj) \<and> fresh_stat obj before \<and>
          just_granted BudgetTransition (Size obj) before
      | CallRestore obj days r \<Rightarrow>
          ApplyMode cfg \<and> days = RestoreDays cfg \<and> Transitioned (State obj) \<and> fresh_stat obj before \<and>
          \<not> (\<exists>rs. Restore (State obj) = Some rs \<and> Ongoing rs) \<and>
          (just_granted BudgetRestore (Size obj) before \<or>
           (just_granted BudgetRestore 0 before \<and> Restore (State obj) \<noteq> None))
      | _ \<Rightarrow> True)"

fun earned_from :: "scanner_config \<Rightarrow> 'e event list \<Rightarrow> 'e event list \<Rightarrow> bool" where
  "earned_from cfg before [] = True"
| "earned_from cfg before (ev # evs) = (permitted cfg before ev \<and> earned_from cfg (before @ [ev]) evs)"

definition changes_earned :: "scanner_config \<Rightarrow> 'e event list \<Rightarrow> bool" where
  "changes_earned cfg evs = earned_from cfg [] evs"

lemma just_granted_prefix: "just_granted kind bytes before \<Longrightarrow> just_granted kind bytes (pre @ before)"
  unfolding just_granted_def by (metis append.assoc)

lemma permitted_prefix: "permitted cfg before ev \<Longrightarrow> permitted cfg (pre @ before) ev"
  using just_granted_prefix by (auto simp: permitted_def fresh_stat_def split: event.splits)

lemma earned_prefix: "earned_from cfg before evs \<Longrightarrow> earned_from cfg (pre @ before) evs"
proof (induction evs arbitrary: before)
  case (Cons ev evs)
  then show ?case using Cons.IH [of "before @ [ev]"] permitted_prefix by auto
qed simp

lemma earned_append:
  "earned_from cfg before (xs @ ys) \<longleftrightarrow> earned_from cfg before xs \<and> earned_from cfg (before @ xs) ys"
  by (induction xs arbitrary: before) auto

lemma changes_earned_append: "changes_earned cfg xs \<Longrightarrow> changes_earned cfg ys \<Longrightarrow> changes_earned cfg (xs @ ys)"
  using earned_prefix [of cfg "[]" ys xs] by (simp add: changes_earned_def earned_append)

lemma permitted_other: "\<not> marker_event ev \<Longrightarrow> \<not> restore_event ev \<Longrightarrow> permitted cfg before ev"
  by (auto simp: permitted_def event_kinds split: event.splits)

lemma failure_earned: "failure_events d D \<Longrightarrow> earned_from cfg before D"
  by (auto simp: failure_events_def permitted_def)

lemma just_granted_here: "Allowed r \<Longrightarrow> just_granted kind bytes (pre @ [CallReserve kind bytes (Inr r), BudgetObserved kind r])"
  by (auto simp: just_granted_def)

lemma object_trace_earned: "object_trace cfg lobj res now evs stop \<Longrightarrow> changes_earned cfg evs"
proof (induction rule: object_trace.induct)
  case (mark cur evs stop)
  have state: "\<not> Transitioned (State cur)" using mark(2) by (simp add: DecideAction_mark)
  let ?pre = "[CallStat lobj (Inr cur), TransitionState (Transitioned (State cur))]"
  have fresh: "fresh_stat cur (?pre @ xs)" for xs using mark(1) by (auto simp: fresh_stat_def)
  from mark(3) have "earned_from cfg ?pre evs"
  proof (cases rule: marker_trace.cases)
    case (apply_error plan r D err)
    then show ?thesis
      using state fresh [of "[MarkerObserved (Some (Outcome plan)) False, CallReserve BudgetTransition (Size cur) (Inr r),
          BudgetObserved BudgetTransition r]"]
        just_granted_here [of r BudgetTransition "Size cur" "?pre @ [MarkerObserved (Some (Outcome plan)) False]"]
      by (simp add: earned_append failure_earned permitted_def)
  next
    case (applied plan r)
    then show ?thesis
      using state fresh [of "[MarkerObserved (Some (Outcome plan)) False, CallReserve BudgetTransition (Size cur) (Inr r),
          BudgetObserved BudgetTransition r]"]
        just_granted_here [of r BudgetTransition "Size cur" "?pre @ [MarkerObserved (Some (Outcome plan)) False]"]
      by (simp add: permitted_def)
  qed (simp_all add: earned_append failure_earned permitted_def)
  then show ?case by (simp add: changes_earned_def earned_append permitted_def)
next
  case (restore cur act evs stop)
  have state: "Transitioned (State cur)" "\<not> (\<exists>rs. Restore (State cur) = Some rs \<and> Ongoing rs)"
    "act = ActionRenew \<Longrightarrow> Restore (State cur) \<noteq> None"
    using restore(2,3) by (auto simp: DecideAction_def split: if_splits option.splits)
  let ?pre = "[CallStat lobj (Inr cur), TransitionState (Transitioned (State cur))]"
  have fresh: "fresh_stat cur (?pre @ xs)" for xs using restore(1) by (auto simp: fresh_stat_def)
  have ok: "permitted cfg (?pre @ [CallReserve BudgetRestore (restore_bytes cur act) (Inr r), BudgetObserved BudgetRestore r])
      (CallRestore cur (RestoreDays cfg) out)" if "ApplyMode cfg" "Allowed r" for r out
    using that state fresh [of "[CallReserve BudgetRestore (restore_bytes cur act) (Inr r), BudgetObserved BudgetRestore r]"]
      just_granted_here [OF that(2), of BudgetRestore "restore_bytes cur act" ?pre]
    by (auto simp: permitted_def restore_bytes_def)
  from restore(4) have "earned_from cfg ?pre evs"
  proof (cases rule: restore_trace.cases)
    case (restore_error r D err)
    then show ?thesis using ok [of r] by (simp add: earned_append failure_earned permitted_other event_kinds)
  next
    case (pending r)
    then show ?thesis using ok [of r] by (simp add: permitted_other event_kinds)
  next
    case (restored r)
    then show ?thesis using ok [of r] by (simp add: permitted_other event_kinds)
  qed (simp_all add: earned_append failure_earned permitted_other event_kinds)
  then show ?case by (simp add: changes_earned_def earned_append permitted_def)
qed (auto simp: changes_earned_def earned_append failure_earned permitted_def)

interpretation earned: trace_law s "changes_earned (config s)" for s :: "('w, 'e) scanner"
proof
  fix obj res now st err st'
  assume "handleObject s obj res now st = (err, st')"
  from handleObject_trace [OF this] show "adds (changes_earned (config s)) st st'"
    using object_trace_earned by (fastforce simp: adds_def)
next
  fix ev :: "'e event"
  show "outer_event ev \<Longrightarrow> changes_earned (config s) [ev]"
    by (cases ev) (auto simp: changes_earned_def permitted_def)
next
  fix xs ys :: "'e event list"
  show "changes_earned (config s) xs \<Longrightarrow> changes_earned (config s) ys \<Longrightarrow> changes_earned (config s) (xs @ ys)"
    by (rule changes_earned_append)
qed (simp add: changes_earned_def)

section \<open>The run as a whole\<close>

definition run_events :: "('w, 'e) scanner \<Rightarrow> (bool \<times> bool) list \<Rightarrow> ('w, 'e) scan \<Rightarrow> 'e event list" where
  "run_events s rounds st = drop (length (trace st)) (trace (snd (Run s rounds st)))"

lemma adds_run: "adds P st (snd (Run s rounds st)) \<Longrightarrow>
    trace (snd (Run s rounds st)) = trace st @ run_events s rounds st \<and> P (run_events s rounds st)"
  by (auto simp: adds_def run_events_def)

fun handled_event :: "'e event \<Rightarrow> bool" where
  "handled_event (ObjectHandled x) = True"
| "handled_event _ = False"

lemma failure_handled: "failure_events d D \<Longrightarrow> occurrences handled_event D = 0"
  by (auto simp: failure_events_def)

lemma object_trace_handled:
  "object_trace cfg lobj res now evs stop \<Longrightarrow> occurrences handled_event evs = (if stop then 0 else 1)"
proof (induction rule: object_trace.induct)
  case (mark cur evs stop)
  from mark(3) show ?case
    by (cases rule: marker_trace.cases) (auto simp: failure_handled)
next
  case (restore cur act evs stop)
  from restore(4) show ?case
    by (cases rule: restore_trace.cases) (auto simp: failure_handled)
qed (auto simp: failure_handled)

text \<open>C28: With apply off the scanner calls nothing that changes anything: over any number of rounds,
  whatever the dependencies answer, no reservation, no marker and no restore is requested.\<close>

theorem audit_changes_nothing:
  "ApplyMode (config s) \<or> list_all (\<lambda>ev. \<not> mutates ev) (run_events s rounds st)"
  using adds_run [OF audit.law.R_Run] by (auto simp: quiet_in_audit_def)

text \<open>Over any run, whatever the dependencies answer, every granted reservation of a budget is
  followed by exactly one mutation of its kind, and no mutation happens without one: markers are as
  many as the granted transition reservations and restores as the granted restore reservations.\<close>

theorem mutations_match_grants:
  "occurrences marker_event (run_events s rounds st) = occurrences (granted_event BudgetTransition) (run_events s rounds st)
   \<and> occurrences restore_event (run_events s rounds st) = occurrences (granted_event BudgetRestore) (run_events s rounds st)"
  using adds_run [OF spent.law.R_Run] unfolding grants_spent_def by blast

text \<open>C5: Over any run every mutation is earned: before each marker and each restore the run holds a
  stat of that very object that found the identity of its listing, in a state that calls for the
  change (a marker only for an object not transitioned, a restore only for a transitioned one with
  no restore under way, for the configured days), and directly before it the granted reservation of
  the object's size, or of no bytes for the renewal of a restored copy.\<close>

theorem run_changes_earned: "changes_earned (config s) (run_events s rounds st)"
  using adds_run [OF earned.law.R_Run] by blast

text \<open>C39: An object cannot stop the scan, and is accounted for exactly once: \<open>handleObject\<close> reports no
  error but a failed reservation, and without one it tells the observer exactly once how the object
  was handled, whatever MinIO answered.\<close>

theorem object_handled_once:
  "(case fst (handleObject s obj res now st) of
      None \<Rightarrow> \<exists>evs. trace (snd (handleObject s obj res now st)) = trace st @ evs \<and> occurrences handled_event evs = 1
    | Some err \<Rightarrow> \<exists>e. err = ReserveFailed e)"
proof -
  obtain err st' where h: "handleObject s obj res now st = (err, st')" by fastforce
  have "err = None \<Longrightarrow> ?thesis"
    using handleObject_trace [OF h] object_trace_handled h by (fastforce simp: adds_def)
  moreover have "err = Some x \<Longrightarrow> \<exists>e. x = ReserveFailed e" for x
    using h by (auto simp: handleObject_def perform_def handleMarker_def handleRestore_def Let_def
        split: if_splits prod.splits sum.splits option.splits action.splits)
  ultimately show ?thesis using h by (cases err) auto
qed

end
