(* ===== verification/Scanner_Progress.thy ===== *)
theory Scanner_Progress
  imports Scanner_Safety "HOL-Library.Sublist"
begin

text \<open>
  How far a scan gets. The chunks it reads, and the positions it saves, are compared with the
  objects of the listing: a position is saved only after the whole chunk that ends there has been
  handled, so a scan that resumes there neither loses nor repeats a saved object.
\<close>

section \<open>Chunks and positions\<close>

type_synonym position = "string \<times> string"

definition position :: "object \<Rightarrow> position" where
  "position obj = (Bucket obj, Name obj)"

definition cursor_position :: "cursor \<Rightarrow> position" where
  "cursor_position c = (CursorBucket c, CursorObject c)"

fun chunks_read :: "'e event list \<Rightarrow> object list list" where
  "chunks_read [] = []"
| "chunks_read (CallReadChunk objs # evs) = objs # chunks_read evs"
| "chunks_read (_ # evs) = chunks_read evs"

fun saved_cursors :: "'e event list \<Rightarrow> cursor list" where
  "saved_cursors [] = []"
| "saved_cursors (CallSaveCursor c None # evs) = c # saved_cursors evs"
| "saved_cursors (_ # evs) = saved_cursors evs"

fun saved :: "'e event list \<Rightarrow> position list" where
  "saved [] = []"
| "saved (CallSaveCursor c None # evs) = cursor_position c # saved evs"
| "saved (_ # evs) = saved evs"

lemma saved_map: "saved evs = map cursor_position (saved_cursors evs)"
  by (induction evs rule: saved.induct) auto

lemma chunks_read_append [simp]: "chunks_read (xs @ ys) = chunks_read xs @ chunks_read ys"
  by (induction xs rule: chunks_read.induct) auto

lemma saved_append [simp]: "saved (xs @ ys) = saved xs @ saved ys"
  by (induction xs rule: saved.induct) auto

text \<open>Events that neither read a chunk nor save a position.\<close>

definition stays :: "'e event list \<Rightarrow> bool" where
  "stays evs \<longleftrightarrow> chunks_read evs = [] \<and> saved evs = []"

lemma stays_append [simp]: "stays (xs @ ys) \<longleftrightarrow> stays xs \<and> stays ys"
  by (auto simp: stays_def)

lemma failure_stays: "failure_events d D \<Longrightarrow> chunks_read D = [] \<and> saved D = []"
  by (auto simp: failure_events_def stays_def)

lemma inner_stays: "list_all inner_event evs \<Longrightarrow> stays evs"
proof (induction evs)
  case (Cons ev evs)
  then show ?case by (cases ev) (auto simp: stays_def)
qed (simp add: stays_def)

lemma object_trace_stays: "object_trace cfg lobj res now evs stop \<Longrightarrow> stays evs"
  by (rule inner_stays [OF object_trace_inner])

interpretation staying: chunk_law s "adds stays" for s :: "('w, 'e) scanner"
proof
  fix st st1 st2 :: "('w, 'e) scan" and obj res now err
  show "adds stays st st" by (simp add: adds_def stays_def)
  show "adds stays st st1 \<Longrightarrow> adds stays st1 st2 \<Longrightarrow> adds stays st st2" by (auto simp: adds_def)
  show "adds stays st (emit CoverageSkipped st)" by (simp add: adds_def stays_def)
  show "adds stays st st1" if "handleObject s obj res now st = (err, st1)"
    using handleObject_trace [OF that] object_trace_stays by (fastforce simp: adds_def)
qed

section \<open>One chunk\<close>

definition chunk_progress :: "object list \<Rightarrow> bool \<Rightarrow> 'e event list \<Rightarrow> bool" where
  "chunk_progress objs ok evs \<longleftrightarrow>
     (if ok then chunks_read evs = [objs] \<and> saved evs = [position (last objs)]
      else saved evs = [] \<and> (chunks_read evs = [] \<or> chunks_read evs = [objs]))"

lemma position_cursor [simp]: "cursor_position (chunk_cursor objs now) = position (last objs)"
  by (simp add: cursor_position_def chunk_cursor_def position_def)

lemma processChunk_progress:
  assumes "processChunk s objs st = (err, st')"
  shows "adds (chunk_progress objs (err = None)) st st'"
proof -
  have eval: "\<exists>evs. trace st2 = trace st @ CallReadChunk objs # evs \<and> stays evs"
    if "evaluate_loop s hour cov items (called (CallReadChunk objs) w1 (st\<lparr>world := w0\<rparr>)) = (out, st2)"
    for w0 w1 hour cov items out st2
    using staying.R_evaluate [OF that] by (auto simp: adds_def)
  have handled: "\<exists>evs. trace st3 = trace st @ CallReadChunk objs # evs \<and> stays evs"
    if "evaluate_loop s hour cov items (called (CallReadChunk objs) w1 (st\<lparr>world := w0\<rparr>)) = (out, st2)"
      "handle_loop s now items2 st2 = (err, st3)"
    for w0 w1 hour cov items out st2 now items2 err st3
    using eval [OF that(1)] staying.R_handle [OF that(2)] by (auto simp: adds_def)
  from processChunk_run [OF assms] show ?thesis
  proof (cases rule: chunk_run.cases)
    case (unread now w0 lows highs rd w1 st1 e)
    then show ?thesis
      using dependencyError_trace [of s "''redis''" _ st1] by (fastforce simp: adds_def chunk_progress_def)
  next
    case (unsaved now w0 lows highs usage cov w1 hour items st2 st3 e w4)
    obtain D where D: "failure_events ''redis'' D"
      "trace st' = trace (emit CursorError (called (CallSaveCursor (chunk_cursor objs now) (Some e)) w4 st3)) @ D"
      using unsaved dependencyError_events by metis
    then show ?thesis
      using handled [OF unsaved(6,7)] unsaved(1) failure_stays [OF D(1)] by (auto simp: adds_def chunk_progress_def stays_def)
  next
    case (chunk_done now w0 lows highs usage cov w1 hour items st2 st3 w4)
    then show ?thesis
      using handled [OF chunk_done(6,7)] by (auto simp: adds_def chunk_progress_def stays_def)
  next
    case (unhandled now w0 lows highs usage cov w1 hour items st2 e)
    then show ?thesis using handled [OF unhandled(5,6)] by (auto simp: adds_def chunk_progress_def stays_def)
  qed (auto simp: adds_def chunk_progress_def stays_def dest!: eval)
qed

section \<open>One bucket\<close>

text \<open>The objects of a stream that are to be handled: neither directories nor behind its end.\<close>

fun wanted :: "'e listing_event list \<Rightarrow> object list" where
  "wanted [] = []"
| "wanted (Inactive # stream) = wanted stream"
| "wanted (Done # stream) = []"
| "wanted (Item (Inl err) # stream) = []"
| "wanted (Item (Inr obj) # stream) =
     (if Name obj = [] then [] else if is_directory obj then wanted stream else obj # wanted stream)"

text \<open>
  The objects go, in their order, through chunks of at most \<open>most\<close>: \<open>saved_chunks\<close> whose last positions
  are saved, then at most one more that is read but not finished.
\<close>

definition well_sized :: "int \<Rightarrow> object list \<Rightarrow> bool" where
  "well_sized most objs \<longleftrightarrow> objs \<noteq> [] \<and> int (length objs) \<le> most"

definition bucket_progress :: "int \<Rightarrow> object list \<Rightarrow> bool \<Rightarrow> 'e event list \<Rightarrow> bool" where
  "bucket_progress most objs ok evs \<longleftrightarrow>
     (\<exists>saved_chunks rest. objs = concat saved_chunks @ rest \<and>
        saved evs = map (position \<circ> last) saved_chunks \<and> list_all (well_sized most) saved_chunks \<and>
        (if ok then rest = [] \<and> chunks_read evs = saved_chunks
         else chunks_read evs = saved_chunks \<or>
           (\<exists>c. prefix c rest \<and> well_sized most c \<and> chunks_read evs = saved_chunks @ [c])))"

lemma progress_end: "stays evs \<Longrightarrow> bucket_progress most [] True evs"
  by (simp add: bucket_progress_def stays_def)

lemma progress_stop:
  assumes "stays evs"
  shows "bucket_progress most objs False evs"
  unfolding bucket_progress_def using assms
  by (intro exI [of _ "[]"] exI [of _ objs]) (simp add: stays_def)

lemma progress_fail:
  assumes "chunk_progress c False evs" and "well_sized most c"
  shows "bucket_progress most (c @ objs) False evs"
  unfolding bucket_progress_def using assms
  by (intro exI [of _ "[]"] exI [of _ "c @ objs"]) (auto simp: chunk_progress_def)

lemma progress_chunk:
  assumes "chunk_progress c True evs" and "well_sized most c" and "bucket_progress most objs ok evs'"
  shows "bucket_progress most (c @ objs) ok (evs @ evs')"
proof -
  from assms(3) obtain cs rest where "objs = concat cs @ rest" "saved evs' = map (position \<circ> last) cs"
    "list_all (well_sized most) cs" "if ok then rest = [] \<and> chunks_read evs' = cs
      else chunks_read evs' = cs \<or> (\<exists>c. prefix c rest \<and> well_sized most c \<and> chunks_read evs' = cs @ [c])"
    unfolding bucket_progress_def by blast
  with assms(1,2) show ?thesis
    unfolding bucket_progress_def by (intro exI [of _ "c # cs"] exI [of _ rest]) (auto simp: chunk_progress_def)
qed

lemma progress_stay: "stays evs \<Longrightarrow> bucket_progress most objs ok evs' \<Longrightarrow> bucket_progress most objs ok (evs @ evs')"
  by (simp add: bucket_progress_def stays_def cong: if_cong split del: if_split)

lemma bucket_loop_progress:
  assumes "bucket_loop s chunk stream st = (err, st')" and "int (length chunk) < ChunkSize (config s)"
  shows "adds (bucket_progress (ChunkSize (config s)) (chunk @ wanted stream) (err = None)) st st'"
  using assms
proof (induction stream arbitrary: chunk st)
  case Nil
  show ?case
  proof (cases "chunk = []")
    case True
    then show ?thesis using Nil by (auto simp: adds_def stays_def intro: progress_end)
  next
    case False
    then have pc: "processChunk s chunk st = (err, st')" and ok: "well_sized (ChunkSize (config s)) chunk"
      using Nil by (auto simp: well_sized_def)
    obtain evs where evs: "trace st' = trace st @ evs" "chunk_progress chunk (err = None) evs"
      using processChunk_progress [OF pc] by (auto simp: adds_def)
    have "bucket_progress (ChunkSize (config s)) (chunk @ []) (err = None) evs"
    proof (cases "err = None")
      case True
      then show ?thesis
        using progress_chunk [OF _ ok progress_end [of "[]"], of evs] evs by (simp add: stays_def)
    next
      case False
      then show ?thesis using progress_fail [OF _ ok, of evs "[]"] evs by auto
    qed
    with evs show ?thesis by (simp add: adds_def)
  qed
next
  case (Cons ev stream)
  have stop: ?case if "adds stays st st'" "err \<noteq> None"
    using that progress_stop by (auto simp: adds_def)
  show ?case
  proof (cases ev)
    case (Item r)
    show ?thesis
    proof (cases r)
      case (Inl e)
      then show ?thesis
        using Cons.prems Item dependencyError_events [of "''minio''" s e st] failure_stays
        by (intro stop) (auto simp: adds_def stays_def)
    next
      case (Inr obj)
      consider (empty) "Name obj = []" | (dir) "Name obj \<noteq> []" "is_directory obj"
        | (full) "Name obj \<noteq> []" "\<not> is_directory obj" "int (length (chunk @ [obj])) = ChunkSize (config s)"
        | (more) "Name obj \<noteq> []" "\<not> is_directory obj" "int (length (chunk @ [obj])) \<noteq> ChunkSize (config s)"
        by blast
      then show ?thesis
      proof cases
        case empty
        then show ?thesis using Cons.prems Item Inr by (intro stop) (auto simp: adds_def stays_def)
      next
        case dir
        then have "bucket_loop s chunk stream (emit (ObjectHandled ''directory_skipped'') st) = (err, st')"
          using Cons.prems Item Inr by simp
        from Cons.IH [OF this Cons.prems(2)] dir show ?thesis
          using Item Inr progress_stay [of "[ObjectHandled ''directory_skipped'']"]
          by (fastforce simp: adds_def stays_def)
      next
        case full
        obtain pe st1 where pc: "processChunk s (chunk @ [obj]) st = (pe, st1)" by fastforce
        have size: "well_sized (ChunkSize (config s)) (chunk @ [obj])" "0 < ChunkSize (config s)"
          using full(3) by (auto simp: well_sized_def)
        obtain evs where evs: "trace st1 = trace st @ evs" "chunk_progress (chunk @ [obj]) (pe = None) evs"
          using processChunk_progress [OF pc] by (auto simp: adds_def)
        show ?thesis
        proof (cases pe)
          case None
          then have "bucket_loop s [] stream st1 = (err, st')" using Cons.prems Item Inr full pc by simp
          from Cons.IH [OF this] size(2) obtain evs' where "trace st' = trace st1 @ evs'"
            "bucket_progress (ChunkSize (config s)) (wanted stream) (err = None) evs'" by (auto simp: adds_def)
          then show ?thesis
            using progress_chunk [OF evs(2) [unfolded None, simplified] size(1)] evs(1) Item Inr full
            by (fastforce simp: adds_def)
        next
          case (Some e)
          then have "st' = st1" "err = pe" using Cons.prems Item Inr full pc by auto
          with Some show ?thesis
            using progress_fail [OF _ size(1), of evs "wanted stream"] evs Item Inr full by (auto simp: adds_def)
        qed
      next
        case more
        then have "bucket_loop s (chunk @ [obj]) stream st = (err, st')" using Cons.prems Item Inr by simp
        from Cons.IH [OF this] more show ?thesis using Cons.prems(2) Item Inr by auto
      qed
    qed
  next
    case Inactive
    show ?thesis
    proof (cases "OperationTimeout (config s) > 0")
      case True
      then show ?thesis using Cons.prems Inactive by (intro stop) (auto simp: adds_def stays_def)
    next
      case False
      then show ?thesis using Cons.prems Cons.IH Inactive by auto
    qed
  next
    case Done
    then show ?thesis using Cons.prems by (intro stop) (auto simp: adds_def stays_def)
  qed
qed

section \<open>Resuming a bucket\<close>

text \<open>
  A bucket that does not change between two listings: \<open>listing_after start\<close> is the stream a listing
  sends that begins behind \<open>start\<close>.
\<close>

definition objects_after :: "string \<Rightarrow> object list \<Rightarrow> object list" where
  "objects_after start objs = filter (\<lambda>obj. start < Name obj) objs"

definition listing_after :: "string \<Rightarrow> object list \<Rightarrow> 'e listing_event list" where
  "listing_after start objs = map (\<lambda>obj. Item (Inr obj)) (objects_after start objs)"

definition by_name :: "object list \<Rightarrow> bool" where
  "by_name objs \<longleftrightarrow> sorted_wrt (<) (map Name objs)"

definition to_handle :: "string \<Rightarrow> object list \<Rightarrow> object list" where
  "to_handle start objs = filter (\<lambda>obj. \<not> is_directory obj) (objects_after start objs)"

definition resume_point :: "string \<Rightarrow> position list \<Rightarrow> string" where
  "resume_point start ps = (if ps = [] then start else snd (last ps))"

lemma wanted_listing: "wanted (listing_after start objs) = to_handle start objs"
proof -
  have "wanted (map (\<lambda>obj. Item (Inr obj)) xs) = filter (\<lambda>obj. \<not> is_directory obj) xs"
    if "\<forall>obj\<in>set xs. Name obj \<noteq> []" for xs
    using that by (induction xs) auto
  from this [of "objects_after start objs"] show ?thesis
    by (fastforce simp: listing_after_def to_handle_def objects_after_def)
qed

lemma by_name_after: "by_name (xs @ ys) \<Longrightarrow> xs \<noteq> [] \<Longrightarrow> objects_after (Name (last xs)) (xs @ ys) = ys"
proof -
  assume s: "by_name (xs @ ys)" and ne: "xs \<noteq> []"
  then obtain zs z where xs: "xs = zs @ [z]" by (metis rev_exhaust)
  have "\<forall>x\<in>set zs. \<not> Name z < Name x" "\<forall>y\<in>set ys. Name z < Name y"
    using s by (auto simp: xs by_name_def sorted_wrt_append)
  then show ?thesis by (auto simp: objects_after_def xs filter_empty_conv)
qed

lemma by_name_filter: "by_name objs \<Longrightarrow> by_name (filter P objs)"
  by (simp add: by_name_def sorted_wrt_map sorted_wrt_filter)

lemma to_handle_from:
  assumes "by_name objs" and "to_handle start objs = xs @ ys" and "xs \<noteq> []"
  shows "to_handle (Name (last xs)) objs = ys"
proof -
  let ?p = "Name (last xs)"
  have s: "by_name (xs @ ys)"
    using by_name_filter [OF by_name_filter [OF assms(1)]] assms(2) by (metis objects_after_def to_handle_def)
  have "last xs \<in> set (to_handle start objs)" using assms(2,3) by simp
  then have "start < ?p" by (simp add: to_handle_def objects_after_def)
  then have "to_handle ?p objs = objects_after ?p (to_handle start objs)"
    by (auto simp: to_handle_def objects_after_def intro!: filter_cong)
  then show ?thesis using by_name_after [OF s assms(3)] assms(2) by simp
qed

lemma resume_rest:
  assumes "by_name objs" and "to_handle start objs = concat cs @ rest" and "list_all (well_sized most) cs"
  shows "to_handle (resume_point start (map (position \<circ> last) cs)) objs = rest"
proof (cases cs rule: rev_cases)
  case Nil
  then show ?thesis using assms(2) by (simp add: resume_point_def)
next
  case (snoc ds c)
  then have "c \<noteq> []" using assms(3) by (simp add: well_sized_def)
  then show ?thesis
    using to_handle_from [OF assms(1,2)] snoc by (simp add: resume_point_def position_def)
qed

definition new_events :: "('w, 'e) scan \<Rightarrow> ('w, 'e) scan \<Rightarrow> 'e event list" where
  "new_events st st' = drop (length (trace st)) (trace st')"

lemma adds_new_events: "adds P st st' \<Longrightarrow> P (new_events st st')"
  by (auto simp: adds_def new_events_def)

lemma scanBucket_progress:
  assumes "scanBucket s bucket start st = (err, st')" and "0 < ChunkSize (config s)"
    and "fst (inv_objects (deps s) (world st) bucket start) = listing_after start objs"
  shows "bucket_progress (ChunkSize (config s)) (to_handle start objs) (err = None) (new_events st st')"
proof -
  obtain w where "inv_objects (deps s) (world st) bucket start = (listing_after start objs, w)"
    using assms(3) by (metis prod.collapse)
  then have run: "bucket_loop s [] (listing_after start objs) (st\<lparr>world := w\<rparr>) = (err, st')"
    using assms(1) by (simp add: scanBucket_def)
  from adds_new_events [OF bucket_loop_progress [OF run]] assms(2) show ?thesis
    by (simp add: wanted_listing new_events_def)
qed

text \<open>C10: An interrupted bucket scan loses and repeats nothing that was saved: however the first scan of
  a bucket ends, a later scan that starts from the last saved position and completes reads, after
  the chunks the first one saved, exactly the remaining objects, so that together they cover every
  object of the bucket that is not a directory, once and in order.\<close>

theorem resumed_scan_covers_bucket:
  assumes "0 < ChunkSize (config s)" and "by_name objs"
    and "scanBucket s bucket start st1 = (err, st1')"
    and "fst (inv_objects (deps s) (world st1) bucket start) = listing_after start objs"
    and "resume = resume_point start (saved (new_events st1 st1'))"
    and "scanBucket s bucket resume st2 = (None, st2')"
    and "fst (inv_objects (deps s) (world st2) bucket resume) = listing_after resume objs"
  shows "\<exists>saved_chunks. prefix saved_chunks (chunks_read (new_events st1 st1')) \<and>
      saved (new_events st1 st1') = map (position \<circ> last) saved_chunks \<and>
      concat saved_chunks @ concat (chunks_read (new_events st2 st2')) = to_handle start objs"
proof -
  obtain cs rest where cs: "to_handle start objs = concat cs @ rest"
    "saved (new_events st1 st1') = map (position \<circ> last) cs" "list_all (well_sized (ChunkSize (config s))) cs"
    "prefix cs (chunks_read (new_events st1 st1'))"
    using scanBucket_progress [OF assms(3,1,4)] by (fastforce simp: bucket_progress_def split: if_splits)
  have "to_handle resume objs = rest" using resume_rest [OF assms(2) cs(1,3)] cs(2) assms(5) by simp
  moreover have "concat (chunks_read (new_events st2 st2')) = to_handle resume objs"
    using scanBucket_progress [OF assms(6,1,7)] by (auto simp: bucket_progress_def)
  ultimately show ?thesis using cs by (intro exI [of _ cs]) simp
qed

text \<open>A small inventory for the concrete runs: its listing is fixed, and its first \<open>w\<close> reads succeed.\<close>

definition demo_objects :: "object list" where
  "demo_objects = map (\<lambda>n. plain_object ''media'' n) [''a'', ''b'', ''c'']"

definition demo_deps :: "object list \<Rightarrow> (nat, unit) deps" where
  "demo_deps objs =
     \<lparr>inv_buckets = (\<lambda>w. (Inr [''media''], w)),
      inv_objects = (\<lambda>w b start. (listing_after start (if b = ''media'' then objs else []), w)),
      inv_stat = (\<lambda>w obj. (Inr obj, w)),
      inv_plan = (\<lambda>w obj k v. (Inr \<lparr>Required = True, Outcome = MarkerAdded, Tags = [(k, v)]\<rparr>, w)),
      inv_apply = (\<lambda>w obj plan. (None, w)),
      inv_restore = (\<lambda>w obj days. (Inr False, w)),
      use_read = (\<lambda>w os lows highs.
         (if w = 0 then Inl () else Inr (map (\<lambda>_. \<lparr>UsageLow = map (\<lambda>_. 0) lows, UsageHigh = map (\<lambda>_. 0) highs\<rparr>) os,
            map (\<lambda>_. False) lows), w - 1)),
      st_load = (\<lambda>w scope. (Inr None, w)),
      st_save = (\<lambda>w scope c. (None, w)),
      st_reset = (\<lambda>w scope. (None, w)),
      st_reserve = (\<lambda>w now kind limit bytes. (Inr \<lparr>Allowed = True, UsedAttempts = 1, UsedBytes = bytes\<rparr>, w)),
      clock_now = (\<lambda>w. (100 * Hour, w)),
      ctx_err = (\<lambda>w. False),
      is_canceled = (\<lambda>e. False)\<rparr>"

definition demo_scanner :: "object list \<Rightarrow> (nat, unit) scanner" where
  "demo_scanner objs = NewScanner
     \<lparr>ApplyMode = True, Policy = \<lparr>LowThreshold = 1, LowWindowHours = 2, HighThreshold = 5, HighWindowHours = 1,
        HighIncludeCurrent = True\<rparr>, RestoreDays = 3, MarkerKey = ''tier'', MarkerValue = ''cold'', ChunkSize = 2,
      CompletionDelay = Second, RetryDelay = Second, ExcludedBuckets = [], ExcludedPrefixes = [], Scope = ''s'',
      TransitionBudget = \<lparr>Attempts = 0, Bytes = 0\<rparr>, RestoreBudget = \<lparr>Attempts = 0, Bytes = 0\<rparr>,
      OperationTimeout = Second\<rparr> (demo_deps objs)"

definition demo_start :: "nat \<Rightarrow> (nat, unit) scan" where
  "demo_start w = \<lparr>world = w, trace = []\<rparr>"

lemma demo_first: "scanBucket (demo_scanner demo_objects) ''media'' [] (demo_start 1)
    = (Some (UsageReadFailed ()), snd (scanBucket (demo_scanner demo_objects) ''media'' [] (demo_start 1)))"
  by code_simp

lemma demo_second: "scanBucket (demo_scanner demo_objects) ''media'' ''b'' (demo_start 1)
    = (None, snd (scanBucket (demo_scanner demo_objects) ''media'' ''b'' (demo_start 1)))"
  by code_simp

lemma demo_saved: "resume_point [] (saved (new_events (demo_start 1)
    (snd (scanBucket (demo_scanner demo_objects) ''media'' [] (demo_start 1))))) = ''b''"
  by code_simp

theorem resumed_scan_covers_bucket_witness:
  "\<exists>saved_chunks. prefix saved_chunks (chunks_read (new_events (demo_start 1)
       (snd (scanBucket (demo_scanner demo_objects) ''media'' [] (demo_start 1))))) \<and>
     concat saved_chunks @ concat (chunks_read (new_events (demo_start 1)
       (snd (scanBucket (demo_scanner demo_objects) ''media'' ''b'' (demo_start 1))))) = demo_objects"
proof -
  have "0 < ChunkSize (config (demo_scanner demo_objects))" "by_name demo_objects"
    "to_handle [] demo_objects = demo_objects"
    by code_simp+
  moreover have "fst (inv_objects (deps (demo_scanner demo_objects)) w ''media'' start) = listing_after start demo_objects"
    for w start by (simp add: demo_scanner_def demo_deps_def NewScanner_def)
  ultimately show ?thesis
    using resumed_scan_covers_bucket [OF _ _ demo_first _ demo_saved [symmetric] demo_second] by metis
qed

end
