(* ===== verification/Scanner_Order.thy ===== *)
theory Scanner_Order
  imports Scanner_Progress "HOL-Library.Product_Lexorder"
begin

text \<open>
  A whole scan: the positions it saves ascend, it covers every bucket it must, and it removes the
  cursor exactly when it has covered them all.
\<close>

section \<open>Positions ascend\<close>

lemma CursorBefore_position: "CursorBefore c d \<longleftrightarrow> cursor_position c < cursor_position d"
  by (auto simp: CursorBefore_def cursor_position_def)

text \<open>What every listing of the inventory must satisfy: the names ascend strictly behind the start.\<close>

definition strictly_listed :: "string \<Rightarrow> string \<Rightarrow> 'e listing_event list \<Rightarrow> bool" where
  "strictly_listed bucket start stream \<longleftrightarrow>
     sorted_wrt (<) (start # map Name (wanted stream)) \<and> list_all (\<lambda>obj. Bucket obj = bucket) (wanted stream)"

definition sorted_inventory :: "('w, 'e) deps \<Rightarrow> bool" where
  "sorted_inventory d \<longleftrightarrow> (\<forall>w bucket start. strictly_listed bucket start (fst (inv_objects d w bucket start)))"

lemma strictly_listed_positions:
  "strictly_listed bucket start stream \<Longrightarrow> sorted_wrt (<) ((bucket, start) # map position (wanted stream))"
  by (auto simp: strictly_listed_def list_all_iff sorted_wrt_map position_def elim: sorted_wrt_mono_rel [rotated])

lemma sorted_lasts:
  fixes f :: "'a \<Rightarrow> 'b::order"
  shows "sorted_wrt (<) (p # map f (concat cs @ rest)) \<Longrightarrow> [] \<notin> set cs \<Longrightarrow> sorted_wrt (<) (p # map (f \<circ> last) cs)"
proof (induction cs arbitrary: p)
  case (Cons c cs)
  then have c: "c \<noteq> []" by auto
  then obtain ds d where ds: "c = ds @ [d]" by (metis rev_exhaust)
  have "sorted_wrt (<) (f d # map f (concat cs @ rest))"
    using Cons.prems by (simp add: ds sorted_wrt_append)
  moreover have "p < f d" using Cons.prems by (simp add: ds)
  moreover have "[] \<notin> set cs" using Cons.prems(2) by simp
  ultimately show ?case using Cons.IH [of "f d"] ds by (auto intro: less_trans)
qed simp

lemma bucket_progress_sorted:
  assumes "bucket_progress most objs ok evs" and "sorted_wrt (<) (p # map position objs)"
  shows "sorted_wrt (<) (p # saved evs)" and "set (saved evs) \<subseteq> position ` set objs"
proof -
  obtain cs rest where cs: "objs = concat cs @ rest" "saved evs = map (position \<circ> last) cs" "list_all (well_sized most) cs"
    using assms(1) unfolding bucket_progress_def by blast
  have ne: "[] \<notin> set cs" using cs(3) by (auto simp: list_all_iff well_sized_def)
  show "sorted_wrt (<) (p # saved evs)"
    using sorted_lasts [OF assms(2) [unfolded cs(1)] ne] cs(2) by simp
  have "last c \<in> set objs" if "c \<in> set cs" for c
    using that ne cs(1) by (metis UN_I last_in_set set_append set_concat UnI1)
  then show "set (saved evs) \<subseteq> position ` set objs" by (auto simp: cs(2))
qed

lemma scanBucket_sorted:
  assumes "scanBucket s bucket start st = (err, st')" and "0 < ChunkSize (config s)" and "sorted_inventory (deps s)"
  shows "adds (\<lambda>evs. sorted_wrt (<) ((bucket, start) # saved evs) \<and> fst ` set (saved evs) \<subseteq> {bucket}) st st'"
proof -
  obtain stream w where obj: "inv_objects (deps s) (world st) bucket start = (stream, w)" by fastforce
  then have "strictly_listed bucket start stream" using assms(3) by (metis fst_conv sorted_inventory_def)
  note listed = this strictly_listed_positions [OF this]
  have run: "bucket_loop s [] stream (st\<lparr>world := w\<rparr>) = (err, st')"
    using assms(1) obj by (simp add: scanBucket_def)
  obtain evs where evs: "trace st' = trace st @ evs"
    "bucket_progress (ChunkSize (config s)) (wanted stream) (err = None) evs"
    using bucket_loop_progress [OF run] assms(2) by (auto simp: adds_def)
  then show ?thesis
    using bucket_progress_sorted [OF evs(2) listed(2)] listed(1)
    by (auto simp: adds_def strictly_listed_def list_all_iff position_def)
qed

definition start_in :: "cursor option \<Rightarrow> string \<Rightarrow> string" where
  "start_in cur bucket = (case cur of None \<Rightarrow> [] | Some c \<Rightarrow> if bucket = CursorBucket c then CursorObject c else [])"

definition passed_over :: "scanner_config \<Rightarrow> cursor option \<Rightarrow> string \<Rightarrow> bool" where
  "passed_over cfg cur bucket \<longleftrightarrow>
     excluded cfg bucket \<or> (case cur of None \<Rightarrow> False | Some c \<Rightarrow> bucket < CursorBucket c)"

lemma buckets_loop_Cons:
  "buckets_loop s cur (bucket # rest) st =
     (if passed_over (config s) cur bucket then buckets_loop s cur rest st
      else case scanBucket s bucket (start_in cur bucket) st of
             (Some err, st1) \<Rightarrow> (Some err, st1) | (None, st1) \<Rightarrow> buckets_loop s cur rest st1)"
  by (simp add: passed_over_def start_in_def)

definition starts_behind :: "cursor option \<Rightarrow> position list \<Rightarrow> bool" where
  "starts_behind cur ps \<longleftrightarrow> (case cur of None \<Rightarrow> True | Some c \<Rightarrow> list_all (\<lambda>p. cursor_position c < p) ps)"

lemma buckets_loop_sorted:
  assumes "buckets_loop s cur buckets st = (err, st')" and "0 < ChunkSize (config s)" and "sorted_inventory (deps s)"
    and "sorted_wrt (<) buckets"
  shows "adds (\<lambda>evs. sorted_wrt (<) (saved evs) \<and> fst ` set (saved evs) \<subseteq> set buckets \<and> starts_behind cur (saved evs)) st st'"
  using assms(1,4)
proof (induction buckets arbitrary: st)
  case (Cons bucket buckets)
  show ?case
  proof (cases "passed_over (config s) cur bucket")
    case True
    then show ?thesis using Cons by (fastforce simp: buckets_loop_Cons adds_def simp del: buckets_loop.simps)
  next
    case False
    obtain e st1 where sb: "scanBucket s bucket (start_in cur bucket) st = (e, st1)" by fastforce
    obtain evs where evs: "trace st1 = trace st @ evs" "sorted_wrt (<) ((bucket, start_in cur bucket) # saved evs)"
      "fst ` set (saved evs) \<subseteq> {bucket}"
      using scanBucket_sorted [OF sb assms(2,3)] by (auto simp: adds_def)
    have "starts_behind cur [(bucket, start_in cur bucket)] \<or> cur \<noteq> None \<and> (bucket, start_in cur bucket) = cursor_position (the cur)"
      using False by (auto simp: starts_behind_def passed_over_def start_in_def cursor_position_def split: option.splits)
    then have behind: "starts_behind cur (saved evs)"
      using evs(2) by (cases cur) (auto simp: starts_behind_def list_all_iff intro: less_trans)
    show ?thesis
    proof (cases e)
      case None
      then have "buckets_loop s cur buckets st1 = (err, st')"
        using Cons.prems(1) False sb by (simp add: buckets_loop_Cons del: buckets_loop.simps)
      from Cons.IH [OF this] Cons.prems(2) obtain evs' where evs': "trace st' = trace st1 @ evs'"
        "sorted_wrt (<) (saved evs')" "fst ` set (saved evs') \<subseteq> set buckets" "starts_behind cur (saved evs')"
        by (auto simp: adds_def)
      have "p < q" if "p \<in> set (saved evs)" "q \<in> set (saved evs')" for p q
      proof -
        have "fst p = bucket" "fst q \<in> set buckets" using that evs(3) evs'(3) by auto
        then have "fst p < fst q" using Cons.prems(2) by simp
        then show ?thesis by (simp add: less_prod_def')
      qed
      then show ?thesis
        using evs evs' behind by (auto simp: adds_def sorted_wrt_append starts_behind_def split: option.splits)
    next
      case (Some x)
      then have "st' = st1" using Cons.prems(1) False sb by (simp add: buckets_loop_Cons del: buckets_loop.simps)
      then show ?thesis using evs behind by (auto simp: adds_def)
    qed
  qed
qed (simp add: adds_def starts_behind_def split: option.splits)

section \<open>A completed scan covers everything\<close>

text \<open>The objects a scan that loaded the cursor \<open>cur\<close> must handle, when the buckets do not change.\<close>

definition due :: "scanner_config \<Rightarrow> cursor option \<Rightarrow> (string \<Rightarrow> object list) \<Rightarrow> string list \<Rightarrow> object list" where
  "due cfg cur content buckets =
     concat (map (\<lambda>bucket. to_handle (start_in cur bucket) (content bucket))
               (filter (\<lambda>bucket. \<not> passed_over cfg cur bucket) buckets))"

definition still_inventory :: "('w, 'e) deps \<Rightarrow> (string \<Rightarrow> object list) \<Rightarrow> bool" where
  "still_inventory d content \<longleftrightarrow>
     (\<forall>w bucket start. fst (inv_objects d w bucket start) = listing_after start (content bucket))"

lemma scanBucket_covers:
  assumes "scanBucket s bucket start st = (None, st')" and "0 < ChunkSize (config s)"
    and "still_inventory (deps s) content"
  shows "adds (\<lambda>evs. concat (chunks_read evs) = to_handle start (content bucket)) st st'"
proof -
  obtain stream w where obj: "inv_objects (deps s) (world st) bucket start = (stream, w)" by fastforce
  then have stream: "stream = listing_after start (content bucket)"
    using assms(3) unfolding still_inventory_def by (metis fst_conv)
  have "bucket_loop s [] stream (st\<lparr>world := w\<rparr>) = (None, st')"
    using assms(1) obj by (simp add: scanBucket_def)
  from bucket_loop_progress [OF this] assms(2) show ?thesis
    by (auto simp: adds_def bucket_progress_def stream wanted_listing)
qed

lemma buckets_loop_covers:
  assumes "buckets_loop s cur buckets st = (None, st')" and "0 < ChunkSize (config s)"
    and "still_inventory (deps s) content"
  shows "adds (\<lambda>evs. concat (chunks_read evs) = due (config s) cur content buckets) st st'"
  using assms(1)
proof (induction buckets arbitrary: st)
  case (Cons bucket buckets)
  show ?case
  proof (cases "passed_over (config s) cur bucket")
    case True
    then show ?thesis using Cons by (simp add: buckets_loop_Cons due_def del: buckets_loop.simps)
  next
    case False
    obtain st1 where sb: "scanBucket s bucket (start_in cur bucket) st = (None, st1)"
      and rest: "buckets_loop s cur buckets st1 = (None, st')"
      using Cons.prems False by (auto simp: buckets_loop_Cons simp del: buckets_loop.simps split: prod.splits option.splits)
    from scanBucket_covers [OF sb assms(2,3)] Cons.IH [OF rest] False show ?thesis
      by (auto simp: adds_def due_def)
  qed
qed (simp add: adds_def due_def)

section \<open>The cursor goes when the scan is done\<close>

definition cursor_removed :: "'e event \<Rightarrow> bool" where
  "cursor_removed ev = (case ev of CallResetCursor None \<Rightarrow> True | _ \<Rightarrow> False)"

definition keeps_cursor :: "'e event list \<Rightarrow> bool" where
  "keeps_cursor evs \<longleftrightarrow> list_all (\<lambda>ev. \<not> cursor_removed ev) evs"

lemma failure_keeps: "failure_events d D \<Longrightarrow> keeps_cursor D"
  by (auto simp: failure_events_def keeps_cursor_def cursor_removed_def)

lemma inner_keeps: "inner_event ev \<Longrightarrow> \<not> cursor_removed ev"
  by (cases ev) (auto simp: cursor_removed_def)

lemma object_trace_keeps: "object_trace cfg lobj res now evs stop \<Longrightarrow> keeps_cursor evs"
  using object_trace_inner inner_keeps by (fastforce simp: keeps_cursor_def list_all_iff)

interpretation keeping: loops_law s "adds keeps_cursor" for s :: "('w, 'e) scanner"
proof
  fix st st1 st2 :: "('w, 'e) scan" and obj res now err and ev :: "'e event"
  show "adds keeps_cursor st st" by (simp add: adds_def keeps_cursor_def)
  show "adds keeps_cursor st st1 \<Longrightarrow> adds keeps_cursor st1 st2 \<Longrightarrow> adds keeps_cursor st st2"
    by (auto simp: adds_def keeps_cursor_def)
  show "adds keeps_cursor st (emit CoverageSkipped st)" by (simp add: adds_def keeps_cursor_def cursor_removed_def)
  show "adds keeps_cursor st st1" if "handleObject s obj res now st = (err, st1)"
    using handleObject_trace [OF that] object_trace_keeps by (fastforce simp: adds_def)
  show "loop_event ev \<Longrightarrow> adds keeps_cursor st (emit ev st)"
    by (cases ev) (auto simp: adds_def keeps_cursor_def cursor_removed_def)
qed (simp_all add: adds_def keeps_cursor_def cursor_removed_def)

section \<open>One scan\<close>

text \<open>A scan either ends before the first bucket, or runs the loop over the buckets between two stretches that stay.\<close>

definition around :: "'e event list \<Rightarrow> bool" where
  "around evs \<longleftrightarrow> stays evs \<and> keeps_cursor evs"

lemma around_simps [simp]:
  "around []" "around (xs @ ys) \<longleftrightarrow> around xs \<and> around ys"
  by (auto simp: around_def stays_def keeps_cursor_def)

lemma around_events [simp]:
  "around [ScanStarted]" "around [ScanFinished ok]" "around [CursorLoaded t]" "around [CursorError]"
  "around [CallResetCursor (Some e)]"
  by (simp_all add: around_def stays_def keeps_cursor_def cursor_removed_def)

lemma around_failure: "failure_events d D \<Longrightarrow> around D"
  using failure_stays failure_keeps by (auto simp: around_def stays_def)

lemma adds_around_trans: "adds around st st1 \<Longrightarrow> adds around st1 st2 \<Longrightarrow> adds around st st2"
  by (auto simp: adds_def)

lemma adds_around_emit: "around [ev] \<Longrightarrow> adds around st (emit ev st)"
  by (simp add: adds_def)

lemma adds_around_error: "adds around st st1 \<Longrightarrow> adds around st (dependencyError s d e st1)"
  using dependencyError_events [of d s e st1] around_failure by (fastforce simp: adds_def)

lemma adds_around_step: "around [ev] \<Longrightarrow> adds around st st1 \<Longrightarrow> adds around st (emit ev st1)"
  using adds_around_trans adds_around_emit by blast

lemma adds_around_world: "adds around st st1 \<Longrightarrow> adds around st (st1\<lparr>world := w\<rparr>)"
  by (simp add: adds_def)

lemma adds_around_called: "around [ev] \<Longrightarrow> adds around st st1 \<Longrightarrow> adds around st (called ev w st1)"
  by (auto simp: adds_def)

lemmas around_intros = adds_around_error adds_around_step adds_around_world adds_around_called

lemma adds_around_refl: "adds around st st"
  by (simp add: adds_def)

lemma ScanOnce_cases:
  assumes "ScanOnce s lock st = (err, st')"
  shows "(err \<noteq> None \<and> adds around st st') \<or>
    (\<exists>cur w bs w1 st1 be st2. validate (config s) = (None :: 'e scan_error option) \<and>
       st_load (deps (s :: ('w, 'e) scanner)) (world st) (Scope (config s)) = (Inr cur, w) \<and>
       inv_buckets (deps s) w = (Inr bs, w1) \<and> adds around st st1 \<and>
       buckets_loop s cur (slicesSort bs) st1 = (be, st2) \<and>
       (if err = None then be = None \<and> trace st' = trace st2 @ [CallResetCursor None, CursorWasReset, ScanFinished True]
        else adds around st2 st'))"
proof (cases lock)
  case False
  then show ?thesis using assms by (auto simp: ScanOnce_def adds_around_refl)
next
  case True
  let ?st0 = "emit ScanStarted st"
  obtain e st3 where body: "scan_body s ?st0 = (e, st3)" by fastforce
  have err: "err = e" and st': "st' = emit (ScanFinished (e = None)) st3"
    using assms True body by (auto simp: ScanOnce_def)
  have start: "adds around st ?st0" by (rule adds_around_emit) simp
  obtain ld w where ld: "st_load (deps s) (world st) (Scope (config s)) = (ld, w)" by fastforce
  show ?thesis
  proof (cases "(validate (config s) :: 'e scan_error option) = None \<and> (\<exists>cur. ld = Inr cur)")
    case False
    then have "e \<noteq> None \<and> (st3 = ?st0 \<or> (\<exists>x. st3 = dependencyError s ''redis'' x (emit CursorError (?st0\<lparr>world := w\<rparr>))))"
      using body ld
      by (cases "validate (config s) :: 'e scan_error option"; cases ld) (auto simp: scan_body_def dest!: sym [of "Some _"])
    then have "e \<noteq> None" "adds around st st3" using start by (auto intro!: around_intros)
    then show ?thesis using err st' by (simp add: around_intros)
  next
    case True
    then obtain cur where v: "(validate (config s) :: 'e scan_error option) = None" and cur: "ld = Inr cur" by blast
    define st1 where "st1 = (case cur of None \<Rightarrow> ?st0\<lparr>world := w\<rparr> | Some c \<Rightarrow> emit (CursorLoaded (UpdatedAt c)) (?st0\<lparr>world := w\<rparr>))"
    have st1: "adds around st st1" "world st1 = w"
      using start by (auto simp: st1_def intro!: around_intros split: option.splits)
    obtain bs w1 where bs: "inv_buckets (deps s) w = (bs, w1)" by fastforce
    show ?thesis
    proof (cases bs)
      case (Inl x)
      then have "e \<noteq> None" "st3 = dependencyError s ''minio'' x (st1\<lparr>world := w1\<rparr>)"
        using body ld v cur bs st1(2) by (auto simp: scan_body_def st1_def [symmetric])
      then show ?thesis using err st' st1(1) by (simp add: around_intros)
    next
      case (Inr buckets)
      obtain be st2 where bl: "buckets_loop s cur (slicesSort buckets) (st1\<lparr>world := w1\<rparr>) = (be, st2)" by fastforce
      obtain re w3 where re: "st_reset (deps s) (world st2) (Scope (config s)) = (re, w3)" by fastforce
      have "scan_body s ?st0 = (case be of Some x \<Rightarrow> (Some x, st2) | None \<Rightarrow> (case re of
          None \<Rightarrow> (None, emit CursorWasReset (called (CallResetCursor None) w3 st2))
        | Some x \<Rightarrow> (Some (CursorResetFailed x),
            dependencyError s ''redis'' x (emit CursorError (called (CallResetCursor (Some x)) w3 st2)))))"
        using ld v cur bs st1(2) Inr bl re
        by (auto simp: scan_body_def st1_def [symmetric] split: option.splits)
      then have "if e = None then be = None \<and> trace st' = trace st2 @ [CallResetCursor None, CursorWasReset, ScanFinished True]
          else adds around st2 st'"
        using body st' adds_around_refl [of st2] by (cases be; cases re) (auto simp: around_intros)
      moreover have "adds around st (st1\<lparr>world := w1\<rparr>)" using st1(1) by (rule adds_around_world)
      ultimately show ?thesis using v ld cur bs Inr bl err by blast
    qed
  qed
qed

lemma validate_chunk_size: "(validate cfg :: 'e scan_error option) = None \<Longrightarrow> 0 < ChunkSize cfg"
  by (auto simp: validate_def split: if_splits)

lemma around_new: "around evs \<Longrightarrow> chunks_read evs = [] \<and> saved evs = [] \<and> occurrences cursor_removed evs = 0"
  by (auto simp: around_def stays_def keeps_cursor_def list_all_iff occurrences_def filter_empty_conv)

definition loaded_cursor :: "('w, 'e) scanner \<Rightarrow> ('w, 'e) scan \<Rightarrow> cursor option" where
  "loaded_cursor s st =
     (case fst (st_load (deps s) (world st) (Scope (config s))) of Inl _ \<Rightarrow> None | Inr cur \<Rightarrow> cur)"

lemma scan_trace:
  fixes s :: "('w, 'e) scanner"
  assumes "ScanOnce s lock st = (err, st')"
  shows "(err \<noteq> None \<and> around (new_events st st')) \<or>
    (\<exists>w bs w1 pre st1 be st2 post. 0 < ChunkSize (config s) \<and> inv_buckets (deps s) w = (Inr bs, w1) \<and>
       buckets_loop s (loaded_cursor s st) (sort bs) st1 = (be, st2) \<and> adds (\<lambda>evs. new_events st st' = pre @ evs @ post) st1 st2 \<and>
       around pre \<and> (if err = None then be = None \<and> post = [CallResetCursor None, CursorWasReset, ScanFinished True]
                       else around post))"
proof -
  consider "err \<noteq> None" "adds around st st'"
    | cur w bs w1 st1 be st2 where "validate (config s) = (None :: 'e scan_error option)"
        "st_load (deps s) (world st) (Scope (config s)) = (Inr cur, w)" "inv_buckets (deps s) w = (Inr bs, w1)"
        "adds around st st1" "buckets_loop s cur (slicesSort bs) st1 = (be, st2)"
        "if err = None then be = None \<and> trace st' = trace st2 @ [CallResetCursor None, CursorWasReset, ScanFinished True]
         else adds around st2 st'"
    using ScanOnce_cases [OF assms] by blast
  then show ?thesis
  proof cases
    case 1
    then show ?thesis by (simp add: adds_new_events)
  next
    case 2
    obtain pre where pre: "trace st1 = trace st @ pre" "around pre" using 2(4) by (auto simp: adds_def)
    obtain evs where evs: "trace st2 = trace st1 @ evs" using keeping.R_buckets_loop [OF 2(5)] by (auto simp: adds_def)
    obtain post where post: "trace st' = trace st2 @ post"
      "if err = None then be = None \<and> post = [CallResetCursor None, CursorWasReset, ScanFinished True] else around post"
      using 2(6) by (cases "err = None") (auto simp: adds_def)
    have "loaded_cursor s st = cur" using 2(2) by (simp add: loaded_cursor_def)
    with 2 pre evs post show ?thesis
      by (intro disjI2 exI [of _ w] exI [of _ bs] exI [of _ w1] exI [of _ pre] exI [of _ st1] exI [of _ be]
          exI [of _ st2] exI [of _ post])
        (auto simp: new_events_def adds_def slicesSort_sort validate_chunk_size)
  qed
qed

lemma saved_cursors_forward:
  assumes "sorted_inventory (deps s)" and "\<forall>w bs w'. inv_buckets (deps s) w = (Inr bs, w') \<longrightarrow> distinct bs"
    and "ScanOnce s lock st = (err, st')"
  shows "sorted_wrt CursorBefore (saved_cursors (new_events st st')) \<and>
    (\<forall>cur. loaded_cursor s st = Some cur \<longrightarrow> list_all (CursorBefore cur) (saved_cursors (new_events st st')))"
proof -
  have "sorted_wrt (<) (saved (new_events st st')) \<and> starts_behind (loaded_cursor s st) (saved (new_events st st'))"
    using scan_trace [OF assms(3)]
  proof (elim disjE exE conjE)
    assume "around (new_events st st')"
    from around_new [OF this] show ?thesis by (auto simp: starts_behind_def split: option.splits)
  next
    fix w bs w1 pre st1 be st2 post
    assume size: "0 < ChunkSize (config s)" and bs: "inv_buckets (deps s) w = (Inr bs, w1)"
      and run: "buckets_loop s (loaded_cursor s st) (sort bs) st1 = (be, st2)"
      and new: "adds (\<lambda>evs. new_events st st' = pre @ evs @ post) st1 st2" and pre: "around pre"
      and post: "if err = None then be = None \<and> post = [CallResetCursor None, CursorWasReset, ScanFinished True] else around post"
    have "sorted_wrt (<) (sort bs)" using assms(2) bs by (auto simp: strict_sorted_iff)
    from buckets_loop_sorted [OF run size assms(1) this] new around_new [OF pre] post around_new [of post]
    show ?thesis by (auto simp: adds_def split: if_splits)
  qed
  then show ?thesis
    by (auto simp: saved_map sorted_wrt_map CursorBefore_position [symmetric] starts_behind_def list_all_iff)
qed

text \<open>The scan position only moves forward: over an inventory that lists each bucket in strictly
  ascending order and names no bucket twice, the cursors a scan saves come after the cursor it
  loaded and each comes before the next in the order of \<open>CursorBefore\<close>, whatever fails on the way.\<close>

theorem saved_cursors_ascend:
  assumes "sorted_inventory (deps s)" and "\<forall>w bs w'. inv_buckets (deps s) w = (Inr bs, w') \<longrightarrow> distinct bs"
    and "ScanOnce s lock st = (err, st')"
  shows "sorted_wrt CursorBefore (saved_cursors (new_events st st')) \<and>
    (\<forall>cur. loaded_cursor s st = Some cur \<longrightarrow> list_all (CursorBefore cur) (saved_cursors (new_events st st')))"
  using saved_cursors_forward [OF assms] .

lemma demo_inventory: "sorted_inventory (deps (demo_scanner demo_objects))"
proof -
  have d: "fst (inv_objects (deps (demo_scanner demo_objects)) w b start)
      = listing_after start (if b = ''media'' then demo_objects else [])" for w b start
    by (simp add: demo_scanner_def demo_deps_def NewScanner_def)
  have "by_name demo_objects" by code_simp
  then have "sorted_wrt (<) (map Name (to_handle start demo_objects))" for start
    using by_name_filter [OF by_name_filter] by (simp add: to_handle_def objects_after_def by_name_def)
  moreover have "\<forall>x\<in>set demo_objects. Bucket x = ''media''" by code_simp
  ultimately show ?thesis
    by (auto simp: sorted_inventory_def strictly_listed_def d wanted_listing list_all_iff)
      (auto simp: to_handle_def objects_after_def)
qed

lemma demo_buckets: "inv_buckets (deps (demo_scanner demo_objects)) w = (Inr bs, w') \<Longrightarrow> bs = [''media'']"
  by (simp add: demo_scanner_def demo_deps_def NewScanner_def)

theorem saved_cursors_ascend_witness:
  "sorted_wrt CursorBefore (saved_cursors (new_events (demo_start 2)
     (snd (ScanOnce (demo_scanner demo_objects) True (demo_start 2)))))"
proof -
  obtain err st' where run: "ScanOnce (demo_scanner demo_objects) True (demo_start 2) = (err, st')" by fastforce
  have "\<forall>w bs w'. inv_buckets (deps (demo_scanner demo_objects)) w = (Inr bs, w') \<longrightarrow> distinct bs"
    using demo_buckets by fastforce
  from saved_cursors_ascend [OF demo_inventory this run] run show ?thesis by simp
qed

text \<open>C9: A scan that ends without an error has covered everything: over buckets that do not change, the
  chunks it read hold every object, directories aside, of every bucket that is neither excluded nor
  before the loaded cursor, from the cursor's object on in the cursor's own bucket, once and in order.\<close>

theorem completed_scan_covers_inventory:
  fixes s :: "('w, 'e) scanner"
  assumes "still_inventory (deps s) content" and "\<forall>w. fst (inv_buckets (deps s) w) = Inr buckets"
    and "ScanOnce s lock st = (None, st')"
  shows "concat (chunks_read (new_events st st')) = due (config s) (loaded_cursor s st) content (slicesSort buckets)"
  using scan_trace [OF assms(3)]
proof (elim disjE exE conjE)
  fix w bs w1 pre st1 be st2 post
  assume size: "0 < ChunkSize (config s)" and bs: "inv_buckets (deps s) w = (Inr bs, w1)"
    and run: "buckets_loop s (loaded_cursor s st) (sort bs) st1 = (be, st2)"
    and new: "adds (\<lambda>evs. new_events st st' = pre @ evs @ post) st1 st2" and pre: "around pre"
    and post: "if (None :: 'e scan_error option) = None
      then be = None \<and> post = [CallResetCursor None, CursorWasReset, ScanFinished True] else around post"
  have "bs = buckets" using assms(2) bs by (metis fst_conv sum.inject(2))
  moreover have "be = None" "chunks_read post = []" using post by auto
  ultimately show ?thesis
    using buckets_loop_covers [OF run [unfolded \<open>be = None\<close>] size assms(1)] new around_new [OF pre]
    by (auto simp: adds_def slicesSort_sort)
qed simp

theorem completed_scan_covers_inventory_witness:
  "concat (chunks_read (new_events (demo_start 2) (snd (ScanOnce (demo_scanner demo_objects) True (demo_start 2)))))
   = demo_objects"
proof -
  have "still_inventory (deps (demo_scanner demo_objects)) (\<lambda>b. if b = ''media'' then demo_objects else [])"
    "\<forall>w. fst (inv_buckets (deps (demo_scanner demo_objects)) w) = Inr [''media'']"
    by (simp_all add: still_inventory_def demo_scanner_def demo_deps_def NewScanner_def)
  moreover have "fst (ScanOnce (demo_scanner demo_objects) True (demo_start 2)) = None" by code_simp
  then have "ScanOnce (demo_scanner demo_objects) True (demo_start 2)
      = (None, snd (ScanOnce (demo_scanner demo_objects) True (demo_start 2)))" by (metis prod.collapse)
  moreover have "due (config (demo_scanner demo_objects)) (loaded_cursor (demo_scanner demo_objects) (demo_start 2))
      (\<lambda>b. if b = ''media'' then demo_objects else []) (slicesSort [''media'']) = demo_objects" by code_simp
  ultimately show ?thesis using completed_scan_covers_inventory by metis
qed

text \<open>The durable cursor is removed exactly when a scan completes: one successful reset in a scan that
  reports no error, as its last call, and none in any other.\<close>

theorem cursor_removed_on_completion:
  "occurrences cursor_removed (new_events st (snd (ScanOnce s lock st)))
   = (if fst (ScanOnce s lock st) = None then 1 else 0)"
proof -
  obtain err st' where run: "ScanOnce s lock st = (err, st')" by fastforce
  from scan_trace [OF run] have "occurrences cursor_removed (new_events st st') = (if err = None then 1 else 0)"
  proof (elim disjE exE conjE)
    fix w bs w1 pre st1 be st2 post
    assume loop: "buckets_loop s (loaded_cursor s st) (sort bs) st1 = (be, st2)"
      and new: "adds (\<lambda>evs. new_events st st' = pre @ evs @ post) st1 st2" and pre: "around pre"
      and post: "if err = None then be = None \<and> post = [CallResetCursor None, CursorWasReset, ScanFinished True]
        else around post"
    have "adds (\<lambda>evs. occurrences cursor_removed evs = 0) st1 st2"
      using keeping.R_buckets_loop [OF loop]
      by (auto simp: adds_def keeps_cursor_def occurrences_def filter_empty_conv list_all_iff)
    then show ?thesis
      using new post around_new [OF pre] around_new [of post]
      by (auto simp: adds_def cursor_removed_def split: if_splits)
  qed (simp add: around_new)
  with run show ?thesis by simp
qed

end
