(* ===== verification/Scanner_Calls.thy ===== *)
theory Scanner_Calls
  imports Scanner_Order
begin

text \<open>
  The bottom of the laws of a scan: what every single call of the scanner must keep. \<open>call_law\<close> asks it
  of each call of the interfaces, on the objects a stat returned where the call reserves budget for
  one, and gives the law of the whole run.
\<close>

definition kind_limit :: "scanner_config \<Rightarrow> budget_kind \<Rightarrow> budget_limit" where
  "kind_limit cfg kind = (if kind = BudgetTransition then TransitionBudget cfg else RestoreBudget cfg)"

locale call_law =
  fixes s :: "('w, 'e) scanner" and R :: "('w, 'e) scan \<Rightarrow> ('w, 'e) scan \<Rightarrow> bool" and ok :: "object \<Rightarrow> bool"
  assumes C_refl: "R st st"
    and C_trans: "R st st1 \<Longrightarrow> R st1 st2 \<Longrightarrow> R st st2"
    and C_plain: "plain_event ev \<Longrightarrow> R st (emit ev st)"
    and C_now: "clock_now (deps s) (world st) = (t, w) \<Longrightarrow> R st (st\<lparr>world := w\<rparr>)"
    and C_objects: "inv_objects (deps s) (world st) bucket start = (stream, w) \<Longrightarrow> R st (st\<lparr>world := w\<rparr>)"
    and C_buckets: "inv_buckets (deps s) (world st) = (bs, w) \<Longrightarrow> R st (st\<lparr>world := w\<rparr>)"
    and C_plan: "inv_plan (deps s) (world st) obj k v = (r, w) \<Longrightarrow> R st (st\<lparr>world := w\<rparr>)"
    and C_load: "st_load (deps s) (world st) scope = (ld, w) \<Longrightarrow> R st (st\<lparr>world := w\<rparr>)"
    and C_read: "use_read (deps s) (world st) objs lows highs = (rd, w) \<Longrightarrow> R st (called (CallReadChunk objs) w st)"
    and C_save: "st_save (deps s) (world st) scope c = (e, w) \<Longrightarrow> R st (called (CallSaveCursor c e) w st)"
    and C_reset: "st_reset (deps s) (world st) scope = (e, w) \<Longrightarrow> R st (called (CallResetCursor e) w st)"
    and C_stat: "inv_stat (deps s) (world st) obj = (stat, w) \<Longrightarrow> R st (called (CallStat obj stat) w st)"
    and C_stat_ok: "inv_stat (deps s) w0 obj = (Inr cur, w) \<Longrightarrow> ok cur"
    and C_apply: "inv_apply (deps s) (world st) obj plan = (e, w) \<Longrightarrow> R st (called (CallApplyMarker obj plan e) w st)"
    and C_restore: "inv_restore (deps s) (world st) obj days = (out, w) \<Longrightarrow> R st (called (CallRestore obj days out) w st)"
    and C_reserve: "kind = BudgetTransition \<or> kind = BudgetRestore \<Longrightarrow> ok obj \<Longrightarrow> bytes = Size obj \<or> bytes = 0 \<Longrightarrow>
          clock_now (deps s) (world st) = (now, w1) \<Longrightarrow>
          st_reserve (deps s) w1 now kind (kind_limit (config s) kind) bytes = (rsv, w2) \<Longrightarrow>
          R st (called (CallReserve kind bytes rsv) w2 st)"
begin

lemma C_emit: "plain_event ev \<Longrightarrow> R st st1 \<Longrightarrow> R st (emit ev st1)"
  using C_trans C_plain by blast

lemma C_error: "R st st1 \<Longrightarrow> R st (dependencyError s d e st1)"
  using C_emit by (simp add: dependencyError_def)

lemma C_reserve_transition:
  "R st st1 \<Longrightarrow> ok obj \<Longrightarrow> clock_now (deps s) (world st1) = (now, w1) \<Longrightarrow>
     st_reserve (deps s) w1 now BudgetTransition (TransitionBudget (config s)) (Size obj) = (res, w2) \<Longrightarrow>
     R st (called (CallReserve BudgetTransition (Size obj) res) w2 st1)"
  using C_trans C_reserve [of BudgetTransition obj "Size obj" st1] by (simp add: kind_limit_def)

lemma C_reserve_restore:
  "R st st1 \<Longrightarrow> ok obj \<Longrightarrow> bytes = Size obj \<or> bytes = 0 \<Longrightarrow> clock_now (deps s) (world st1) = (now, w1) \<Longrightarrow>
     st_reserve (deps s) w1 now BudgetRestore (RestoreBudget (config s)) bytes = (res, w2) \<Longrightarrow>
     R st (called (CallReserve BudgetRestore bytes res) w2 st1)"
  using C_trans C_reserve [of BudgetRestore obj bytes st1] by (simp add: kind_limit_def)

lemma C_then_apply:
  "R st st1 \<Longrightarrow> inv_apply (deps s) (world st1) obj plan = (e, w) \<Longrightarrow> R st (called (CallApplyMarker obj plan e) w st1)"
  using C_trans C_apply by blast

lemma C_then_restore:
  "R st st1 \<Longrightarrow> inv_restore (deps s) (world st1) obj days = (out, w) \<Longrightarrow> R st (called (CallRestore obj days out) w st1)"
  using C_trans C_restore by blast

lemmas C_intros = C_emit C_error C_reserve_transition C_reserve_restore C_then_apply C_then_restore

lemma C_marker: "handleMarker s obj st = (err, st') \<Longrightarrow> ok obj \<Longrightarrow> R st st'"
  by (auto simp: handleMarker_def Let_def split: prod.splits sum.splits option.splits if_splits
      intro!: C_intros C_plan)

lemma C_restore_object: "handleRestore s obj act st = (err, st') \<Longrightarrow> ok obj \<Longrightarrow> R st st'"
  by (auto simp: handleRestore_def Let_def split: prod.splits sum.splits option.splits if_splits
      intro!: C_intros C_refl)

lemma C_transition_state: "R (emit (TransitionState b) st) st' \<Longrightarrow> R st st'"
  by (rule C_trans [OF C_plain [of "TransitionState b"]]) simp_all

lemma C_perform: "perform s obj state act st = (err, st') \<Longrightarrow> ok obj \<or> act = ActionNone \<Longrightarrow> R st st'"
  by (auto simp: perform_def Let_def C_emit C_refl split: action.splits dest!: C_marker C_restore_object
      intro: C_transition_state)

lemma C_object: "handleObject s obj res now st = (err, st') \<Longrightarrow> R st st'"
proof -
  assume run: "handleObject s obj res now st = (err, st')"
  define act where "act = (if StateKnown obj then DecideAction (State obj) (Low res) (High res) now else ActionNone)"
  show ?thesis
  proof (cases "(\<not> StateKnown obj \<and> (Low res \<or> High res)) \<or> act \<noteq> ActionNone")
    case False
    then have "perform s obj (State obj) ActionNone st = (err, st')"
      using run by (auto simp: handleObject_def act_def [symmetric] split: if_splits)
    then show ?thesis by (rule C_perform) simp
  next
    case True
    obtain out w where stat: "inv_stat (deps s) (world st) obj = (out, w)" by fastforce
    note st1 = C_stat [OF stat]
    show ?thesis
      using run True stat st1 C_stat_ok
      by (auto simp: handleObject_def act_def [symmetric] Let_def split: sum.splits if_splits
          intro: C_emit C_error C_trans [OF st1 C_perform])
  qed
qed

end

sublocale call_law \<subseteq> law: scan_law s R
proof
  fix st st1 st2 :: "('w, 'e) scan" and ev :: "'e event" and obj res now err
  show "R st st" by (rule C_refl)
  show "R st st1 \<Longrightarrow> R st1 st2 \<Longrightarrow> R st st2" by (rule C_trans)
  show "R st (emit CoverageSkipped st)" by (rule C_plain) simp
  show "handleObject s obj res now st = (err, st1) \<Longrightarrow> R st st1" by (rule C_object)
qed (auto intro: C_plain C_now C_objects C_buckets C_load C_read C_save C_reset dest: event_classes)

end
