(* ===== verification/Tierer_Budget.thy ===== *)
theory Tierer_Budget
  imports Tierer_Store
begin

text \<open>
  What \<open>Reserve\<close> of \<^verbatim>\<open>internal/tierer/redis.go\<close> guarantees: a granted reservation is counted once and
  keeps both limits of the day, a denied one counts nothing, and an error leaves the budget as it
  was or charged once within its limits. From this the interface \<open>budget_store\<close>, and that no run of
  reservations grants more attempts or bytes in a day than the budget allows.
\<close>

section \<open>The interface\<close>

definition within_budget :: "budget_limit \<Rightarrow> nat \<times> nat \<Rightarrow> bool" where
  "within_budget limit used \<longleftrightarrow>
     (0 < Attempts limit \<longrightarrow> int (fst used) \<le> Attempts limit) \<and>
     (0 < Bytes limit \<longrightarrow> int (snd used) \<le> Bytes limit)"

definition unlimited :: "budget_limit \<Rightarrow> bool" where
  "unlimited limit \<longleftrightarrow> Attempts limit = 0 \<and> Bytes limit = 0"

text \<open>
  \<open>used c now kind\<close> are the attempts and bytes counted for the day of \<open>now\<close>; \<open>live c now\<close> says that
  the counters of that day have not expired on the server.
\<close>

locale budget_store =
  fixes reserve :: "'c \<Rightarrow> time \<Rightarrow> budget_kind \<Rightarrow> budget_limit \<Rightarrow> int \<Rightarrow> (store_error + reservation) \<times> 'c"
    and used :: "'c \<Rightarrow> time \<Rightarrow> budget_kind \<Rightarrow> nat \<times> nat"
    and live :: "'c \<Rightarrow> time \<Rightarrow> bool"
    and fits :: "budget_limit \<Rightarrow> int \<Rightarrow> bool"
  assumes granted: "live c now \<Longrightarrow> fits limit bytes \<Longrightarrow> \<not> unlimited limit \<Longrightarrow>
          reserve c now kind limit bytes = (Inr r, c') \<Longrightarrow> Allowed r \<Longrightarrow>
          used c' now kind = (fst (used c now kind) + 1, snd (used c now kind) + nat bytes) \<and>
          within_budget limit (used c' now kind) \<and> 0 \<le> bytes"
    and charged_once: "live c now \<Longrightarrow> fits limit bytes \<Longrightarrow> \<not> unlimited limit \<Longrightarrow>
          reserve c now kind limit bytes = (res, c') \<Longrightarrow>
          used c' now kind = used c now kind \<or>
          (used c' now kind = (fst (used c now kind) + 1, snd (used c now kind) + nat bytes) \<and>
           within_budget limit (used c' now kind))"
    and denied: "live c now \<Longrightarrow> fits limit bytes \<Longrightarrow>
          reserve c now kind limit bytes = (Inr r, c') \<Longrightarrow> \<not> Allowed r \<Longrightarrow> used c' = used c"
    and live_stable: "live c now \<Longrightarrow> fits limit bytes \<Longrightarrow> reserve c now kind limit bytes = (res, c') \<Longrightarrow> live c' = live c"
    and same_day: "now div Day = now' div Day \<Longrightarrow> used c now kind = used c now' kind"

text \<open>Reservations one after the other; the result lists each with its answer.\<close>

fun reserve_run ::
    "('c \<Rightarrow> time \<Rightarrow> budget_kind \<Rightarrow> budget_limit \<Rightarrow> int \<Rightarrow> (store_error + reservation) \<times> 'c) \<Rightarrow>
     budget_kind \<Rightarrow> budget_limit \<Rightarrow> (time \<times> int) list \<Rightarrow> 'c \<Rightarrow> (int \<times> (store_error + reservation)) list \<times> 'c" where
  "reserve_run reserve kind limit [] c = ([], c)"
| "reserve_run reserve kind limit ((now, bytes) # reqs) c =
     (case reserve c now kind limit bytes of
        (res, c1) \<Rightarrow> (case reserve_run reserve kind limit reqs c1 of (rs, c2) \<Rightarrow> ((bytes, res) # rs, c2)))"

definition was_granted :: "store_error + reservation \<Rightarrow> bool" where
  "was_granted res = (case res of Inl _ \<Rightarrow> False | Inr r \<Rightarrow> Allowed r)"

definition granted_attempts :: "(int \<times> (store_error + reservation)) list \<Rightarrow> nat" where
  "granted_attempts rs = length (filter (\<lambda>(bytes, res). was_granted res) rs)"

definition granted_bytes :: "(int \<times> (store_error + reservation)) list \<Rightarrow> nat" where
  "granted_bytes rs = (\<Sum>(bytes, res)\<leftarrow>filter (\<lambda>(bytes, res). was_granted res) rs. nat bytes)"

lemma granted_Cons:
  "granted_attempts ((bytes, res) # rs) = (if was_granted res then 1 else 0) + granted_attempts rs"
  "granted_bytes ((bytes, res) # rs) = (if was_granted res then nat bytes else 0) + granted_bytes rs"
  by (simp_all add: granted_attempts_def granted_bytes_def)

context budget_store
begin

lemma reserve_run_used:
  assumes "\<forall>(now, bytes)\<in>set reqs. now div Day = day div Day \<and> live c now \<and> fits limit bytes"
    and "\<not> unlimited limit" and "reserve_run reserve kind limit reqs c = (rs, c')"
  shows "fst (used c day kind) + granted_attempts rs \<le> fst (used c' day kind) \<and>
    snd (used c day kind) + granted_bytes rs \<le> snd (used c' day kind) \<and>
    (used c' day kind = used c day kind \<or> within_budget limit (used c' day kind))"
  using assms
proof (induction reqs arbitrary: c rs)
  case Nil
  then show ?case by (simp add: granted_attempts_def granted_bytes_def)
next
  case (Cons req reqs)
  obtain now bytes where req: "req = (now, bytes)" by (cases req)
  have now: "now div Day = day div Day" "live c now" "fits limit bytes" using Cons.prems(1) req by auto
  obtain res c1 where r1: "reserve c now kind limit bytes = (res, c1)" by fastforce
  obtain rs1 where run: "reserve_run reserve kind limit reqs c1 = (rs1, c')" and rs: "rs = (bytes, res) # rs1"
    using Cons.prems(3) req r1 by (auto split: prod.splits)
  have "live c1 = live c" by (rule live_stable [OF now(2,3) r1])
  then have IH: "fst (used c1 day kind) + granted_attempts rs1 \<le> fst (used c' day kind) \<and>
      snd (used c1 day kind) + granted_bytes rs1 \<le> snd (used c' day kind) \<and>
      (used c' day kind = used c1 day kind \<or> within_budget limit (used c' day kind))"
    using Cons.prems(1,2) req run by (intro Cons.IH) auto
  have day: "used x now kind = used x day kind" for x by (rule same_day [OF now(1)])
  have once: "used c1 day kind = used c day kind \<or>
      (used c1 day kind = (fst (used c day kind) + 1, snd (used c day kind) + nat bytes) \<and>
       within_budget limit (used c1 day kind))"
    using charged_once [OF now(2,3) Cons.prems(2) r1] unfolding day .
  have "used c1 day kind = (fst (used c day kind) + 1, snd (used c day kind) + nat bytes)"
    if g: "was_granted res"
  proof -
    from g obtain r where "res = Inr r" "Allowed r" by (auto simp: was_granted_def split: sum.splits)
    with granted [OF now(2,3) Cons.prems(2), of kind r c1] r1 show ?thesis unfolding day by blast
  qed
  then show ?case using IH once unfolding rs granted_Cons by (cases "was_granted res") auto
qed

lemma budget_kept:
  assumes "\<forall>(now, bytes)\<in>set reqs. now div Day = day div Day \<and> live c now \<and> fits limit bytes"
    and "reserve_run reserve kind limit reqs c = (rs, c')"
  shows "0 < Attempts limit \<Longrightarrow> int (granted_attempts rs) \<le> max 0 (Attempts limit - int (fst (used c day kind)))"
    and "0 < Bytes limit \<Longrightarrow> int (granted_bytes rs) \<le> max 0 (Bytes limit - int (snd (used c day kind)))"
proof -
  have run: "fst (used c day kind) + granted_attempts rs \<le> fst (used c' day kind) \<and>
    snd (used c day kind) + granted_bytes rs \<le> snd (used c' day kind) \<and>
    (used c' day kind = used c day kind \<or> within_budget limit (used c' day kind))" if "\<not> unlimited limit"
    using reserve_run_used [OF assms(1) that assms(2)] .
  show "0 < Attempts limit \<Longrightarrow> int (granted_attempts rs) \<le> max 0 (Attempts limit - int (fst (used c day kind)))"
    using run by (auto simp: unlimited_def within_budget_def)
  show "0 < Bytes limit \<Longrightarrow> int (granted_bytes rs) \<le> max 0 (Bytes limit - int (snd (used c day kind)))"
    using run by (auto simp: unlimited_def within_budget_def)
qed

end

section \<open>The store keeps it\<close>

definition budget_used ::
    "('s \<Rightarrow> string \<Rightarrow> rvalue option) \<Rightarrow> redis_store \<Rightarrow> 's tierer_conn \<Rightarrow> time \<Rightarrow> budget_kind \<Rightarrow> nat \<times> nat" where
  "budget_used val s c now kind =
     (counter_at val (t_server c) (budget_prefix s now kind @ ''-attempts''),
      counter_at val (t_server c) (budget_prefix s now kind @ ''-bytes''))"

definition budget_live :: "('s \<Rightarrow> int) \<Rightarrow> 's tierer_conn \<Rightarrow> time \<Rightarrow> bool" where
  "budget_live clock c now \<longleftrightarrow>
     clock (t_server c) < budget_expiry now \<and> 0 \<le> budget_expiry now \<and> budget_expiry now \<le> int max_expiry"

definition budget_fits :: "budget_limit \<Rightarrow> int \<Rightarrow> bool" where
  "budget_fits limit bytes \<longleftrightarrow> Attempts limit \<le> max_int64 \<and> Bytes limit \<le> max_int64 \<and> bytes \<le> max_int64"

lemma lua_run_reserve:
  assumes "0 \<le> al" "0 \<le> bl" "0 \<le> d" "0 \<le> t"
  shows "lua_run redis ReserveBudget [k1, k2] [al, bl, d, t] s
    = reserve_script redis k1 k2 (dec_nat (nat al)) (dec_nat (nat bl)) (dec_nat (nat d)) (dec_nat (nat t)) s"
  using assms by (simp add: lua_run_def format_int_def del: dec_nat.simps)

lemma counter_of_bound: "counter_of v = Some n \<Longrightarrow> n \<le> 9223372036854775807"
  by (auto simp: counter_of_def valid_uint_ex split: option.splits rvalue.splits if_splits simp del: dec_nat.simps)

context redis_server
begin

lemma Reserve_outcome:
  assumes "Reserve (lua_commands redis ks) s c now kind limit bytes = (res, c')"
    and "budget_live clock c now" and "budget_fits limit bytes"
  defines "srv \<equiv> t_server c" and "srv' \<equiv> t_server c'"
  defines "ka \<equiv> budget_prefix s now kind @ ''-attempts''" and "kb \<equiv> budget_prefix s now kind @ ''-bytes''"
  shows "(srv' = srv \<and> (case res of Inl _ \<Rightarrow> True | Inr r \<Rightarrow> Allowed r \<longrightarrow> unlimited limit)) \<or>
    (clock srv' = clock srv \<and> \<not> unlimited limit \<and> 0 \<le> bytes \<and> (case res of Inl _ \<Rightarrow> True | Inr r \<Rightarrow> Allowed r) \<and>
     counter_at val srv' ka = counter_at val srv ka + 1 \<and>
     counter_at val srv' kb = counter_at val srv kb + nat bytes \<and>
     within_budget limit (counter_at val srv' ka, counter_at val srv' kb) \<and>
     (\<forall>k. k \<noteq> ka \<longrightarrow> k \<noteq> kb \<longrightarrow> val srv' k = val srv k))"
proof (cases "(kind = BudgetTransition \<or> kind = BudgetRestore) \<and> 0 \<le> Attempts limit \<and> 0 \<le> Bytes limit \<and>
    0 \<le> bytes \<and> \<not> unlimited limit")
  case False
  then show ?thesis
    using assms(1) unfolding srv_def srv'_def by (auto simp: Reserve_def unlimited_def Let_def split: if_splits)
next
  case True
  define al where "al = (if Attempts limit = 0 then max_int64 else Attempts limit)"
  define bl where "bl = (if Bytes limit = 0 then max_int64 else Bytes limit)"
  define t where "t = nat (budget_expiry now)"
  have pos: "0 < al" "0 < bl" "al \<le> max_int64" "bl \<le> max_int64" "0 \<le> bytes" "bytes \<le> max_int64" "0 \<le> budget_expiry now"
    using True assms(2,3) by (auto simp: al_def bl_def max_int64_def budget_fits_def budget_live_def)
  obtain rep s1 where script: "reserve_script redis ka kb (dec_nat (nat al)) (dec_nat (nat bl))
      (dec_nat (nat bytes)) (dec_nat t) srv = (rep, s1)" by fastforce
  then have lua: "lua_run redis ReserveBudget [ka, kb] [al, bl, bytes, budget_expiry now] srv = (rep, s1)"
    using pos by (simp add: lua_run_reserve t_def del: dec_nat.simps)
  obtain ev where ev: "EvalScript (lua_commands redis ks) c ReserveBudget [ka, kb]
      [al, bl, bytes, budget_expiry now] = (ev, c')"
    and res: "res = (case ev of Inl err \<Rightarrow> Inl (EvalFailed err) | Inr raw \<Rightarrow>
        bind_res (redisArray raw 3) (\<lambda>values.
          bind_res (redisInt64 (values ! 0)) (\<lambda>allowed.
          bind_res (redisInt64 (values ! 1)) (\<lambda>usedAttempts.
          bind_res (redisInt64 (values ! 2)) (\<lambda>usedBytes.
            Inr \<lparr>Allowed = (allowed = 1), UsedAttempts = usedAttempts, UsedBytes = usedBytes\<rparr>)))))"
    using assms(1) True
    by (auto simp: Reserve_def Let_def al_def bl_def ka_def kb_def unlimited_def split: prod.splits sum.splits if_splits)
  have "ka \<noteq> kb" by (simp add: ka_def kb_def)
  moreover have "clock srv < int t" "t \<le> max_expiry"
    using assms(2) by (auto simp: budget_live_def t_def srv_def)
  ultimately have cases: "case (counter_of (val srv ka), counter_of (val srv kb)) of
      (Some a, Some b) \<Rightarrow>
        if a + 1 \<le> nat al \<and> b + nat bytes \<le> nat bl
        then \<exists>n1 n2 s'. (rep, s1) = (ArrayReply [IntReply 1, n1, n2], s') \<and> clock s' = clock srv \<and>
             n1 = IntReply (lua_integer (int (a + 1))) \<and>
             n2 = (if nat bytes = 0 then BulkReply (dec_nat b) else IntReply (lua_integer (int (b + nat bytes)))) \<and>
             counter_at val s' ka = a + 1 \<and> counter_at val s' kb = b + nat bytes \<and>
             (\<forall>k. k \<noteq> ka \<longrightarrow> k \<noteq> kb \<longrightarrow> val s' k = val srv k)
        else (rep, s1) = (ArrayReply [IntReply 0, BulkReply (dec_nat a), BulkReply (dec_nat b)], srv)
    | _ \<Rightarrow> \<exists>err. (rep, s1) = (ErrorReply err, srv)"
    using pos reserve_script_cases [of ka kb srv t "nat al" "nat bl" "nat bytes"]
    unfolding script by (simp add: max_int64_def nat_le_iff)
  consider (err) e where "rep = ErrorReply e" "s1 = srv"
    | (no) a b where "counter_of (val srv ka) = Some a" "counter_of (val srv kb) = Some b" "s1 = srv"
        "rep = ArrayReply [IntReply 0, BulkReply (dec_nat a), BulkReply (dec_nat b)]"
    | (yes) a b n1 n2 where "counter_of (val srv ka) = Some a" "counter_of (val srv kb) = Some b"
        "a + 1 \<le> nat al" "b + nat bytes \<le> nat bl" "rep = ArrayReply [IntReply 1, IntReply n1, n2]"
        "n2 = BulkReply (dec_nat b) \<or> (\<exists>m. n2 = IntReply m)"
        "clock s1 = clock srv" "counter_at val s1 ka = a + 1" "counter_at val s1 kb = b + nat bytes"
        "\<forall>k. k \<noteq> ka \<longrightarrow> k \<noteq> kb \<longrightarrow> val s1 k = val srv k"
    using cases by (auto split: option.splits if_splits)
  then show ?thesis
  proof cases
    case err
    then show ?thesis
      using eval_cases [OF ev] lua res unfolding srv_def srv'_def by auto
  next
    case no
    then show ?thesis
      using eval_cases [OF ev] lua res counter_of_bound [OF no(1)] counter_of_bound [OF no(2)]
      unfolding srv_def srv'_def
      by (auto simp: redisArray_def redisInt64_def parse_int64_dec_nat simp del: dec_nat.simps)
  next
    case yes
    have count: "counter_at val srv ka = a" "counter_at val srv kb = b"
      using yes(1,2) by (simp_all add: counter_at_def)
    have limits: "within_budget limit (a + 1, b + nat bytes)"
      using yes(3,4) by (auto simp: within_budget_def al_def bl_def)
    have "ev = Inl timeout_text \<or> ev = Inr rep" if "srv' = s1"
      using eval_cases [OF ev lua [unfolded srv_def]] yes(5) by auto
    moreover have "srv' = srv \<and> ev = Inl timeout_text \<or> srv' = s1"
      using eval_cases [OF ev lua [unfolded srv_def]] unfolding srv_def srv'_def by auto
    moreover have "case res of Inl _ \<Rightarrow> True | Inr r \<Rightarrow> Allowed r" if "ev = Inl timeout_text \<or> ev = Inr rep"
      using that res yes(5,6) counter_of_bound [OF yes(2)]
      by (auto simp: redisArray_def redisInt64_def parse_int64_dec_nat simp del: dec_nat.simps)
    ultimately show ?thesis
      using res yes(7-10) count limits True by auto
  qed
qed

end

text \<open>
  A Redis server with \<open>SET\<close> and \<open>DEL\<close> of whole keys, and a store on it.
\<close>

locale keyspace_server = redis_server +
  fixes ks :: "'a keyspace"
  assumes set_key: "val (k_set ks s k v) = (val s)(k \<mapsto> RString v)" "clock (k_set ks s k v) = clock s"
    and del_key: "val (k_del ks s k) = (val s)(k := None)" "clock (k_del ks s k) = clock s"

locale tierer_server = keyspace_server +
  fixes st :: redis_store

lemma budget_prefix_day: "now div Day = now' div Day \<Longrightarrow> budget_prefix s now kind = budget_prefix s now' kind"
  using format_date_iff [of now now'] by (simp add: budget_prefix_def)

sublocale tierer_server \<subseteq> bs: budget_store "Reserve (lua_commands redis ks) st" "budget_used val st"
  "budget_live clock" budget_fits
proof
  fix c now limit bytes kind r c' res now'
  assume live: "budget_live clock c now" and fits: "budget_fits limit bytes"
  show "budget_used val st c' now kind
      = (fst (budget_used val st c now kind) + 1, snd (budget_used val st c now kind) + nat bytes) \<and>
      within_budget limit (budget_used val st c' now kind) \<and> 0 \<le> bytes"
    if "\<not> unlimited limit" "Reserve (lua_commands redis ks) st c now kind limit bytes = (Inr r, c')" "Allowed r"
    using Reserve_outcome [OF that(2) live fits] that(1,3) by (auto simp: budget_used_def)
  show "budget_used val st c' now kind = budget_used val st c now kind \<or>
      (budget_used val st c' now kind
        = (fst (budget_used val st c now kind) + 1, snd (budget_used val st c now kind) + nat bytes) \<and>
       within_budget limit (budget_used val st c' now kind))"
    if "\<not> unlimited limit" "Reserve (lua_commands redis ks) st c now kind limit bytes = (res, c')"
    using Reserve_outcome [OF that(2) live fits] by (auto simp: budget_used_def)
  show "budget_used val st c' = budget_used val st c"
    if "Reserve (lua_commands redis ks) st c now kind limit bytes = (Inr r, c')" "\<not> Allowed r"
    using Reserve_outcome [OF that(1) live fits] that(2) by (auto simp: budget_used_def fun_eq_iff)
  have "clock (t_server c') = clock (t_server c)"
    if "Reserve (lua_commands redis ks) st c now kind limit bytes = (res, c')"
    using Reserve_outcome [OF that live fits] by auto
  then show "budget_live clock c' = budget_live clock c"
    if "Reserve (lua_commands redis ks) st c now kind limit bytes = (res, c')"
    using that by (simp add: budget_live_def fun_eq_iff)
next
  fix now now' c kind
  show "now div Day = now' div Day \<Longrightarrow> budget_used val st c now kind = budget_used val st c now' kind"
    by (simp add: budget_used_def budget_prefix_day [of now now'])
qed

context tierer_server
begin

lemma conn_budget_kept:
  assumes "\<forall>(now, bytes)\<in>set reqs. now div Day = day div Day \<and> budget_live clock c now \<and> budget_fits limit bytes"
    and "reserve_run (Reserve (lua_commands redis ks) st) kind limit reqs c = (rs, c')"
  shows "(0 < Attempts limit \<longrightarrow>
      int (granted_attempts rs) \<le> max 0 (Attempts limit - int (fst (budget_used val st c day kind)))) \<and>
    (0 < Bytes limit \<longrightarrow>
      int (granted_bytes rs) \<le> max 0 (Bytes limit - int (snd (budget_used val st c day kind))))"
  using bs.budget_kept [OF assms] by blast

end

definition mem_keyspace :: "mem_state keyspace" where
  "mem_keyspace =
     \<lparr>k_set = (\<lambda>s k v. s\<lparr>mem_val := (mem_val s)(k \<mapsto> RString v), mem_expiry := (mem_expiry s)(k := None)\<rparr>),
      k_del = (\<lambda>s k. s\<lparr>mem_val := (mem_val s)(k := None), mem_expiry := (mem_expiry s)(k := None)\<rparr>)\<rparr>"

interpretation mem_tierer: tierer_server mem_redis mem_val mem_expiry mem_clock mem_keyspace st for st
  by unfold_locales (simp_all add: mem_keyspace_def)

section \<open>Properties\<close>

text \<open>The budget holds: of any sequence of reservations in one day, over a connection that may lose
  any message, no more are granted than the attempts still left at the start, and the granted
  ones ask for no more bytes than were left.\<close>

theorem budget_never_exceeded:
  assumes "tierer_server redis val expiry clock ks"
    and "\<forall>(now, bytes)\<in>set reqs. now div Day = day div Day \<and> budget_live clock c now \<and> budget_fits limit bytes"
    and "reserve_run (Reserve (lua_commands redis ks) st) kind limit reqs c = (rs, c')"
  shows "(0 < Attempts limit \<longrightarrow>
      int (granted_attempts rs) \<le> max 0 (Attempts limit - int (fst (budget_used val st c day kind)))) \<and>
    (0 < Bytes limit \<longrightarrow>
      int (granted_bytes rs) \<le> max 0 (Bytes limit - int (snd (budget_used val st c day kind))))"
  using tierer_server.conn_budget_kept [OF assms] by blast

definition demo_store :: redis_store where
  "demo_store = NewRedisStore ''prod'' [] [] False"

definition demo_conn :: "mem_state tierer_conn" where
  "demo_conn = \<lparr>t_server = mem_empty 5, t_faults = [ReplyLost]\<rparr>"

definition demo_limit :: budget_limit where
  "demo_limit = \<lparr>Attempts = 2, Bytes = 0\<rparr>"

theorem budget_never_exceeded_witness:
  "granted_attempts (fst (reserve_run (Reserve (lua_commands mem_redis mem_keyspace) demo_store)
     BudgetRestore demo_limit [(Hour, 3), (Hour, 3), (Hour, 3)] demo_conn)) \<le> 2"
proof -
  let ?run = "reserve_run (Reserve (lua_commands mem_redis mem_keyspace) demo_store)
     BudgetRestore demo_limit [(Hour, 3), (Hour, 3), (Hour, 3)] demo_conn"
  obtain rs c' where run: "?run = (rs, c')" by fastforce
  have "budget_expiry Hour = 259200"
    by (simp add: budget_expiry_def truncate_day) (simp add: unix_def time_units)
  then have "budget_live mem_clock demo_conn Hour" "budget_fits demo_limit 3"
    by (simp_all add: budget_live_def demo_conn_def mem_empty_def max_expiry_def budget_fits_def
        demo_limit_def max_int64_def)
  then have "\<forall>(now, bytes)\<in>set [(Hour, 3), (Hour, 3), (Hour, 3)].
      now div Day = Hour div Day \<and> budget_live mem_clock demo_conn now \<and> budget_fits demo_limit bytes" by simp
  from budget_never_exceeded [OF mem_tierer.tierer_server_axioms this run]
  have "int (granted_attempts rs) \<le> 2" by (auto simp: demo_limit_def)
  with run show ?thesis by simp
qed

text \<open>C37: a reservation grants exactly one attempt and the bytes asked for, only within both limits;
  what it does not grant it does not count, except that an error can hide one charge that was made.\<close>

theorem reserve_charges_once:
  assumes "redis_server redis val expiry clock"
    and "Reserve (lua_commands redis ks) s c now kind limit bytes = (res, c')"
    and "budget_live clock c now" and "budget_fits limit bytes" and "\<not> unlimited limit"
  shows "case res of
      Inr r \<Rightarrow> budget_used val s c' now kind =
          (if Allowed r then (fst (budget_used val s c now kind) + 1, snd (budget_used val s c now kind) + nat bytes)
           else budget_used val s c now kind) \<and>
        (Allowed r \<longrightarrow> within_budget limit (budget_used val s c' now kind))
    | Inl err \<Rightarrow> budget_used val s c' now kind = budget_used val s c now kind \<or>
        (budget_used val s c' now kind
          = (fst (budget_used val s c now kind) + 1, snd (budget_used val s c now kind) + nat bytes) \<and>
         within_budget limit (budget_used val s c' now kind))"
  using redis_server.Reserve_outcome [OF assms(1-4)] assms(5)
  by (auto simp: budget_used_def split: sum.splits)

theorem reserve_charges_once_witness:
  "budget_used mem_val demo_store (snd (Reserve (lua_commands mem_redis mem_keyspace) demo_store demo_conn
     Hour BudgetRestore demo_limit 3)) Hour BudgetRestore \<in> {(0, 0), (1, 3)}"
proof -
  obtain res c' where run: "Reserve (lua_commands mem_redis mem_keyspace) demo_store demo_conn
     Hour BudgetRestore demo_limit 3 = (res, c')" by fastforce
  have "budget_expiry Hour = 259200"
    by (simp add: budget_expiry_def truncate_day) (simp add: unix_def time_units)
  then have live: "budget_live mem_clock demo_conn Hour" "budget_fits demo_limit 3" "\<not> unlimited demo_limit"
    by (simp_all add: budget_live_def demo_conn_def mem_empty_def max_expiry_def budget_fits_def
        demo_limit_def max_int64_def unlimited_def)
  have "budget_used mem_val demo_store demo_conn Hour BudgetRestore = (0, 0)"
    by (simp add: budget_used_def demo_conn_def mem_empty_def counter_at_def counter_of_def)
  with reserve_charges_once [OF mem.redis_server_axioms run live] run show ?thesis
    by (auto split: sum.splits if_splits)
qed

end
