(* ===== verification/Tierer_Usage.thy ===== *)
theory Tierer_Usage
  imports Tierer_Budget
begin

text \<open>
  What the readers of \<^verbatim>\<open>internal/tierer/redis.go\<close> return: \<open>ReadChunk\<close> gives every object of the chunk
  the number behind the counter of each hour of its two windows, in order, and the coverage of
  the low window; it writes nothing. And the cursor's round trip through Redis.
\<close>

section \<open>Decoding a reply\<close>

lemma decode_count_dec_nat:
  "n \<le> 9223372036854775807 \<Longrightarrow> decode_count i (BulkReply (dec_nat n)) = Inr (int n)"
proof -
  assume n: "n \<le> 9223372036854775807"
  have "\<not> (length (dec_nat n) > 1 \<and> hd (dec_nat n) = CHR ''0'')"
    using canonical_dec_nat [of n] by (auto simp: canonical_def)
  with n show ?thesis by (auto simp: decode_count_def parse_int64_dec_nat)
qed

lemma decodeCounts_dec_nat:
  assumes "\<forall>n\<in>set ns. n \<le> 9223372036854775807"
  shows "decodeCounts (map (\<lambda>n. BulkReply (dec_nat n)) ns) = Inr (map int ns)"
proof -
  have "traverse (\<lambda>(i, r). decode_count i r) (enumerate k (map (\<lambda>n. BulkReply (dec_nat n)) ns)) = Inr (map int ns)" for k
    using assms by (induction ns arbitrary: k) (auto simp: decode_count_dec_nat)
  then show ?thesis by (simp add: decodeCounts_def)
qed

text \<open>The slices of a chunk's reply.\<close>

lemma usage_loop_slices:
  assumes "\<And>obj h. f obj h \<le> (9223372036854775807 :: nat)"
  shows "usage_loop (length lows) (length highs) objs
      (concat (map (\<lambda>obj. map (\<lambda>h. BulkReply (dec_nat (f obj h))) (lows @ highs)) objs))
    = Inr (map (\<lambda>obj. \<lparr>UsageLow = map (\<lambda>h. int (f obj h)) lows, UsageHigh = map (\<lambda>h. int (f obj h)) highs\<rparr>) objs)"
proof (induction objs)
  case (Cons obj objs)
  have dec: "decodeCounts (map (\<lambda>h. BulkReply (dec_nat (f obj h))) hs) = Inr (map (\<lambda>h. int (f obj h)) hs)" for hs
    using decodeCounts_dec_nat [of "map (f obj) hs"] assms by (simp add: comp_def)
  show ?case by (simp add: Cons [simplified map_append] dec)
qed simp

section \<open>The counters of a window\<close>

definition access_count ::
    "('s \<Rightarrow> string \<Rightarrow> rvalue option) \<Rightarrow> 's \<Rightarrow> string \<Rightarrow> object \<Rightarrow> time \<Rightarrow> nat" where
  "access_count val srv inst obj h =
     (case AccessKey inst (Bucket obj) (Name obj) h of Inl _ \<Rightarrow> 0 | Inr key \<Rightarrow> counter_at val srv key)"

definition covered_hour ::
    "('s \<Rightarrow> string \<Rightarrow> rvalue option) \<Rightarrow> (string \<Rightarrow> time \<Rightarrow> string) \<Rightarrow> redis_store \<Rightarrow> 's \<Rightarrow> time \<Rightarrow> bool" where
  "covered_hour val fmt st srv h \<longleftrightarrow> \<not> coverageEnabled st \<or>
     val srv (fmt (coverageTemplate st) h) = Some (RString (coverageValue st))"

lemma object_keys_counts:
  assumes "object_keys st lows highs obj = Inr keys"
  shows "map (counter_at val srv) keys = map (access_count val srv (instance_id st) obj) (lows @ highs)"
proof -
  have "map (counter_at val srv) ks = map (access_count val srv (instance_id st) obj) hs"
    if "traverse (accessKey (instance_id st) (Bucket obj) (Name obj)) hs = Inr ks" for hs ks
    using that
  proof (induction hs arbitrary: ks)
    case (Cons h hs)
    then show ?case
      by (auto simp: bind_res_Inr_iff accessKey_def access_count_def split: sum.splits)
  qed simp
  then show ?thesis using assms by (simp add: object_keys_def)
qed

lemma chunk_keys_counts:
  "traverse (object_keys st lows highs) objects = Inr keys \<Longrightarrow>
     map (counter_at val srv) (concat keys)
       = concat (map (\<lambda>obj. map (access_count val srv (instance_id st) obj) (lows @ highs)) objects)"
proof (induction objects arbitrary: keys)
  case (Cons obj objects)
  then obtain ks keys' where "object_keys st lows highs obj = Inr ks"
    "traverse (object_keys st lows highs) objects = Inr keys'" "keys = ks # keys'"
    by (auto simp: bind_res_Inr_iff)
  then show ?case using Cons.IH [of keys'] object_keys_counts [of st lows highs obj ks] by simp
qed simp

context redis_server
begin

lemma counter_at_bound: "counter_at val s k \<le> 9223372036854775807"
  using counter_of_bound by (auto simp: counter_at_def split: option.splits)

lemma read_counters:
  "traverse (read_counter redis s) keys = Inr out \<Longrightarrow> out = map (\<lambda>k. dec_nat (counter_at val s k)) keys"
proof (induction keys arbitrary: out)
  case (Cons k keys)
  then show ?case by (auto simp: bind_res_Inr_iff read_counter_eq counter_at_def)
qed simp

lemma eval_unsigned:
  assumes "eval_array (lua_commands redis ks) c ReadUnsignedStrings keys = (res, c')"
  shows "t_server c' = t_server c"
    and "res = Inr values \<Longrightarrow> values = map (\<lambda>k. BulkReply (dec_nat (counter_at val (t_server c) k))) keys"
proof -
  obtain r where ev: "EvalScript (lua_commands redis ks) c ReadUnsignedStrings keys [] = (r, c')"
    and res: "res = (case r of Inl err \<Rightarrow> Inl (EvalFailed err) | Inr raw \<Rightarrow> redisArray raw (length keys))"
    using assms by (auto simp: eval_array_def split: prod.splits sum.splits)
  note cases = eval_cases [OF ev, unfolded lua_run_def script.case, OF refl]
  then show "t_server c' = t_server c" by auto
  show "values = map (\<lambda>k. BulkReply (dec_nat (counter_at val (t_server c) k))) keys" if "res = Inr values"
    using that res cases
    by (auto simp: read_unsigned_script_def redisArray_def dest!: read_counters split: sum.splits if_splits)
qed

lemma read_optionals:
  "traverse (read_optional redis s) keys = Inr out \<Longrightarrow>
     out = map (\<lambda>k. case val s k of Some (RString v) \<Rightarrow> BulkReply v | _ \<Rightarrow> NilReply) keys \<and>
     (\<forall>k\<in>set keys. \<forall>ty. val s k \<noteq> Some (ROther ty))"
proof (induction keys arbitrary: out)
  case (Cons k keys)
  have "r = (case val s k of Some (RString v) \<Rightarrow> BulkReply v | _ \<Rightarrow> NilReply) \<and> (\<forall>ty. val s k \<noteq> Some (ROther ty))"
    if "read_optional redis s k = Inr r" for r
  proof (cases "val s k")
    case None
    then show ?thesis using that none_value [of s k] by (simp add: read_optional_def)
  next
    case (Some x)
    then show ?thesis
      using that type_string [of s k] type_other [of s k] get_string [of s k]
      by (cases x) (auto simp: read_optional_def split: if_splits)
  qed
  with Cons show ?case by (auto simp: bind_res_Inr_iff)
qed simp

lemma ReadCoverage_covered:
  assumes "ReadCoverage fmt (lua_commands redis ks) st c hours = (res, c')"
  shows "t_server c' = t_server c"
    and "res = Inr cov \<Longrightarrow> cov = map (covered_hour val fmt st (t_server c)) hours"
proof -
  consider (triv) "hours = [] \<or> \<not> coverageEnabled st" | (read) "hours \<noteq> []" "coverageEnabled st" by blast
  then have "t_server c' = t_server c \<and> (res = Inr cov \<longrightarrow> cov = map (covered_hour val fmt st (t_server c)) hours)"
  proof cases
    case triv
    then show ?thesis using assms by (auto simp: ReadCoverage_def covered_hour_def split: if_splits)
  next
    case read
    let ?keys = "map (CoverageKey fmt (coverageTemplate st)) hours"
    obtain r where ev: "EvalScript (lua_commands redis ks) c ReadOptionalStrings ?keys [] = (r, c')"
      and res: "res = (case r of Inl err \<Rightarrow> Inl (EvalFailed err) | Inr raw \<Rightarrow>
          (case redisArray raw (length ?keys) of Inl err \<Rightarrow> Inl err | Inr vs \<Rightarrow> traverse (decode_coverage st) vs))"
      using assms read by (auto simp: ReadCoverage_def eval_array_def split: prod.splits sum.splits)
    note cases = eval_cases [OF ev, unfolded lua_run_def script.case, OF refl]
    have "cov = map (covered_hour val fmt st (t_server c)) hours" if inr: "res = Inr cov"
    proof -
      obtain out where out: "traverse (read_optional redis (t_server c)) ?keys = Inr out" "traverse (decode_coverage st) out = Inr cov"
        using inr res cases by (auto simp: read_optional_script_def redisArray_def split: sum.splits if_splits)
      have d: "decode_coverage st (case val (t_server c) k of Some (RString v) \<Rightarrow> BulkReply v | _ \<Rightarrow> NilReply)
          = Inr (val (t_server c) k = Some (RString (coverageValue st)))" for k
        by (auto simp: decode_coverage_def split: option.splits rvalue.splits)
      have dec: "traverse (decode_coverage st) (map (\<lambda>k. case val (t_server c) k of Some (RString v) \<Rightarrow> BulkReply v | _ \<Rightarrow> NilReply) xs)
          = Inr (map (\<lambda>k. val (t_server c) k = Some (RString (coverageValue st))) xs)" for xs
        by (induction xs) (simp_all add: d)
      have "cov = map (\<lambda>k. val (t_server c) k = Some (RString (coverageValue st))) ?keys"
        using read_optionals [OF out(1)] out(2) dec [of ?keys] by simp
      then show ?thesis using read by (simp add: covered_hour_def CoverageKey_def)
    qed
    with cases show ?thesis by auto
  qed
  then show "t_server c' = t_server c"
    and "res = Inr cov \<Longrightarrow> cov = map (covered_hour val fmt st (t_server c)) hours" by auto
qed

lemma ReadChunk_counts:
  assumes "ReadChunk fmt (lua_commands redis ks) st c objects lows highs = (res, c')"
  shows "t_server c' = t_server c"
    and "res = Inr (usage, cov) \<Longrightarrow>
      usage = map (\<lambda>obj. \<lparr>UsageLow = map (\<lambda>h. int (access_count val (t_server c) (instance_id st) obj h)) lows,
        UsageHigh = map (\<lambda>h. int (access_count val (t_server c) (instance_id st) obj h)) highs\<rparr>) objects \<and>
      cov = map (covered_hour val fmt st (t_server c)) lows"
proof -
  let ?f = "\<lambda>obj h. access_count val (t_server c) (instance_id st) obj h"
  have bound: "?f obj h \<le> 9223372036854775807" for obj h
    using counter_at_bound by (auto simp: access_count_def split: sum.splits)
  have "t_server c' = t_server c \<and> (res = Inr (usage, cov) \<longrightarrow>
      usage = map (\<lambda>obj. \<lparr>UsageLow = map (\<lambda>h. int (?f obj h)) lows, UsageHigh = map (\<lambda>h. int (?f obj h)) highs\<rparr>) objects \<and>
      cov = map (covered_hour val fmt st (t_server c)) lows)"
  proof (cases "\<exists>keys. traverse (object_keys st lows highs) objects = Inr keys \<and>
      objects \<noteq> [] \<and> lows \<noteq> [] \<and> highs \<noteq> [] \<and>
      validateAggregateAccessKeys (int (length objects)) (int (length lows)) (int (length highs)) maxRedisAccessKeysPerChunk = Inr ()")
    case False
    then show ?thesis using assms by (auto simp: ReadChunk_def split: if_splits sum.splits)
  next
    case True
    then obtain keys where keys: "traverse (object_keys st lows highs) objects = Inr keys" by blast
    obtain r c1 where ev: "eval_array (lua_commands redis ks) c ReadUnsignedStrings (concat keys) = (r, c1)" by fastforce
    note read = eval_unsigned [OF ev]
    show ?thesis
    proof (cases r)
      case (Inl err)
      then show ?thesis using assms True keys ev read(1) by (auto simp: ReadChunk_def split: if_splits)
    next
      case (Inr vs)
      have vs: "vs = map (\<lambda>n. BulkReply (dec_nat n)) (map (counter_at val (t_server c)) (concat keys))"
        using read(2) [OF Inr] by (simp add: comp_def)
      have "usage_loop (length lows) (length highs) objects vs
          = Inr (map (\<lambda>obj. \<lparr>UsageLow = map (\<lambda>h. int (?f obj h)) lows, UsageHigh = map (\<lambda>h. int (?f obj h)) highs\<rparr>) objects)"
        using usage_loop_slices [of ?f lows highs objects, OF bound]
        unfolding vs chunk_keys_counts [OF keys] by (simp add: map_concat comp_def)
      moreover obtain rc c2 where cov: "ReadCoverage fmt (lua_commands redis ks) st c1 lows = (rc, c2)" by fastforce
      ultimately show ?thesis
        using assms True keys ev Inr read(1) ReadCoverage_covered [OF cov]
        by (auto simp: ReadChunk_def split: if_splits sum.splits)
    qed
  qed
  then show "t_server c' = t_server c"
    and "res = Inr (usage, cov) \<Longrightarrow>
      usage = map (\<lambda>obj. \<lparr>UsageLow = map (\<lambda>h. int (?f obj h)) lows, UsageHigh = map (\<lambda>h. int (?f obj h)) highs\<rparr>) objects \<and>
      cov = map (covered_hour val fmt st (t_server c)) lows" by auto
qed

end

section \<open>The cursor in Redis\<close>

text \<open>The law of the codec: what was encoded decodes to itself.\<close>

definition codec_ok :: "cursor_codec \<Rightarrow> bool" where
  "codec_ok codec \<longleftrightarrow> (\<forall>cur p. Marshal codec 1 cur = Some p \<longrightarrow> Unmarshal codec p = Some (1, cur))"

lemma cursorKey_inject: "cursorKey st scope = Inr key \<Longrightarrow> cursorKey st scope' = Inr key \<Longrightarrow> scope = scope'"
  by (auto simp: cursorKey_def split: if_splits)

context keyspace_server
begin

lemma SetKey_value:
  assumes "SetKey (lua_commands redis ks) c key v = (None, c')"
  shows "val (t_server c') = (val (t_server c))(key \<mapsto> RString v)"
proof -
  obtain r where t: "through c (\<lambda>s. ((), k_set ks s key v)) = (r, c')" and "\<exists>x. r = Inr x"
    using assms by (auto simp: lua_commands_def split: prod.splits sum.splits)
  with through_cases [OF t] set_key(1) show ?thesis by auto
qed

lemma DelKey_value:
  assumes "DelKey (lua_commands redis ks) c key = (None, c')"
  shows "val (t_server c') = (val (t_server c))(key := None)"
proof -
  obtain r where t: "through c (\<lambda>s. ((), k_del ks s key)) = (r, c')" and "\<exists>x. r = Inr x"
    using assms by (auto simp: lua_commands_def split: prod.splits sum.splits)
  with through_cases [OF t] del_key(1) show ?thesis by auto
qed

lemma GetKey_value:
  assumes "GetKey (lua_commands redis ks) c key = (got, c')"
  shows "t_server c' = t_server c"
    and "val (t_server c) key = None \<Longrightarrow> got = GotNil \<or> (\<exists>err. got = GotError err)"
    and "val (t_server c) key = Some (RString v) \<Longrightarrow> got = GotValue v \<or> (\<exists>err. got = GotError err)"
proof -
  obtain r where t: "through c (\<lambda>s. ((r_type redis s key, r_get redis s key), s)) = (r, c')"
    and got: "got = (case r of Inl err \<Rightarrow> GotError err | Inr (kind, v) \<Rightarrow>
      (if kind = ''none'' then GotNil else if kind \<noteq> ''string'' then GotError ''WRONGTYPE''
       else case v of None \<Rightarrow> GotNil | Some raw \<Rightarrow> GotValue raw))"
    using assms by (auto simp: lua_commands_def split: prod.splits sum.splits)
  show "t_server c' = t_server c" using through_cases [OF t] by auto
  show "val (t_server c) key = None \<Longrightarrow> got = GotNil \<or> (\<exists>err. got = GotError err)"
    using through_cases [OF t] got type_none by auto
  show "val (t_server c) key = Some (RString v) \<Longrightarrow> got = GotValue v \<or> (\<exists>err. got = GotError err)"
    using through_cases [OF t] got type_string get_string by auto
qed

lemma SaveCursor_stored:
  assumes "codec_ok codec" and "SaveCursor codec (lua_commands redis ks) st c scope cur = (None, c')"
  obtains key p where "cursorKey st scope = Inr key" and "val (t_server c') = (val (t_server c))(key \<mapsto> RString p)"
    and "Unmarshal codec p = Some (1, cur)" and "CursorBucket cur \<noteq> []" and "CursorObject cur \<noteq> []"
    and "\<not> is_zero (UpdatedAt cur)"
proof -
  obtain key p c1 where "cursorKey st scope = Inr key" "Marshal codec 1 cur = Some p"
    "SetKey (lua_commands redis ks) c key p = (None, c1)" "c' = c1"
    "CursorBucket cur \<noteq> []" "CursorObject cur \<noteq> []" "\<not> is_zero (UpdatedAt cur)"
    using assms(2) by (auto simp: SaveCursor_def split: sum.splits if_splits option.splits prod.splits)
  then show ?thesis using that SetKey_value assms(1) by (auto simp: codec_ok_def)
qed

lemma LoadCursor_value:
  assumes "LoadCursor codec (lua_commands redis ks) st c scope = (Inr r, c')" and "cursorKey st scope = Inr key"
  shows "val (t_server c) key = None \<Longrightarrow> r = None"
    and "val (t_server c) key = Some (RString p) \<Longrightarrow> Unmarshal codec p = Some (1, cur) \<Longrightarrow> r = Some cur"
proof -
  obtain got where got: "GetKey (lua_commands redis ks) c key = (got, c')"
    and r: "(case got of GotNil \<Rightarrow> Inr None | GotError err \<Rightarrow> Inl (LoadCursorFailed err)
      | GotValue raw \<Rightarrow> (case Unmarshal codec raw of None \<Rightarrow> Inl CursorNotDecoded
         | Some (version, cur) \<Rightarrow> (if version \<noteq> 1 \<or> CursorBucket cur = [] \<or> CursorObject cur = [] \<or> is_zero (UpdatedAt cur)
             then Inl CursorUnsupported else Inr (Some cur)))) = Inr r"
    using assms by (auto simp: LoadCursor_def split: prod.splits get_result.splits option.splits)
  show "val (t_server c) key = None \<Longrightarrow> r = None"
    using GetKey_value(2) [OF got] r by auto
  show "val (t_server c) key = Some (RString p) \<Longrightarrow> Unmarshal codec p = Some (1, cur) \<Longrightarrow> r = Some cur"
    using GetKey_value(3) [OF got] r by (auto split: if_splits)
qed

lemma ResetCursor_cleared:
  assumes "ResetCursor (lua_commands redis ks) st c scope = (None, c')"
  obtains key where "cursorKey st scope = Inr key" and "val (t_server c') = (val (t_server c))(key := None)"
  using assms that DelKey_value by (auto simp: ResetCursor_def split: sum.splits option.splits prod.splits)

end

section \<open>Properties\<close>

text \<open>C31: a chunk's read, when it succeeds, gives each object exactly the counters of its own low and high
  hours in the order of the hours and the coverage of the low hours, and no read ever writes.\<close>

theorem read_chunk_counts:
  assumes "redis_server redis val expiry clock"
    and "ReadChunk fmt (lua_commands redis ks) st c objects lows highs = (res, c')"
  shows "t_server c' = t_server c \<and>
    (case res of Inl err \<Rightarrow> True
     | Inr (usage, cov) \<Rightarrow>
         usage = map (\<lambda>obj. \<lparr>UsageLow = map (\<lambda>h. int (access_count val (t_server c) (instance_id st) obj h)) lows,
           UsageHigh = map (\<lambda>h. int (access_count val (t_server c) (instance_id st) obj h)) highs\<rparr>) objects \<and>
         cov = map (covered_hour val fmt st (t_server c)) lows)"
  using redis_server.ReadChunk_counts [OF assms] by (auto split: sum.splits)

definition counted_server :: mem_state where
  "counted_server = (mem_empty 5)\<lparr>mem_val := [''cwm-minio-tierer:v1:prod:access:1970:01:01:01:Yg:bw'' \<mapsto> RString ''7'']\<rparr>"

theorem read_chunk_counts_witness:
  "fst (ReadChunk (\<lambda>_ _. []) (lua_commands mem_redis mem_keyspace) demo_store
     \<lparr>t_server = counted_server, t_faults = []\<rparr> [plain_object ''b'' ''o''] [0, Hour] [Hour])
   = Inr ([\<lparr>UsageLow = [0, 7], UsageHigh = [7]\<rparr>], [True, True])"
proof -
  let ?c = "\<lparr>t_server = counted_server, t_faults = []\<rparr>"
  let ?run = "ReadChunk (\<lambda>_ _. []) (lua_commands mem_redis mem_keyspace) demo_store ?c
     [plain_object ''b'' ''o''] [0, Hour] [Hour]"
  obtain res c' where run: "?run = (res, c')" by fastforce
  have "case fst ?run of Inl _ \<Rightarrow> False | Inr _ \<Rightarrow> True" by code_simp
  then obtain usage cov where res: "res = Inr (usage, cov)" using run by (cases res) auto
  have "access_count mem_val counted_server ''prod'' (plain_object ''b'' ''o'') 0 = 0"
    "access_count mem_val counted_server ''prod'' (plain_object ''b'' ''o'') Hour = 7" by code_simp+
  with read_chunk_counts [OF mem.redis_server_axioms run] res run show ?thesis
    by (simp add: demo_store_def NewRedisStore_def covered_hour_def)
qed


definition demo_cursor :: cursor where
  "demo_cursor = \<lparr>CursorBucket = ''b'', CursorObject = ''o'', UpdatedAt = 7\<rparr>"

definition demo_codec :: cursor_codec where
  "demo_codec = \<lparr>Marshal = \<lambda>v cur. if cur = demo_cursor then Some ''7bo'' else None,
     Unmarshal = \<lambda>p. if p = ''7bo'' then Some (1, demo_cursor) else None\<rparr>"


text \<open>The sort that makes the exclusion lists and the bucket order canonical sorts, so the scope of
  a scan does not depend on the order in which the exclusions are configured.\<close>

theorem scope_ignores_order:
  assumes "mset buckets = mset buckets'" and "mset prefixes = mset prefixes'"
  shows "ScopeHash digest buckets prefixes key val = ScopeHash digest buckets' prefixes' key val"
proof -
  have "sort xs = sort ys" if "mset xs = mset ys" for xs ys :: "string list"
    using that by (intro properties_for_sort) simp_all
  from this [OF assms(1)] this [OF assms(2)] show ?thesis by (simp only: ScopeHash_def slicesSort_sort)
qed

theorem scope_ignores_order_witness:
  "ScopeHash (\<lambda>p. concat (ScopeBuckets p)) [''b'', ''a''] [] ''k'' ''v''
     = ScopeHash (\<lambda>p. concat (ScopeBuckets p)) [''a'', ''b''] [] ''k'' ''v''"
  by (rule scope_ignores_order) (simp_all add: add_mset_commute)

end
