(* ===== verification/Tierer_Service.thy ===== *)
theory Tierer_Service
  imports Scanner_Calls Tierer_Config Tierer_Usage Tierer_Budget
begin

text \<open>
  \<^verbatim>\<open>internal/tierer/service.go\<close>: the tierer put together. \<open>Run\<close> hands the scanner the MinIO adapter as
  its inventory and the Redis store as its usage reader and state store, over one world: the state
  of MinIO, the Redis connection, and the number of calls made so far, which
  indexes what the environment does: the time, the end of the context, a listing cut short. From this the properties of the running service: a loaded
  configuration is never refused, the cursor only moves forward, and the mutations of a day keep its
  budgets. The readiness check and the life cycle of the two loops are the last sections.
\<close>

section \<open>The wiring\<close>

datatype dep_error = MinioFailure adapter_error | RedisFailure store_error

text \<open>How a listing reaches the scanner: whole, or only its first \<open>n\<close> results and then the closed channel, the end of the context or a silence.\<close>

datatype stream_end = Whole | Closed nat | Cancelled nat | Silent nat

definition received :: "stream_end \<Rightarrow> (adapter_error + object) list \<Rightarrow> dep_error listing_event list" where
  "received fate rs =
     (let items = map (\<lambda>r. Item (map_sum MinioFailure id r)) rs
      in case fate of Whole \<Rightarrow> items | Closed n \<Rightarrow> take n items | Cancelled n \<Rightarrow> take n items @ [Done]
         | Silent n \<Rightarrow> take n items @ [Inactive])"

record environment =
  env_clock :: "nat \<Rightarrow> time"
  env_stream :: "nat \<Rightarrow> stream_end"
  env_cancelled :: "nat \<Rightarrow> bool"
  env_canceled_error :: "dep_error \<Rightarrow> bool"

record ('m, 'c) tier_world =
  w_minio :: 'm
  w_conn :: 'c
  w_tick :: nat

definition on_minio :: "('m \<Rightarrow> 'r \<times> 'm) \<Rightarrow> ('m, 'c) tier_world \<Rightarrow> 'r \<times> ('m, 'c) tier_world" where
  "on_minio f w = (case f (w_minio w) of (r, m) \<Rightarrow> (r, w\<lparr>w_minio := m, w_tick := w_tick w + 1\<rparr>))"

definition on_redis :: "('c \<Rightarrow> 'r \<times> 'c) \<Rightarrow> ('m, 'c) tier_world \<Rightarrow> 'r \<times> ('m, 'c) tier_world" where
  "on_redis f w = (case f (w_conn w) of (r, c) \<Rightarrow> (r, w\<lparr>w_conn := c, w_tick := w_tick w + 1\<rparr>))"

definition tierer_deps ::
    "'m minio_sdk \<Rightarrow> (string \<Rightarrow> time \<Rightarrow> string) \<Rightarrow> cursor_codec \<Rightarrow> 'c redis_commands \<Rightarrow> environment \<Rightarrow> redis_store \<Rightarrow>
       (('m, 'c) tier_world, dep_error) deps" where
  "tierer_deps sdk fmt codec cmds env store =
     \<lparr>inv_buckets = (\<lambda>w. apfst (map_sum MinioFailure id) (on_minio (Buckets sdk) w)),
      inv_objects = (\<lambda>w bucket start. case on_minio (\<lambda>m. Objects sdk m bucket start) w of
         (rs, w1) \<Rightarrow> (received (env_stream env (w_tick w)) rs, w1)),
      inv_stat = (\<lambda>w obj. apfst (map_sum MinioFailure id) (on_minio (\<lambda>m. Stat sdk m obj) w)),
      inv_plan = (\<lambda>w obj k v. apfst (map_sum MinioFailure id) (on_minio (\<lambda>m. PlanMarker sdk m obj k v) w)),
      inv_apply = (\<lambda>w obj plan. apfst (map_option MinioFailure) (on_minio (\<lambda>m. ApplyMarker sdk m obj plan) w)),
      inv_restore = (\<lambda>w obj days. apfst (map_sum MinioFailure id) (on_minio (\<lambda>m. RestoreCall sdk m obj days) w)),
      use_read = (\<lambda>w objs lows highs. apfst (map_sum RedisFailure id) (on_redis (\<lambda>c. ReadChunk fmt cmds store c objs lows highs) w)),
      st_load = (\<lambda>w scope. apfst (map_sum RedisFailure id) (on_redis (\<lambda>c. LoadCursor codec cmds store c scope) w)),
      st_save = (\<lambda>w scope cur. apfst (map_option RedisFailure) (on_redis (\<lambda>c. SaveCursor codec cmds store c scope cur) w)),
      st_reset = (\<lambda>w scope. apfst (map_option RedisFailure) (on_redis (\<lambda>c. ResetCursor cmds store c scope) w)),
      st_reserve = (\<lambda>w now kind limit bytes.
         apfst (map_sum RedisFailure id) (on_redis (\<lambda>c. Reserve cmds store c now kind limit bytes) w)),
      clock_now = (\<lambda>w. (env_clock env (w_tick w), w\<lparr>w_tick := w_tick w + 1\<rparr>)),
      ctx_err = (\<lambda>w. env_cancelled env (w_tick w)),
      is_canceled = env_canceled_error env\<rparr>"

definition scanner_settings :: "(config_payload \<Rightarrow> string) \<Rightarrow> tierer_config \<Rightarrow> scanner_config" where
  "scanner_settings digest c =
     \<lparr>ApplyMode = T_Apply c, Policy = T_Policy c, RestoreDays = T_RestoreDays c, MarkerKey = T_MarkerKey c,
      MarkerValue = T_MarkerValue c, ChunkSize = T_ChunkSize c, CompletionDelay = T_CompletionDelay c,
      RetryDelay = T_RetryDelay c, ExcludedBuckets = T_ExcludedBuckets c, ExcludedPrefixes = T_ExcludedPrefixes c,
      Scope = ConfigScopeHash digest c, TransitionBudget = T_TransitionBudget c, RestoreBudget = T_RestoreBudget c,
      OperationTimeout = T_MinIOOperationTimeout c\<rparr>"

definition tierer_store :: "tierer_config \<Rightarrow> redis_store" where
  "tierer_store c = NewRedisStore (T_InstanceID c) (T_CoverageTemplate c) (T_CoverageValue c) (T_CoverageEnabled c)"

definition tierer_scanner ::
    "'m minio_sdk \<Rightarrow> (string \<Rightarrow> time \<Rightarrow> string) \<Rightarrow> cursor_codec \<Rightarrow> 'c redis_commands \<Rightarrow> environment \<Rightarrow>
       (config_payload \<Rightarrow> string) \<Rightarrow> tierer_config \<Rightarrow> (('m, 'c) tier_world, dep_error) scanner" where
  "tierer_scanner sdk fmt codec cmds env digest c =
     NewScanner (scanner_settings digest c) (tierer_deps sdk fmt codec cmds env (tierer_store c))"

lemma tierer_scanner_deps [simp]:
  "deps (tierer_scanner sdk fmt codec cmds env digest c) = tierer_deps sdk fmt codec cmds env (tierer_store c)"
  by (simp add: tierer_scanner_def NewScanner_def)

lemma tierer_scanner_config:
  "0 < T_RetryDelay c \<Longrightarrow> config (tierer_scanner sdk fmt codec cmds env digest c) = scanner_settings digest c"
  by (simp add: tierer_scanner_def NewScanner_def scanner_settings_def)

section \<open>A loaded configuration is never refused\<close>

text \<open>The scanner accepts every configuration that loads: its validation, which each scan repeats, finds
  nothing to refuse, so a scan of the running service can fail only by a dependency, and never by
  the size of a chunk or a negative budget.\<close>

theorem loaded_config_scans:
  assumes "LoadConfig go lookup = Inr c" and "ConfigScopeHash digest c \<noteq> []"
  shows "validate (config (tierer_scanner sdk fmt codec cmds env digest c)) = None"
proof -
  note v = LoadConfig_valid [OF assms(1)]
  let ?hours = "LowWindowHours (T_Policy c) + HighWindowHours (T_Policy c)"
  have hours: "0 < ?hours" "LowWindowHours (T_Policy c) \<le> max_int64 - HighWindowHours (T_Policy c)"
    using v by (auto simp: valid_config_def valid_policy_def maxWindowHours_def max_int64_def)
  have "T_ChunkSize c * ?hours div ?hours \<le> maxRedisAccessKeysPerChunk div ?hours"
    using v hours(1) by (intro zdiv_mono1) (simp_all add: valid_config_def)
  then have "T_ChunkSize c \<le> maxRedisAccessKeysPerChunk div ?hours" using hours(1) by simp
  with v hours have "validateAggregateAccessKeys (T_ChunkSize c) (LowWindowHours (T_Policy c)) (HighWindowHours (T_Policy c))
      maxRedisAccessKeysPerChunk = Inr ()"
    by (auto simp: validateAggregateAccessKeys_def valid_config_def valid_policy_def maxRedisAccessKeysPerChunk_def)
  then show ?thesis
    using v assms(2) by (simp add: tierer_scanner_config valid_config_def validate_def scanner_settings_def
        valid_policy_def valid_limit_def)
qed

definition demo_environment :: environment where
  "demo_environment = \<lparr>env_clock = (\<lambda>n. 100 * Hour), env_stream = (\<lambda>n. Whole), env_cancelled = (\<lambda>n. False),
     env_canceled_error = (\<lambda>err. False)\<rparr>"

definition demo_digest :: "config_payload \<Rightarrow> string" where
  "demo_digest payload = replicate 64 CHR ''a''"

theorem loaded_config_scans_witness:
  "\<exists>c. LoadConfig demo_go demo_env = Inr c \<and>
     validate (config (tierer_scanner mem_minio (format_layout demo_go) demo_codec (lua_commands mem_redis mem_keyspace)
       demo_environment demo_digest c)) = (None :: dep_error scan_error option)"
proof -
  have "ConfigScopeHash demo_digest c \<noteq> []" for c by (simp add: ConfigScopeHash_def demo_digest_def)
  then show ?thesis using demo_loads loaded_config_scans [of demo_go demo_env] by blast
qed

section \<open>The adapter's listings are what the scanner needs\<close>

lemma wanted_prefix: "prefix xs ys \<Longrightarrow> prefix (wanted xs) (wanted ys)"
proof (induction xs arbitrary: ys rule: wanted.induct)
  case (2 stream)
  then show ?case by (cases ys) auto
next
  case (5 obj stream)
  then show ?case by (cases ys) auto
qed (auto simp: prefix_Cons)

lemma wanted_snoc: "ev = Done \<or> ev = Inactive \<Longrightarrow> wanted (stream @ [ev]) = wanted stream"
  by (induction stream rule: wanted.induct) auto

lemma wanted_received: "prefix (wanted (received fate rs)) (wanted (map (\<lambda>r. Item (map_sum MinioFailure id r)) rs))"
  by (auto simp: received_def Let_def wanted_snoc take_is_prefix intro: wanted_prefix split: stream_end.splits)

lemma wanted_listed: "subseq (wanted (map (\<lambda>r. Item (map_sum MinioFailure id r)) rs)) (listed rs)"
  by (induction rs rule: listed.induct) auto

lemma subseq_set: "subseq xs ys \<Longrightarrow> set xs \<subseteq> set ys"
  by (induction rule: list_emb.induct) auto

lemma subseq_sorted_wrt: "subseq xs ys \<Longrightarrow> sorted_wrt P ys \<Longrightarrow> sorted_wrt P xs"
  by (induction rule: list_emb.induct) (auto dest: subseq_set)

lemma objects_loop_bucket: "obj \<in> set (listed (objects_loop bucket previous source)) \<Longrightarrow> Bucket obj = bucket"
  by (induction source arbitrary: previous) (auto split: option.splits if_splits)

lemma service_inventory_sorted: "sorted_inventory (tierer_deps sdk fmt codec cmds env store)"
proof -
  have "strictly_listed bucket start (received fate (fst (Objects sdk m bucket start)))" for fate m bucket start
  proof -
    obtain source m1 where src: "ListObjects sdk m bucket start = (source, m1)" by fastforce
    define rs where "rs = objects_loop bucket start source"
    have rs: "fst (Objects sdk m bucket start) = rs" by (simp add: Objects_def src rs_def)
    have "subseq (wanted (received fate rs)) (listed rs)"
      using wanted_received [of fate rs] wanted_listed [of rs] prefix_imp_subseq subseq_order.trans by blast
    then have sub: "set (wanted (received fate rs)) \<subseteq> set (listed rs)"
      and "subseq (start # map Name (wanted (received fate rs))) (start # map Name (listed rs))"
      by (simp_all add: subseq_set subseq_map)
    moreover have "sorted_wrt (<) (start # map Name (listed rs))"
      unfolding rs_def by (rule objects_loop_sorted)
    ultimately have "sorted_wrt (<) (start # map Name (wanted (received fate rs)))"
      by (metis subseq_sorted_wrt)
    then show ?thesis
      using sub objects_loop_bucket unfolding rs rs_def by (auto simp: strictly_listed_def list_all_iff)
  qed
  then show ?thesis
    by (auto simp: sorted_inventory_def tierer_deps_def on_minio_def split: prod.splits)
      (metis fst_conv)
qed

text \<open>C27: In the running tierer the scan position only moves forward: whatever MinIO sends, in any order and
  cut short anywhere, and whatever Redis does, the cursors one scan saves come after the cursor it
  loaded and ascend. MinIO need only name each bucket once.\<close>

theorem service_cursor_ascends:
  assumes sc: "sc = tierer_scanner sdk fmt codec cmds env digest c"
    and "\<forall>m names m'. ListBuckets sdk m = (Inr names, m') \<longrightarrow> distinct names"
    and "ScanOnce sc lock st = (err, st')"
  shows "sorted_wrt CursorBefore (saved_cursors (new_events st st')) \<and>
    (\<forall>cur. loaded_cursor sc st = Some cur \<longrightarrow> list_all (CursorBefore cur) (saved_cursors (new_events st st')))"
proof (rule saved_cursors_forward)
  show "sorted_inventory (deps sc)" by (simp add: sc service_inventory_sorted)
  show "\<forall>w bs w'. inv_buckets (deps sc) w = (Inr bs, w') \<longrightarrow> distinct bs"
  proof (intro allI impI)
    fix w w' bs
    assume "inv_buckets (deps sc) w = (Inr bs, w')"
    then have "\<exists>m'. Buckets sdk (w_minio w) = (Inr bs, m')"
      by (auto simp: sc tierer_deps_def on_minio_def map_sum_def split: prod.splits sum.splits)
    then show "distinct bs" using assms(2) by (fastforce simp: Buckets_def split: prod.splits sum.splits)
  qed
qed (rule assms(3))

section \<open>A day's mutations keep its budgets\<close>

definition grant_bytes :: "budget_kind \<Rightarrow> 'e event \<Rightarrow> nat" where
  "grant_bytes kind ev =
     (case ev of CallReserve k b (Inr r) \<Rightarrow> if k = kind \<and> Allowed r then nat b else 0 | _ \<Rightarrow> 0)"

definition bytes_granted :: "budget_kind \<Rightarrow> 'e event list \<Rightarrow> nat" where
  "bytes_granted kind evs = (\<Sum>ev\<leftarrow>evs. grant_bytes kind ev)"

text \<open>
  From \<open>u\<close> to \<open>u'\<close> the counters of a budget rose at least by the \<open>n\<close> attempts and \<open>b\<close> bytes granted,
  and if they moved at all they are within the limit.
\<close>

definition charged :: "budget_limit \<Rightarrow> nat \<times> nat \<Rightarrow> nat \<times> nat \<Rightarrow> nat \<Rightarrow> nat \<Rightarrow> bool" where
  "charged limit u u' n b \<longleftrightarrow> unlimited limit \<or>
     (fst u + n \<le> fst u' \<and> snd u + b \<le> snd u' \<and> (u' = u \<or> within_budget limit u'))"

lemma charged_refl: "charged limit u u 0 0"
  by (simp add: charged_def)

lemma charged_trans: "charged limit u u1 n b \<Longrightarrow> charged limit u1 u2 n' b' \<Longrightarrow> charged limit u u2 (n + n') (b + b')"
  by (auto simp: charged_def)

lemma charged_bound:
  assumes "charged limit u u' n b"
  shows "(0 < Attempts limit \<longrightarrow> int n \<le> max 0 (Attempts limit - int (fst u))) \<and>
    (0 < Bytes limit \<longrightarrow> int b \<le> max 0 (Bytes limit - int (snd u)))"
  using assms by (auto simp: charged_def unlimited_def within_budget_def)

definition both_kinds :: "(budget_kind \<Rightarrow> bool) \<Rightarrow> bool" where
  "both_kinds P \<longleftrightarrow> P BudgetTransition \<and> P BudgetRestore"

definition day_charged ::
    "scanner_config \<Rightarrow> ('c \<Rightarrow> budget_kind \<Rightarrow> nat \<times> nat) \<Rightarrow> 'c \<Rightarrow> 'c \<Rightarrow> 'e event list \<Rightarrow> bool" where
  "day_charged cfg used c c' evs \<longleftrightarrow> both_kinds (\<lambda>kind. charged (kind_limit cfg kind) (used c kind) (used c' kind)
     (occurrences (granted_event kind) evs) (bytes_granted kind evs))"

lemma day_charged_trans:
  "day_charged cfg used c c1 evs \<Longrightarrow> day_charged cfg used c1 c2 evs' \<Longrightarrow> day_charged cfg used c c2 (evs @ evs')"
  by (auto simp: day_charged_def both_kinds_def bytes_granted_def intro: charged_trans)

definition reserves :: "'e event \<Rightarrow> bool" where
  "reserves ev = (case ev of CallReserve k b r \<Rightarrow> True | _ \<Rightarrow> False)"

lemma not_reserves: "\<not> reserves ev \<Longrightarrow> \<not> granted_event kind ev \<and> grant_bytes kind ev = 0"
  by (auto simp: reserves_def granted_event_def grant_bytes_def split: event.splits)

lemma day_charged_same:
  "(\<And>kind. used c' kind = used c kind) \<Longrightarrow> list_all (\<lambda>ev. \<not> reserves ev) evs \<Longrightarrow> day_charged cfg used c c' evs"
proof -
  assume u: "\<And>kind. used c' kind = used c kind" and evs: "list_all (\<lambda>ev. \<not> reserves ev) evs"
  have "occurrences (granted_event kind) evs = 0 \<and> bytes_granted kind evs = 0" for kind
    using evs not_reserves [of _ kind]
    by (induction evs) (auto simp: bytes_granted_def)
  then show ?thesis by (simp add: day_charged_def both_kinds_def u charged_refl)
qed

text \<open>What the store's other operations do to the server: the readers nothing, the cursor only its own key.\<close>

lemma budget_key_not_cursor: "cursorKey store scope = Inr key \<Longrightarrow> key \<noteq> budget_prefix store now kind @ ending"
  by (auto simp: cursorKey_def budget_prefix_def split: if_splits)

context keyspace_server
begin

lemma eval_array_server:
  assumes "eval_array (lua_commands redis ks) c scr keys = (r, c')" and "scr \<noteq> ReserveBudget"
  shows "t_server c' = t_server c"
proof -
  obtain ev where ev: "EvalScript (lua_commands redis ks) c scr keys [] = (ev, c')"
    using assms(1) by (auto simp: eval_array_def split: prod.splits sum.splits)
  have "\<exists>rep. lua_run redis scr keys [] (t_server c) = (rep, t_server c)"
    using assms(2) by (cases scr) (auto simp: lua_run_def)
  then show ?thesis using eval_cases [OF ev] by fastforce
qed

lemma ReadChunk_server:
  "ReadChunk fmt (lua_commands redis ks) store c objs lows highs = (r, c') \<Longrightarrow> t_server c' = t_server c"
  by (auto simp: ReadChunk_def ReadCoverage_def dest!: eval_array_server split: if_splits sum.splits prod.splits)

lemma LoadCursor_server:
  "LoadCursor codec (lua_commands redis ks) store c scope = (r, c') \<Longrightarrow> t_server c' = t_server c"
  by (auto simp: LoadCursor_def dest: GetKey_value(1) split: sum.splits prod.splits get_result.splits option.splits if_splits)

lemma SetKey_frame:
  assumes "SetKey (lua_commands redis ks) c key v = (r, c')"
  shows "clock (t_server c') = clock (t_server c)" and "k \<noteq> key \<Longrightarrow> val (t_server c') k = val (t_server c) k"
proof -
  obtain x where "through c (\<lambda>s. ((), k_set ks s key v)) = (x, c')"
    using assms by (auto simp: lua_commands_def split: prod.splits sum.splits)
  from through_cases [OF this] show "clock (t_server c') = clock (t_server c)"
    and "k \<noteq> key \<Longrightarrow> val (t_server c') k = val (t_server c) k"
    by (auto simp: set_key)
qed

lemma DelKey_frame:
  assumes "DelKey (lua_commands redis ks) c key = (r, c')"
  shows "clock (t_server c') = clock (t_server c)" and "k \<noteq> key \<Longrightarrow> val (t_server c') k = val (t_server c) k"
proof -
  obtain x where "through c (\<lambda>s. ((), k_del ks s key)) = (x, c')"
    using assms by (auto simp: lua_commands_def split: prod.splits sum.splits)
  from through_cases [OF this] show "clock (t_server c') = clock (t_server c)"
    and "k \<noteq> key \<Longrightarrow> val (t_server c') k = val (t_server c) k"
    by (auto simp: del_key)
qed

lemma cursor_keeps_budget:
  assumes "SaveCursor codec (lua_commands redis ks) store c scope cur = (r, c') \<or>
    ResetCursor (lua_commands redis ks) store c scope = (r, c')"
  shows "clock (t_server c') = clock (t_server c)" and "budget_used val store c' now kind = budget_used val store c now kind"
proof -
  have "c' = c \<or> (\<exists>key v r. cursorKey store scope = Inr key \<and>
      (SetKey (lua_commands redis ks) c key v = (r, c') \<or> DelKey (lua_commands redis ks) c key = (r, c')))"
    using assms by (auto simp: SaveCursor_def ResetCursor_def split: sum.splits prod.splits option.splits if_splits)
  then consider "c' = c" | key v x where "cursorKey store scope = Inr key" "SetKey (lua_commands redis ks) c key v = (x, c')"
    | key x where "cursorKey store scope = Inr key" "DelKey (lua_commands redis ks) c key = (x, c')" by blast
  then have "clock (t_server c') = clock (t_server c) \<and>
      (\<forall>ending. val (t_server c') (budget_prefix store now kind @ ending) = val (t_server c) (budget_prefix store now kind @ ending))"
  proof cases
    case 2
    then show ?thesis using SetKey_frame [OF 2(2)] budget_key_not_cursor [OF 2(1)] by metis
  next
    case 3
    then show ?thesis using DelKey_frame [OF 3(2)] budget_key_not_cursor [OF 3(1)] by metis
  qed simp
  then show "clock (t_server c') = clock (t_server c)"
    and "budget_used val store c' now kind = budget_used val store c now kind"
    by (auto simp: budget_used_def counter_at_def)
qed

end

text \<open>
  The law of a run on one day: while the day's counters live on the server, they stay alive and are
  charged for every grant in the trace.
\<close>

definition keeps_day ::
    "('s \<Rightarrow> int) \<Rightarrow> ('s \<Rightarrow> string \<Rightarrow> rvalue option) \<Rightarrow> redis_store \<Rightarrow> scanner_config \<Rightarrow> time \<Rightarrow>
     (('m, 's tierer_conn) tier_world, 'e) scan \<Rightarrow> (('m, 's tierer_conn) tier_world, 'e) scan \<Rightarrow> bool" where
  "keeps_day clock val store cfg day st st' \<longleftrightarrow>
     (budget_live clock (w_conn (world st)) day \<longrightarrow>
        budget_live clock (w_conn (world st')) day \<and>
        adds (day_charged cfg (\<lambda>c kind. budget_used val store c day kind) (w_conn (world st)) (w_conn (world st'))) st st')"

lemma keeps_day_trans:
  "keeps_day clock val store cfg day st st1 \<Longrightarrow> keeps_day clock val store cfg day st1 st2 \<Longrightarrow>
     keeps_day clock val store cfg day st st2"
  by (fastforce simp: keeps_day_def adds_def intro: day_charged_trans)

lemma keeps_day_same:
  assumes "clock (t_server (w_conn (world st'))) = clock (t_server (w_conn (world st)))"
    and "\<And>kind. budget_used val store (w_conn (world st')) day kind = budget_used val store (w_conn (world st)) day kind"
    and "trace st' = trace st @ evs" and "list_all (\<lambda>ev. \<not> reserves ev) evs"
  shows "keeps_day clock val store cfg day st st'"
  using assms day_charged_same [of "\<lambda>c kind. budget_used val store c day kind" "w_conn (world st')" "w_conn (world st)" evs cfg]
  by (auto simp: keeps_day_def adds_def budget_live_def)

lemma keeps_day_server:
  assumes "t_server (w_conn (world st')) = t_server (w_conn (world st))"
    and "trace st' = trace st @ evs" and "list_all (\<lambda>ev. \<not> reserves ev) evs"
  shows "keeps_day clock val store cfg day st st'"
  using assms by (intro keeps_day_same) (simp_all add: budget_used_def)

lemma budget_expiry_day: "now div Day = day div Day \<Longrightarrow> budget_expiry now = budget_expiry day"
  using truncate_day by (simp add: budget_expiry_def Day_def [symmetric])

lemma plain_not_reserves: "plain_event ev \<Longrightarrow> \<not> reserves ev"
  by (cases ev) (auto simp: reserves_def)

locale tierer_service = tierer_server redis val expiry clock ks st
  for redis :: "'a redis" and val expiry clock ks st +
  fixes sdk :: "'m minio_sdk" and fmt :: "string \<Rightarrow> time \<Rightarrow> string" and codec :: cursor_codec
    and env :: environment and digest :: "config_payload \<Rightarrow> string" and c :: tierer_config and day :: time
  assumes store: "st = tierer_store c"
    and limits: "valid_limit (T_TransitionBudget c)" "valid_limit (T_RestoreBudget c)"
    and retry: "0 < T_RetryDelay c"
    and one_day: "env_clock env n div Day = day div Day"
    and sizes: "StatObject sdk m b k = (Inr info, m') \<Longrightarrow> InfoSize info \<le> max_int64"
begin

lemma reserve_charged:
  assumes "Reserve (lua_commands redis ks) st cn now kind limit bytes = (res, cn')" and "valid_limit limit"
    and "bytes \<le> max_int64" and "now div Day = day div Day" and "budget_live clock cn day"
    and "kind = BudgetTransition \<or> kind = BudgetRestore"
  shows "budget_live clock cn' day"
    and "charged limit (budget_used val st cn day kind) (budget_used val st cn' day kind)
      (case res of Inr r \<Rightarrow> if Allowed r then 1 else 0 | _ \<Rightarrow> 0) (case res of Inr r \<Rightarrow> if Allowed r then nat bytes else 0 | _ \<Rightarrow> 0)"
    and "kind' \<noteq> kind \<Longrightarrow> kind' = BudgetTransition \<or> kind' = BudgetRestore \<Longrightarrow>
      budget_used val st cn' day kind' = budget_used val st cn day kind'"
proof -
  have day: "budget_prefix st now k = budget_prefix st day k" for k by (rule budget_prefix_day [OF assms(4)])
  have live: "budget_live clock cn now" using assms(5) budget_expiry_day [OF assms(4)] by (simp add: budget_live_def)
  have fits: "budget_fits limit bytes" using assms(2,3) by (simp add: budget_fits_def valid_limit_def)
  note out = Reserve_outcome [OF assms(1) live fits, unfolded day]
  show "budget_live clock cn' day" using out assms(5) by (auto simp: budget_live_def)
  show "charged limit (budget_used val st cn day kind) (budget_used val st cn' day kind)
      (case res of Inr r \<Rightarrow> if Allowed r then 1 else 0 | _ \<Rightarrow> 0) (case res of Inr r \<Rightarrow> if Allowed r then nat bytes else 0 | _ \<Rightarrow> 0)"
    using out by (auto simp: charged_def budget_used_def split: sum.splits)
  show "budget_used val st cn' day kind' = budget_used val st cn day kind'"
    if "kind' \<noteq> kind" "kind' = BudgetTransition \<or> kind' = BudgetRestore"
  proof -
    have "budget_prefix st day kind' @ a \<noteq> budget_prefix st day kind @ b" for a b
      using that assms(6) by (auto simp: budget_prefix_def BudgetTransition_def BudgetRestore_def)
    with out have "val (t_server cn') (budget_prefix st day kind' @ a) = val (t_server cn) (budget_prefix st day kind' @ a)" for a
      by (elim disjE conjE) simp_all
    then show ?thesis by (simp add: budget_used_def counter_at_def)
  qed
qed

end

lemma day_charged_reserve:
  assumes "\<And>k. k \<noteq> kind \<Longrightarrow> k = BudgetTransition \<or> k = BudgetRestore \<Longrightarrow> used c' k = used c k"
    and "charged (kind_limit cfg kind) (used c kind) (used c' kind)
      (case res of Inr r \<Rightarrow> if Allowed r then 1 else 0 | _ \<Rightarrow> 0) (case res of Inr r \<Rightarrow> if Allowed r then nat bytes else 0 | _ \<Rightarrow> 0)"
    and "kind = BudgetTransition \<or> kind = BudgetRestore"
  shows "day_charged cfg used c c' [CallReserve kind bytes res]"
proof -
  have "charged (kind_limit cfg k) (used c k) (used c' k) (occurrences (granted_event k) [CallReserve kind bytes res])
      (bytes_granted k [CallReserve kind bytes res])" if "k = BudgetTransition \<or> k = BudgetRestore" for k
  proof (cases "k = kind")
    case True
    then show ?thesis
      using assms(2) by (cases res) (auto simp: granted_event_def bytes_granted_def grant_bytes_def split: if_splits)
  next
    case False
    then show ?thesis
      using assms(1) that
      by (cases res) (auto simp: granted_event_def bytes_granted_def grant_bytes_def charged_refl)
  qed
  then show ?thesis by (simp add: day_charged_def both_kinds_def)
qed

sublocale tierer_service \<subseteq> spending: call_law "tierer_scanner sdk fmt codec (lua_commands redis ks) env digest c"
  "keeps_day clock val st (scanner_settings digest c) day" "\<lambda>obj. Size obj \<le> max_int64"
proof
  fix s0 s1 s2 :: "(('m, 'a tierer_conn) tier_world, dep_error) scan" and w w1 w2 :: "('m, 'a tierer_conn) tier_world"
  let ?s = "tierer_scanner sdk fmt codec (lua_commands redis ks) env digest c"
  let ?R = "keeps_day clock val st (scanner_settings digest c) day"
  note tier = tierer_deps_def on_minio_def on_redis_def store [symmetric]
  show "?R s0 s0" by (rule keeps_day_server [where evs = "[]"]) simp_all
  show "?R s0 s1 \<Longrightarrow> ?R s1 s2 \<Longrightarrow> ?R s0 s2" by (rule keeps_day_trans)
  show "?R s0 (emit ev s0)" if "plain_event ev" for ev
    using plain_not_reserves [OF that] by (intro keeps_day_server [where evs = "[ev]"]) simp_all
  show "?R s0 (s0\<lparr>world := w\<rparr>)" if "clock_now (deps ?s) (world s0) = (t, w)" for t
    using that by (intro keeps_day_server [where evs = "[]"]) (auto simp: tier)
  show "?R s0 (s0\<lparr>world := w\<rparr>)" if "inv_objects (deps ?s) (world s0) bucket start = (stream, w)" for bucket start stream
    using that by (intro keeps_day_server [where evs = "[]"]) (auto simp: tier split: prod.splits)
  show "?R s0 (s0\<lparr>world := w\<rparr>)" if "inv_buckets (deps ?s) (world s0) = (bs, w)" for bs
    using that by (intro keeps_day_server [where evs = "[]"]) (auto simp: tier split: prod.splits)
  show "?R s0 (s0\<lparr>world := w\<rparr>)" if "inv_plan (deps ?s) (world s0) obj k v = (r, w)" for obj k v r
    using that by (intro keeps_day_server [where evs = "[]"]) (auto simp: tier split: prod.splits)
  show "?R s0 (s0\<lparr>world := w\<rparr>)" if "st_load (deps ?s) (world s0) scope = (r, w)" for scope r
    using that by (intro keeps_day_server [where evs = "[]"]) (auto simp: tier dest!: LoadCursor_server split: prod.splits)
  show "?R s0 (called (CallReadChunk objs) w s0)" if "use_read (deps ?s) (world s0) objs lows highs = (r, w)" for objs lows highs r
    using that by (intro keeps_day_server [where evs = "[CallReadChunk objs]"])
      (auto simp: tier reserves_def dest!: ReadChunk_server split: prod.splits)
  show "?R s0 (called (CallSaveCursor cur e) w s0)" if "st_save (deps ?s) (world s0) scope cur = (e, w)" for scope cur e
  proof (rule keeps_day_same [where evs = "[CallSaveCursor cur e]"])
    obtain x cn where x: "SaveCursor codec (lua_commands redis ks) st (w_conn (world s0)) scope cur = (x, cn)" by fastforce
    then have "w_conn w = cn" using that by (auto simp: tier)
    then show "clock (t_server (w_conn (world (called (CallSaveCursor cur e) w s0)))) = clock (t_server (w_conn (world s0)))"
      and "budget_used val st (w_conn (world (called (CallSaveCursor cur e) w s0))) day kind
        = budget_used val st (w_conn (world s0)) day kind" for kind
      using cursor_keeps_budget [OF disjI1 [OF x]] by simp_all
  qed (simp_all add: reserves_def)
  show "?R s0 (called (CallResetCursor e) w s0)" if "st_reset (deps ?s) (world s0) scope = (e, w)" for scope e
  proof (rule keeps_day_same [where evs = "[CallResetCursor e]"])
    obtain x cn where x: "ResetCursor (lua_commands redis ks) st (w_conn (world s0)) scope = (x, cn)" by fastforce
    then have "w_conn w = cn" using that by (auto simp: tier)
    then show "clock (t_server (w_conn (world (called (CallResetCursor e) w s0)))) = clock (t_server (w_conn (world s0)))"
      and "budget_used val st (w_conn (world (called (CallResetCursor e) w s0))) day kind
        = budget_used val st (w_conn (world s0)) day kind" for kind
      using cursor_keeps_budget [OF disjI2 [OF x]] by simp_all
  qed (simp_all add: reserves_def)
  show "?R s0 (called (CallStat obj r) w s0)" if "inv_stat (deps ?s) (world s0) obj = (r, w)" for obj r
    using that by (intro keeps_day_server [where evs = "[CallStat obj r]"]) (auto simp: tier reserves_def split: prod.splits)
  show "?R s0 (called (CallApplyMarker obj plan r) w s0)" if "inv_apply (deps ?s) (world s0) obj plan = (r, w)" for obj plan r
    using that by (intro keeps_day_server [where evs = "[CallApplyMarker obj plan r]"]) (auto simp: tier reserves_def split: prod.splits)
  show "?R s0 (called (CallRestore obj days r) w s0)" if "inv_restore (deps ?s) (world s0) obj days = (r, w)" for obj days r
    using that by (intro keeps_day_server [where evs = "[CallRestore obj days r]"]) (auto simp: tier reserves_def split: prod.splits)
  show "Size cur \<le> max_int64" if "inv_stat (deps ?s) w obj = (Inr cur, w1)" for obj cur
  proof -
    obtain r m' where stat: "Stat sdk (w_minio w) obj = (r, m')" by fastforce
    moreover have "r = Inr cur" using that stat by (cases r) (auto simp: tier)
    ultimately show ?thesis
      using sizes by (auto simp: Stat_def Let_def objectFromInfo_def split: prod.splits sum.splits if_splits)
  qed
  show "?R s0 (called (CallReserve kind bytes res) w2 s0)"
    if kind: "kind = BudgetTransition \<or> kind = BudgetRestore" and ok: "Size obj \<le> max_int64" and bytes: "bytes = Size obj \<or> bytes = 0"
      and now: "clock_now (deps ?s) (world s0) = (now, w1)"
      and run: "st_reserve (deps ?s) w1 now kind (kind_limit (config ?s) kind) bytes = (res, w2)" for kind obj bytes now res
  proof -
    have cfg: "kind_limit (config ?s) kind = kind_limit (scanner_settings digest c) kind"
      and valid: "valid_limit (kind_limit (scanner_settings digest c) kind)"
      using limits by (simp_all add: tierer_scanner_config [OF retry] kind_limit_def scanner_settings_def)
    have w1: "w_conn w1 = w_conn (world s0)" and day: "now div Day = day div Day"
      using now one_day by (auto simp: tier)
    obtain x where x: "Reserve (lua_commands redis ks) st (w_conn (world s0)) now kind
        (kind_limit (scanner_settings digest c) kind) bytes = (x, w_conn w2)" and res: "res = map_sum RedisFailure id x"
      using run w1 cfg by (auto simp: tier split: prod.splits)
    have "bytes \<le> max_int64" using ok bytes by (auto simp: max_int64_def)
    note out = reserve_charged [OF x valid this day]
    show ?thesis
      unfolding keeps_day_def
    proof (intro impI conjI)
      assume live: "budget_live clock (w_conn (world s0)) day"
      show "budget_live clock (w_conn (world (called (CallReserve kind bytes res) w2 s0))) day"
        using out(1) [OF live kind] by simp
      have "day_charged (scanner_settings digest c) (\<lambda>c kind. budget_used val st c day kind) (w_conn (world s0)) (w_conn w2)
          [CallReserve kind bytes res]"
        using out(2,3) [OF live kind] kind by (intro day_charged_reserve) (auto simp: res split: sum.splits)
      then show "adds (day_charged (scanner_settings digest c) (\<lambda>c kind. budget_used val st c day kind) (w_conn (world s0))
          (w_conn (world (called (CallReserve kind bytes res) w2 s0)))) s0 (called (CallReserve kind bytes res) w2 s0)"
        by (simp add: adds_def)
    qed
  qed
qed

text \<open>The marked objects' sizes are the granted bytes.\<close>

definition marked_bytes :: "'e event \<Rightarrow> nat" where
  "marked_bytes ev = (case ev of CallApplyMarker obj plan r \<Rightarrow> nat (Size obj) | _ \<Rightarrow> 0)"

definition bytes_marked :: "'e event list \<Rightarrow> nat" where
  "bytes_marked evs = (\<Sum>ev\<leftarrow>evs. marked_bytes ev)"

definition bytes_paid :: "'e event list \<Rightarrow> bool" where
  "bytes_paid evs \<longleftrightarrow> bytes_marked evs = bytes_granted BudgetTransition evs"

lemmas bytes_defs = bytes_paid_def marked_bytes_def grant_bytes_def

lemma bytes_simps [simp]:
  "bytes_marked [] = 0" "bytes_marked (ev # evs) = marked_bytes ev + bytes_marked evs"
  "bytes_marked (evs @ evs') = bytes_marked evs + bytes_marked evs'"
  "bytes_granted kind [] = 0" "bytes_granted kind (ev # evs) = grant_bytes kind ev + bytes_granted kind evs"
  "bytes_granted kind (evs @ evs') = bytes_granted kind evs + bytes_granted kind evs'"
  by (simp_all add: bytes_marked_def bytes_granted_def)

lemma failure_paid: "failure_events d D \<Longrightarrow> bytes_marked D = 0 \<and> bytes_granted BudgetTransition D = 0"
  by (auto simp: failure_events_def bytes_defs)

lemma object_trace_paid: "object_trace cfg lobj res now evs stop \<Longrightarrow> bytes_paid evs"
proof (induction rule: object_trace.induct)
  case (mark cur evs stop)
  from mark(3) have "bytes_paid evs"
    by (cases rule: marker_trace.cases) (auto simp: bytes_defs failure_paid)
  then show ?case by (simp add: bytes_defs)
next
  case (restore cur act evs stop)
  from restore(4) have "bytes_paid evs"
    by (cases rule: restore_trace.cases) (auto simp: bytes_defs failure_paid)
  then show ?case by (simp add: bytes_defs)
qed (auto simp: bytes_defs failure_paid)

interpretation paid: trace_law s bytes_paid for s :: "('w, 'e) scanner"
proof
  fix obj res now st err st'
  assume "handleObject s obj res now st = (err, st')"
  from handleObject_trace [OF this] show "adds bytes_paid st st'"
    using object_trace_paid by (fastforce simp: adds_def)
next
  fix ev :: "'e event"
  show "outer_event ev \<Longrightarrow> bytes_paid [ev]" by (cases ev) (auto simp: bytes_defs)
qed (auto simp: bytes_defs)

context tierer_service
begin

lemma run_charged:
  assumes "budget_live clock (w_conn (world s0)) day"
    and evs_def: "evs = run_events (tierer_scanner sdk fmt codec (lua_commands redis ks) env digest c) rounds s0"
  shows "\<exists>u'. charged (T_TransitionBudget c) (budget_used val st (w_conn (world s0)) day BudgetTransition) u'
      (occurrences marker_event evs) (bytes_marked evs)"
    and "\<exists>u'. charged (T_RestoreBudget c) (budget_used val st (w_conn (world s0)) day BudgetRestore) u'
      (occurrences restore_event evs) (bytes_granted BudgetRestore evs)"
proof -
  let ?s = "tierer_scanner sdk fmt codec (lua_commands redis ks) env digest c"
  have "adds (day_charged (scanner_settings digest c) (\<lambda>c kind. budget_used val st c day kind) (w_conn (world s0))
      (w_conn (world (snd (Run ?s rounds s0))))) s0 (snd (Run ?s rounds s0))"
    using spending.law.R_Run [of s0 rounds] assms(1) by (simp add: keeps_day_def)
  then have day: "day_charged (scanner_settings digest c) (\<lambda>c kind. budget_used val st c day kind) (w_conn (world s0))
      (w_conn (world (snd (Run ?s rounds s0)))) evs"
    unfolding evs_def using adds_run by blast
  have spent: "grants_spent evs" "bytes_paid evs"
    unfolding evs_def using adds_run [OF spent.law.R_Run] adds_run [OF paid.law.R_Run] by blast+
  show "\<exists>u'. charged (T_TransitionBudget c) (budget_used val st (w_conn (world s0)) day BudgetTransition) u'
      (occurrences marker_event evs) (bytes_marked evs)"
    and "\<exists>u'. charged (T_RestoreBudget c) (budget_used val st (w_conn (world s0)) day BudgetRestore) u'
      (occurrences restore_event evs) (bytes_granted BudgetRestore evs)"
    using day spent
    by (auto simp: day_charged_def both_kinds_def kind_limit_def scanner_settings_def grants_spent_def bytes_paid_def
        simp del: split_paired_Ex)
qed

end

text \<open>The in-memory server with sizes of 64 bits, and a configuration in apply mode.\<close>

definition int64_minio :: "mem_objects minio_sdk" where
  "int64_minio = mem_minio\<lparr>StatObject := (\<lambda>w b n. case mem_stat w b n of
     None \<Rightarrow> (Inl ''NoSuchKey'', w) | Some i \<Rightarrow> (Inr (i\<lparr>InfoSize := min max_int64 (InfoSize i)\<rparr>), w))\<rparr>"

definition apply_env :: env where
  "apply_env = demo_env(''TIERER_MODE'' \<mapsto> ''apply'', ''TIERER_APPLY'' \<mapsto> ''true'',
     ''TIERER_DAILY_TRANSITION_ATTEMPTS'' \<mapsto> ''2'')"

lemma apply_env_loads:
  "\<exists>c. LoadConfig demo_go apply_env = Inr c \<and> T_TransitionBudget c = \<lparr>Attempts = 2, Bytes = 0\<rparr> \<and> T_Apply c"
  by (simp add: LoadConfig_def apply_env_def config_eval)

definition apply_config :: tierer_config where
  "apply_config = projr (LoadConfig demo_go apply_env)"

lemma apply_config_loaded: "LoadConfig demo_go apply_env = Inr apply_config"
  using apply_env_loads by (auto simp: apply_config_def)

lemma apply_config_valid: "valid_config apply_config"
  by (rule LoadConfig_valid [OF apply_config_loaded])

lemma int64_minio_sizes: "StatObject int64_minio m b k = (Inr info, m') \<Longrightarrow> InfoSize info \<le> max_int64"
  by (auto simp: int64_minio_def split: option.splits)

interpretation mem_service: tierer_service mem_redis mem_val mem_expiry mem_clock mem_keyspace
  "tierer_store apply_config" int64_minio fmt codec demo_environment digest apply_config "100 * Hour" for fmt codec digest
  using apply_config_valid int64_minio_sizes
  by unfold_locales (auto simp: valid_config_def demo_environment_def)

text \<open>C4: The daily budgets hold in the running service: with any loaded configuration, over any number of
  scans on one day and any faults of MinIO and of the connection to Redis, the markers applied are
  no more than the transition attempts left at the start of the run, the sizes of the marked objects
  add up to no more than the bytes left, and the restores are no more than the restore attempts left, for no more bytes than are left.\<close>

theorem daily_budgets_hold:
  assumes "tierer_server redis val expiry clock ks" and "LoadConfig go lookup = Inr c"
    and "\<forall>n. env_clock env n div Day = day div Day"
    and "\<forall>m b k info m'. StatObject sdk m b k = (Inr info, m') \<longrightarrow> InfoSize info \<le> max_int64"
    and "budget_live clock (w_conn (world st)) day"
    and "evs = run_events (tierer_scanner sdk fmt codec (lua_commands redis ks) env digest c) rounds st"
    and "used = budget_used val (tierer_store c) (w_conn (world st)) day"
  shows "(0 < Attempts (T_TransitionBudget c) \<longrightarrow>
        int (occurrences marker_event evs) \<le> max 0 (Attempts (T_TransitionBudget c) - int (fst (used BudgetTransition)))) \<and>
      (0 < Bytes (T_TransitionBudget c) \<longrightarrow>
        int (bytes_marked evs) \<le> max 0 (Bytes (T_TransitionBudget c) - int (snd (used BudgetTransition)))) \<and>
      (0 < Attempts (T_RestoreBudget c) \<longrightarrow>
        int (occurrences restore_event evs) \<le> max 0 (Attempts (T_RestoreBudget c) - int (fst (used BudgetRestore)))) \<and>
      (0 < Bytes (T_RestoreBudget c) \<longrightarrow>
        int (bytes_granted BudgetRestore evs) \<le> max 0 (Bytes (T_RestoreBudget c) - int (snd (used BudgetRestore))))"
proof -
  have "valid_config c" by (rule LoadConfig_valid [OF assms(2)])
  then have service: "tierer_service redis val expiry clock ks (tierer_store c) sdk env c day"
    using assms(1,3,4)
    by (auto simp: valid_config_def tierer_service_def tierer_service_axioms_def)
  show ?thesis
    using tierer_service.run_charged [OF service assms(5,6)] charged_bound unfolding assms(7) by blast
qed

definition demo_scan :: "((mem_objects, mem_state tierer_conn) tier_world, dep_error) scan" where
  "demo_scan = \<lparr>world = \<lparr>w_minio = \<lparr>mo_listing = [], mo_tags = (\<lambda>_. [])\<rparr>,
     w_conn = \<lparr>t_server = mem_empty 5, t_faults = [ReplyLost]\<rparr>, w_tick = 0\<rparr>, trace = []\<rparr>"

theorem daily_budgets_hold_witness:
  "occurrences marker_event (run_events (tierer_scanner int64_minio (format_layout demo_go) demo_codec
     (lua_commands mem_redis mem_keyspace) demo_environment demo_digest apply_config) [(True, False), (True, True)] demo_scan) \<le> 2"
proof -
  have "budget_expiry (100 * Hour) = 604800"
    by (simp add: budget_expiry_def truncate_day) (simp add: unix_def time_units)
  then have live: "budget_live mem_clock (w_conn (world demo_scan)) (100 * Hour)"
    by (simp add: budget_live_def demo_scan_def mem_empty_def max_expiry_def)
  have sizes: "\<forall>m b k info m'. StatObject int64_minio m b k = (Inr info, m') \<longrightarrow> InfoSize info \<le> max_int64"
    using int64_minio_sizes by blast
  have clock: "\<forall>n. env_clock demo_environment n div Day = (100 * Hour) div Day" by (simp add: demo_environment_def)
  have "T_TransitionBudget apply_config = \<lparr>Attempts = 2, Bytes = 0\<rparr>"
    using apply_env_loads apply_config_loaded by auto
  then show ?thesis
    using daily_budgets_hold [OF mem_tierer.tierer_server_axioms apply_config_loaded clock sizes live refl refl,
        of "format_layout demo_go" demo_codec demo_digest "[(True, False), (True, True)]"]
    by auto
qed

theorem service_cursor_ascends_witness:
  "sorted_wrt CursorBefore (saved_cursors (new_events demo_scan (snd (ScanOnce (tierer_scanner mem_minio
     (format_layout demo_go) demo_codec (lua_commands mem_redis mem_keyspace) demo_environment demo_digest apply_config)
     True demo_scan))))"
proof -
  have "\<forall>m names m'. ListBuckets mem_minio m = (Inr names, m') \<longrightarrow> distinct names" by (auto simp: mem_minio_def)
  from service_cursor_ascends [OF refl this prod.collapse [symmetric]] show ?thesis by blast
qed

end
