(* ===== verification/Own_Keys.thy ===== *)
theory Own_Keys
  imports Tierer_Service
begin

text \<open>
  What the tierer writes in Redis: whatever a run of the scanner does, it changes no key but the
  tierer's own, the cursors and the budgets of its instance. The access counters of the updater
  are not among them, nor those of another instance.
\<close>

section \<open>The tierer's keys\<close>

definition own_key :: "redis_store \<Rightarrow> string \<Rightarrow> bool" where
  "own_key st key \<longleftrightarrow>
     (\<exists>rest. key = Namespace @ '':'' @ instance_id st @ '':cursor:'' @ rest \<or>
             key = Namespace @ '':'' @ instance_id st @ '':budget:'' @ rest)"

lemma cursorKey_own: "cursorKey st scope = Inr key \<Longrightarrow> own_key st key"
  by (auto simp: cursorKey_def own_key_def split: if_splits)

lemma budget_prefix_own: "own_key st (budget_prefix st now kind @ ending)"
  by (simp add: budget_prefix_def own_key_def)

lemma AccessKey_not_own: "AccessKey (instance_id st) bucket obj h = Inr key \<Longrightarrow> \<not> own_key st key"
  by (auto simp: AccessKey_def own_key_def split: sum.splits)

text \<open>
  A Redis server whose \<open>INCRBY\<close> and \<open>EXPIREAT\<close> change only the key they are given; an \<open>EXPIREAT\<close> in the
  past removes it.
\<close>

locale framed_server = keyspace_server +
  assumes incrby_frame: "r_incrby redis s k d = Inr (n, s') \<Longrightarrow> j \<noteq> k \<Longrightarrow> val s' j = val s j"
    and expireat_frame: "r_expireat redis s k t = Inr s' \<Longrightarrow> j \<noteq> k \<Longrightarrow> val s' j = val s j"

interpretation mem_framed: framed_server mem_redis mem_val mem_expiry mem_clock mem_keyspace
  by unfold_locales (auto simp: mem_redis_def mem_incrby_def mem_expireat_def split: option.splits rvalue.splits if_splits)

definition same_elsewhere ::
    "('s \<Rightarrow> string \<Rightarrow> rvalue option) \<Rightarrow> redis_store \<Rightarrow> 's \<Rightarrow> 's \<Rightarrow> bool" where
  "same_elsewhere val st s s' \<longleftrightarrow> (\<forall>key. \<not> own_key st key \<longrightarrow> val s' key = val s key)"

context framed_server
begin

lemma incr_then_expire_frame:
  "incr_then_expire redis s k d t = (r, s') \<Longrightarrow> j \<noteq> k \<Longrightarrow> val s' j = val s j"
  using incrby_frame [of s k d _ _ j] expireat_frame [of _ k t s' j]
  by (fastforce simp: incr_then_expire_def split: sum.splits prod.splits)

lemma reserve_script_frame:
  assumes "reserve_script redis k1 k2 al bl d t s = (r, s')" and "j \<noteq> k1" and "j \<noteq> k2"
  shows "val s' j = val s j"
  using assms(1)
  by (auto simp: reserve_script_def split: option.splits if_splits prod.splits sum.splits
      dest!: incr_then_expire_frame [OF _ assms(2)] incr_then_expire_frame [OF _ assms(3)])

lemma Reserve_frame:
  assumes "Reserve (lua_commands redis ks) st c now kind limit bytes = (res, c')"
  shows "same_elsewhere val st (t_server c) (t_server c')"
proof -
  let ?keys = "[budget_prefix st now kind @ ''-attempts'', budget_prefix st now kind @ ''-bytes'']"
  consider "c' = c" | al bl e ev where "EvalScript (lua_commands redis ks) c ReserveBudget ?keys [al, bl, bytes, e] = (ev, c')"
    using assms by (auto simp: Reserve_def Let_def split: if_splits prod.splits sum.splits)
  then show ?thesis
  proof cases
    case 2
    obtain rep s1 where run: "reserve_script redis (budget_prefix st now kind @ ''-attempts'')
        (budget_prefix st now kind @ ''-bytes'') (format_int al) (format_int bl) (format_int bytes) (format_int e)
        (t_server c) = (rep, s1)" by fastforce
    then have "lua_run redis ReserveBudget ?keys [al, bl, bytes, e] (t_server c) = (rep, s1)"
      by (simp add: lua_run_def)
    from eval_cases [OF 2 this] have "t_server c' = t_server c \<or> t_server c' = s1" by blast
    moreover have "val s1 key = val (t_server c) key" if "\<not> own_key st key" for key
      using reserve_script_frame [OF run] that budget_prefix_own by metis
    ultimately show ?thesis by (auto simp: same_elsewhere_def)
  qed (simp add: same_elsewhere_def)
qed

lemma cursor_frame:
  assumes "SaveCursor codec (lua_commands redis ks) st c scope cur = (r, c') \<or>
    ResetCursor (lua_commands redis ks) st c scope = (r, c')"
  shows "same_elsewhere val st (t_server c) (t_server c')"
proof -
  have "c' = c \<or> (\<exists>key v r. cursorKey st scope = Inr key \<and>
      (SetKey (lua_commands redis ks) c key v = (r, c') \<or> DelKey (lua_commands redis ks) c key = (r, c')))"
    using assms by (auto simp: SaveCursor_def ResetCursor_def split: sum.splits prod.splits option.splits if_splits)
  then consider "c' = c" | key v x where "cursorKey st scope = Inr key" "SetKey (lua_commands redis ks) c key v = (x, c')"
    | key x where "cursorKey st scope = Inr key" "DelKey (lua_commands redis ks) c key = (x, c')" by blast
  then show ?thesis
  proof cases
    case 2
    then show ?thesis using SetKey_frame(2) [OF 2(2)] cursorKey_own [OF 2(1)] unfolding same_elsewhere_def by metis
  next
    case 3
    then show ?thesis using DelKey_frame(2) [OF 3(2)] cursorKey_own [OF 3(1)] unfolding same_elsewhere_def by metis
  qed (simp add: same_elsewhere_def)
qed

end

section \<open>A run\<close>

text \<open>The law of a run: time passes, and Redis stays as it is outside the tierer's keys.\<close>

definition writes_own ::
    "('s \<Rightarrow> string \<Rightarrow> rvalue option) \<Rightarrow> redis_store \<Rightarrow>
     (('m, 's tierer_conn) tier_world, 'e) scan \<Rightarrow> (('m, 's tierer_conn) tier_world, 'e) scan \<Rightarrow> bool" where
  "writes_own val st s0 s1 \<longleftrightarrow> w_tick (world s0) \<le> w_tick (world s1) \<and>
     same_elsewhere val st (t_server (w_conn (world s0))) (t_server (w_conn (world s1)))"

lemma writes_own_trans: "writes_own val st s0 s1 \<Longrightarrow> writes_own val st s1 s2 \<Longrightarrow> writes_own val st s0 s2"
  by (auto simp: writes_own_def same_elsewhere_def)

lemma writes_own_server:
  "t_server (w_conn (world s1)) = t_server (w_conn (world s0)) \<Longrightarrow> w_tick (world s0) \<le> w_tick (world s1) \<Longrightarrow>
     writes_own val st s0 s1"
  by (simp add: writes_own_def same_elsewhere_def)

locale wired_scanner = framed_server redis val expiry clock ks
  for redis :: "'a redis" and val expiry clock ks +
  fixes sdk :: "'m minio_sdk" and fmt :: "string \<Rightarrow> time \<Rightarrow> string" and codec :: cursor_codec
    and env :: environment and digest :: "config_payload \<Rightarrow> string" and c :: tierer_config

sublocale wired_scanner \<subseteq> writing: call_law "tierer_scanner sdk fmt codec (lua_commands redis ks) env digest c"
  "writes_own val (tierer_store c)" "\<lambda>obj. True"
proof
  fix s0 s1 s2 :: "(('m, 'a tierer_conn) tier_world, dep_error) scan" and w w1 w2 :: "('m, 'a tierer_conn) tier_world"
  let ?s = "tierer_scanner sdk fmt codec (lua_commands redis ks) env digest c"
  let ?R = "writes_own val (tierer_store c)"
  note tier = tierer_deps_def on_minio_def on_redis_def
  show "?R s0 s0" by (rule writes_own_server) simp_all
  show "?R s0 s1 \<Longrightarrow> ?R s1 s2 \<Longrightarrow> ?R s0 s2" by (rule writes_own_trans)
  show "?R s0 (emit ev s0)" for ev by (rule writes_own_server) simp_all
  show "?R s0 (s0\<lparr>world := w\<rparr>)" if "clock_now (deps ?s) (world s0) = (t, w)" for t
    using that by (intro writes_own_server) (auto simp: tier)
  show "?R s0 (s0\<lparr>world := w\<rparr>)" if "inv_objects (deps ?s) (world s0) bucket start = (stream, w)" for bucket start stream
    using that by (intro writes_own_server) (auto simp: tier split: prod.splits)
  show "?R s0 (s0\<lparr>world := w\<rparr>)" if "inv_buckets (deps ?s) (world s0) = (bs, w)" for bs
    using that by (intro writes_own_server) (auto simp: tier split: prod.splits)
  show "?R s0 (s0\<lparr>world := w\<rparr>)" if "inv_plan (deps ?s) (world s0) obj k v = (r, w)" for obj k v r
    using that by (intro writes_own_server) (auto simp: tier split: prod.splits)
  show "?R s0 (s0\<lparr>world := w\<rparr>)" if "st_load (deps ?s) (world s0) scope = (r, w)" for scope r
    using that by (intro writes_own_server) (auto simp: tier dest!: LoadCursor_server split: prod.splits)
  show "?R s0 (called (CallReadChunk objs) w s0)" if "use_read (deps ?s) (world s0) objs lows highs = (r, w)" for objs lows highs r
    using that by (intro writes_own_server) (auto simp: tier dest!: ReadChunk_server split: prod.splits)
  show "?R s0 (called (CallSaveCursor cur e) w s0)" if "st_save (deps ?s) (world s0) scope cur = (e, w)" for scope cur e
    using that cursor_frame [OF disjI1] by (auto simp: writes_own_def tier split: prod.splits)
  show "?R s0 (called (CallResetCursor e) w s0)" if "st_reset (deps ?s) (world s0) scope = (e, w)" for scope e
    using that cursor_frame [OF disjI2] by (auto simp: writes_own_def tier split: prod.splits)
  show "?R s0 (called (CallStat obj r) w s0)" if "inv_stat (deps ?s) (world s0) obj = (r, w)" for obj r
    using that by (intro writes_own_server) (auto simp: tier split: prod.splits)
  show "?R s0 (called (CallApplyMarker obj plan r) w s0)" if "inv_apply (deps ?s) (world s0) obj plan = (r, w)" for obj plan r
    using that by (intro writes_own_server) (auto simp: tier split: prod.splits)
  show "?R s0 (called (CallRestore obj days r) w s0)" if "inv_restore (deps ?s) (world s0) obj days = (r, w)" for obj days r
    using that by (intro writes_own_server) (auto simp: tier split: prod.splits)
  show "?R s0 (called (CallReserve kind bytes res) w2 s0)"
    if "clock_now (deps ?s) (world s0) = (now, w1)"
      and "st_reserve (deps ?s) w1 now kind (kind_limit (config ?s) kind) bytes = (res, w2)" for kind bytes now res
    using that Reserve_frame by (auto simp: writes_own_def tier split: prod.splits)
qed simp

context wired_scanner
begin

lemma run_writes_own:
  "writes_own val (tierer_store c) st
     (snd (Run (tierer_scanner sdk fmt codec (lua_commands redis ks) env digest c) rounds st))"
  by (rule writing.law.R_Run)

end

lemma access_count_same:
  assumes "same_elsewhere val st srv srv'"
  shows "access_count val srv' (instance_id st) obj h = access_count val srv (instance_id st) obj h"
  using assms AccessKey_not_own
  by (auto simp: access_count_def counter_at_def same_elsewhere_def split: sum.splits)

section \<open>Property\<close>

text \<open>C15: The tierer writes no key in Redis but its own: over any run of the scanner, in either mode and whatever
  MinIO, the connection and the clock do, every key that is not a cursor or a budget of the
  tierer's instance keeps its value; in particular every access counter of the instance does.\<close>

theorem tierer_writes_own_keys:
  assumes "framed_server redis val expiry clock ks"
    and "sc = tierer_scanner sdk fmt codec (lua_commands redis ks) env digest c"
    and "srv = t_server (w_conn (world st))" and "srv' = t_server (w_conn (world (snd (Run sc rounds st))))"
  shows "(\<forall>key. \<not> own_key (tierer_store c) key \<longrightarrow> val srv' key = val srv key) \<and>
    access_count val srv' (T_InstanceID c) obj h = access_count val srv (T_InstanceID c) obj h"
proof -
  have inst: "instance_id (tierer_store c) = T_InstanceID c" by (simp add: tierer_store_def NewRedisStore_def)
  have "wired_scanner redis val expiry clock ks" using assms(1) by (simp add: wired_scanner_def)
  from wired_scanner.run_writes_own [OF this, of c st sdk fmt codec env digest rounds]
  have "same_elsewhere val (tierer_store c) srv srv'" by (simp add: assms(2-4) writes_own_def)
  with access_count_same [OF this, of obj h] show ?thesis by (simp add: same_elsewhere_def inst)
qed

text \<open>
  Two scans of one object that has seven accesses in the second hour, through a connection that loses a
  reply: the counter stays.
\<close>

interpretation mem_wired: wired_scanner mem_redis mem_val mem_expiry mem_clock mem_keyspace
  mem_minio fmt codec env digest c for fmt codec env digest c
  by unfold_locales

definition cold_info :: "string \<Rightarrow> object_info" where
  "cold_info n = \<lparr>InfoErr = None, InfoKey = n, InfoETag = ''e'', InfoLastModified = 0, InfoSize = 1, InfoVersionID = [],
     InfoStorageClass = ''STANDARD'', MetadataClass = None, InfoRestore = None\<rparr>"

definition small_config :: tierer_config where
  "small_config = \<lparr>T_InstanceID = ''prod'', T_AccessRetention = Second, T_Apply = True,
     T_Policy = \<lparr>LowThreshold = 2, LowWindowHours = 2, HighThreshold = 10, HighWindowHours = 1, HighIncludeCurrent = False\<rparr>,
     T_RestoreDays = 3, T_CoverageTemplate = [], T_CoverageValue = [], T_CoverageEnabled = False, T_MarkerKey = ''tier'',
     T_MarkerValue = ''cold'', T_RedisAddress = [], T_RedisUsername = [], T_RedisPassword = [], T_RedisDB = 0, T_RedisTLS = False,
     T_RedisOperationTimeout = Second, T_MinIOEndpoint = [], T_MinIOAccessKey = [], T_MinIOSecretKey = [], T_MinIOSecure = False,
     T_MinIORegion = [], T_MinIOOperationTimeout = Second, T_TransitionBudget = \<lparr>Attempts = 0, Bytes = 0\<rparr>,
     T_RestoreBudget = \<lparr>Attempts = 0, Bytes = 0\<rparr>, T_ExcludedBuckets = [], T_ExcludedPrefixes = [], T_ChunkSize = 10,
     T_CompletionDelay = Hour, T_RetryDelay = Hour, T_ListenAddress = [], T_ShutdownTimeout = Second\<rparr>"

definition counted_scan :: "((mem_objects, mem_state tierer_conn) tier_world, dep_error) scan" where
  "counted_scan = \<lparr>world = \<lparr>w_minio = \<lparr>mo_listing = [(''b'', cold_info ''o'')], mo_tags = (\<lambda>_. [])\<rparr>,
     w_conn = \<lparr>t_server = counted_server, t_faults = [NoFault, ReplyLost]\<rparr>, w_tick = 0\<rparr>, trace = []\<rparr>"

theorem tierer_writes_own_keys_witness:
  "access_count mem_val (t_server (w_conn (world (snd (Run (tierer_scanner mem_minio (format_layout demo_go) demo_codec
     (lua_commands mem_redis mem_keyspace) demo_environment demo_digest small_config) [(True, False), (True, True)] counted_scan)))))
     (T_InstanceID small_config) (plain_object ''b'' ''o'') Hour = 7"
proof -
  have inst: "T_InstanceID small_config = ''prod''"
    by (simp add: small_config_def)
  have "access_count mem_val (t_server (w_conn (world counted_scan))) ''prod'' (plain_object ''b'' ''o'') Hour = 7"
    by code_simp
  with tierer_writes_own_keys [OF mem_framed.framed_server_axioms refl refl refl, where c = small_config and st = counted_scan
      and rounds = "[(True, False), (True, True)]" and sdk = mem_minio and fmt = "format_layout demo_go" and codec = demo_codec
      and env = demo_environment and digest = demo_digest and obj = "plain_object ''b'' ''o''" and h = Hour]
  show ?thesis by (simp add: inst)
qed

end
