(* ===== verification/Startup.thy ===== *)
theory Startup
  imports Clients Lifecycle Ingest Own_Keys "HOL-Library.Code_Target_Nat"
begin

text \<open>
  The two processes from \<^verbatim>\<open>main\<close> to exit: \<^verbatim>\<open>cmd/redis-updater/main.go\<close> and \<open>Run\<close> of \<^verbatim>\<open>internal/updater/run.go\<close>,
  \<^verbatim>\<open>cmd/minio-tierer/main.go\<close> and \<open>Run\<close> of \<^verbatim>\<open>internal/tierer/service.go\<close>, and the level of
  \<^verbatim>\<open>internal/logging/logging.go\<close>. The operations on Redis, MinIO and the HTTP server that \<open>Run\<close> calls are
  parameters; what they are called with and in which order is the model.
\<close>

section \<open>Logging\<close>

datatype log_level = LevelDebug | LevelInfo | LevelWarn | LevelError

definition ParseLevel :: "string \<Rightarrow> unit + log_level" where
  "ParseLevel raw =
     (if raw = [] \<or> raw = ''info'' then Inr LevelInfo
      else if raw = ''debug'' then Inr LevelDebug
      else if raw = ''warn'' then Inr LevelWarn
      else if raw = ''error'' then Inr LevelError
      else Inl ())"

section \<open>The updater\<close>

text \<open>
  \<open>rt_ping\<close> is the first ping through a client with these options, \<open>rt_load\<close> the load of the script,
  \<open>rt_serve\<close> the start of the batcher and of the server and the wait for the server's error or the
  end of the context, \<open>rt_service\<close> what \<open>runService\<close> calls from there on.
\<close>

record ('w, 'e) updater_runtime =
  rt_ping :: "redis_options \<Rightarrow> 'w \<Rightarrow> 'e option \<times> 'w"
  rt_load :: "'w \<Rightarrow> 'e option \<times> 'w"
  rt_serve :: "http_server \<Rightarrow> batcher_config \<Rightarrow> 'w \<Rightarrow> 'e option \<times> 'w"
  rt_service :: "('w, 'e) updater_service"

datatype 'e updater_failure = AddressNotSplit | PingFailed 'e | LoadFailed 'e | ServiceFailed "'e list"

datatype risk_warning = DataLossWarning int | DuplicateWarning int

definition logRiskWarnings :: "updater_config \<Rightarrow> risk_warning list" where
  "logRiskWarnings ucfg =
     (if U_DataLossRisk ucfg then [DataLossWarning (U_FailureStatus ucfg)] else []) @
     (if U_DuplicateRisk ucfg then [DuplicateWarning (U_SuccessStatus ucfg)] else [])"

definition Run_updater ::
    "'e error_tests \<Rightarrow> ('w, 'e) updater_runtime \<Rightarrow> updater_config \<Rightarrow> 'w \<Rightarrow>
       'e updater_failure option \<times> risk_warning list \<times> 'w" where
  "Run_updater tests rt ucfg w =
     (case RedisOptions_updater ucfg of
        Inl _ \<Rightarrow> (Some AddressNotSplit, [], w)
      | Inr options \<Rightarrow>
          (case rt_ping rt options w of
             (Some err, w1) \<Rightarrow> (Some (PingFailed err), [], snd (svc_close (rt_service rt) w1))
           | (None, w1) \<Rightarrow>
               (case rt_load rt w1 of
                  (Some err, w2) \<Rightarrow> (Some (LoadFailed err), [], snd (svc_close (rt_service rt) w2))
                | (None, w2) \<Rightarrow>
                    (case rt_serve rt (NewHTTPServer ucfg) (batcher_settings ucfg) w2 of
                       (serveErr, w3) \<Rightarrow>
                         (case runService tests (rt_service rt) serveErr w3 of
                            (errs, w4) \<Rightarrow>
                              (if errs = [] then None else Some (ServiceFailed errs), logRiskWarnings ucfg, w4))))))"

section \<open>The tierer\<close>

datatype 'e tierer_exit =
    AddressRejected
  | TransportFailed 'e
  | MinioFailed 'e
  | NotReady "'e ready_error"
  | Served "'e service_error list option"

datatype closed_client = CloseIdleConnections | CloseRedis

text \<open>
  \<open>NewMinio\<close> is \<^verbatim>\<open>minio.New\<close>: its error. The result is the exit, the deferred closes in the order they
  run, the dependency failures counted at startup, and the state of the world.
\<close>

definition Run_tierer ::
    "'e error_tests \<Rightarrow> (bool \<Rightarrow> 'e + transport) \<Rightarrow> (string \<Rightarrow> minio_options \<Rightarrow> 'e option) \<Rightarrow>
       (redis_options \<Rightarrow> 'c \<Rightarrow> 'e option \<times> 'c) \<Rightarrow> 'm minio_sdk \<Rightarrow>
       (tierer_config \<Rightarrow> (('m, 'c) tier_world, dep_error) scanner) \<Rightarrow>
       tierer_config \<Rightarrow> 'e signal \<Rightarrow> 'e signal list \<Rightarrow> (bool \<times> bool) list \<Rightarrow>
       (('m, 'c) tier_world, dep_error) scan \<Rightarrow>
       'e tierer_exit \<times> closed_client list \<times> string list \<times> (('m, 'c) tier_world, dep_error) scan" where
  "Run_tierer tests DefaultTransport NewMinio ping sdk scanner c first signals rounds st =
     (case RedisOptions_tierer c of
        Inl _ \<Rightarrow> (AddressRejected, [], [], st)
      | Inr options \<Rightarrow>
          (case MinIOTransport DefaultTransport c of
             Inl err \<Rightarrow> (TransportFailed err, [CloseRedis], [], st)
           | Inr transport \<Rightarrow>
               (case NewMinio (T_MinIOEndpoint c) (minio_settings c transport) of
                  Some err \<Rightarrow> (MinioFailed err, [CloseIdleConnections, CloseRedis], [], st)
                | None \<Rightarrow>
                    (case Ready (ping options) sdk (w_conn (world st)) (w_minio (world st)) of
                       (err, failures, redis1, minio1) \<Rightarrow>
                         let st1 = st\<lparr>world := (world st)\<lparr>w_conn := redis1, w_minio := minio1\<rparr>\<rparr>
                         in case err of
                              Some e \<Rightarrow> (NotReady e, [CloseIdleConnections, CloseRedis], failures, st1)
                            | None \<Rightarrow> (Served (runServiceLoops tests first signals),
                                [CloseIdleConnections, CloseRedis], failures, snd (Run (scanner c) rounds st1))))))"

section \<open>The processes\<close>

text \<open>
  \<^verbatim>\<open>main\<close>: the level, the configuration, the run. Status 2 is a configuration that is refused, 1 a run
  that failed; \<^verbatim>\<open>os.Getenv\<close> gives the empty string for a variable that is not set.
\<close>

definition updater_main ::
    "'e error_tests \<Rightarrow> (int \<Rightarrow> int \<Rightarrow> int \<Rightarrow> int) \<Rightarrow> ('w, 'e) updater_runtime \<Rightarrow> env \<Rightarrow> 'w \<Rightarrow> int \<times> 'w" where
  "updater_main tests frac rt lookup w =
     (case ParseLevel (case lookup ''LOG_LEVEL'' of None \<Rightarrow> [] | Some raw \<Rightarrow> raw) of
        Inl _ \<Rightarrow> (2, w)
      | Inr level \<Rightarrow>
          (case LoadConfig_updater frac lookup of
             Inl err \<Rightarrow> (2, w)
           | Inr ucfg \<Rightarrow>
               (case Run_updater tests rt ucfg w of
                  (Some failure, _, w1) \<Rightarrow> (1, w1)
                | (None, _, w1) \<Rightarrow> (0, w1))))"

text \<open>The tierer's status is \<open>None\<close> while its loops still wait.\<close>

definition tierer_status :: "'e tierer_exit \<Rightarrow> int option" where
  "tierer_status exit =
     (case exit of Served r \<Rightarrow> map_option (\<lambda>errs. if errs = [] then 0 else 1) r | _ \<Rightarrow> Some 1)"

definition tierer_main ::
    "'e error_tests \<Rightarrow> (bool \<Rightarrow> 'e + transport) \<Rightarrow> (string \<Rightarrow> minio_options \<Rightarrow> 'e option) \<Rightarrow>
       (redis_options \<Rightarrow> 'c \<Rightarrow> 'e option \<times> 'c) \<Rightarrow> 'm minio_sdk \<Rightarrow>
       (tierer_config \<Rightarrow> (('m, 'c) tier_world, dep_error) scanner) \<Rightarrow> go_library \<Rightarrow> env \<Rightarrow>
       'e signal \<Rightarrow> 'e signal list \<Rightarrow> (bool \<times> bool) list \<Rightarrow> (('m, 'c) tier_world, dep_error) scan \<Rightarrow>
       int option \<times> closed_client list \<times> (('m, 'c) tier_world, dep_error) scan" where
  "tierer_main tests DefaultTransport NewMinio ping sdk scanner go lookup first signals rounds st =
     (case ParseLevel (case lookup ''LOG_LEVEL'' of None \<Rightarrow> [] | Some raw \<Rightarrow> raw) of
        Inl _ \<Rightarrow> (Some 2, [], st)
      | Inr level \<Rightarrow>
          (case LoadConfig go lookup of
             Inl err \<Rightarrow> (Some 2, [], st)
           | Inr c \<Rightarrow>
               (case Run_tierer tests DefaultTransport NewMinio ping sdk scanner c first signals rounds st of
                  (exit, closes, _, st1) \<Rightarrow> (tierer_status exit, closes, st1))))"

section \<open>What a process calls\<close>

datatype runtime_call = PingCall | LoadCall | ServeCall | ShutdownCall | StopCall | CloseCall | AwaitCall

text \<open>A runtime that also keeps a log of the operations it was asked for.\<close>

definition logged :: "runtime_call \<Rightarrow> ('w \<Rightarrow> 'r \<times> 'w) \<Rightarrow> 'w \<times> runtime_call list \<Rightarrow> 'r \<times> ('w \<times> runtime_call list)" where
  "logged name f s = (case f (fst s) of (r, w) \<Rightarrow> (r, (w, snd s @ [name])))"

definition logged_runtime :: "('w, 'e) updater_runtime \<Rightarrow> ('w \<times> runtime_call list, 'e) updater_runtime" where
  "logged_runtime rt =
     \<lparr>rt_ping = (\<lambda>options. logged PingCall (rt_ping rt options)), rt_load = logged LoadCall (rt_load rt),
      rt_serve = (\<lambda>http settings. logged ServeCall (rt_serve rt http settings)),
      rt_service = \<lparr>svc_shutdown = logged ShutdownCall (svc_shutdown (rt_service rt)),
        svc_stop = logged StopCall (svc_stop (rt_service rt)), svc_close = logged CloseCall (svc_close (rt_service rt)),
        svc_await = logged AwaitCall (svc_await (rt_service rt))\<rparr>\<rparr>"

lemma logged_calls:
  "rt_ping (logged_runtime rt) options = logged PingCall (rt_ping rt options)"
  "rt_load (logged_runtime rt) = logged LoadCall (rt_load rt)"
  "rt_serve (logged_runtime rt) http settings = logged ServeCall (rt_serve rt http settings)"
  "svc_shutdown (rt_service (logged_runtime rt)) = logged ShutdownCall (svc_shutdown (rt_service rt))"
  "svc_stop (rt_service (logged_runtime rt)) = logged StopCall (svc_stop (rt_service rt))"
  "svc_close (rt_service (logged_runtime rt)) = logged CloseCall (svc_close (rt_service rt))"
  "svc_await (rt_service (logged_runtime rt)) = logged AwaitCall (svc_await (rt_service rt))"
  by (simp_all add: logged_runtime_def)

definition service_calls :: "'e option \<Rightarrow> runtime_call list" where
  "service_calls serveErr = [ShutdownCall, StopCall, CloseCall] @ (if serveErr = None then [AwaitCall] else [])"

lemma runService_logged:
  "runService tests (rt_service (logged_runtime rt)) serveErr (w, log) =
     (case runService tests (rt_service rt) serveErr w of (errs, w1) \<Rightarrow> (errs, (w1, log @ service_calls serveErr)))"
  by (simp add: runService_def logged_calls logged_def service_calls_def Let_def split: prod.splits option.splits)

text \<open>The calls of a run, by how it ends.\<close>

definition run_calls :: "'e updater_failure option \<Rightarrow> runtime_call list \<Rightarrow> bool" where
  "run_calls failure log \<longleftrightarrow>
     (case failure of
        Some AddressNotSplit \<Rightarrow> log = []
      | Some (PingFailed _) \<Rightarrow> log = [PingCall, CloseCall]
      | Some (LoadFailed _) \<Rightarrow> log = [PingCall, LoadCall, CloseCall]
      | _ \<Rightarrow> log = [PingCall, LoadCall, ServeCall, ShutdownCall, StopCall, CloseCall] \<or>
             log = [PingCall, LoadCall, ServeCall, ShutdownCall, StopCall, CloseCall, AwaitCall])"

lemma Run_updater_calls:
  assumes "Run_updater tests (logged_runtime rt) ucfg (w, []) = (failure, risks, (w', log))"
  shows "Run_updater tests rt ucfg w = (failure, risks, w') \<and> run_calls failure log"
  using assms
  by (auto simp: Run_updater_def logged_calls logged_def runService_logged service_calls_def run_calls_def
      split: sum.splits prod.splits option.splits if_splits)

section \<open>Properties\<close>

text \<open>C21: The updater's process gives back what it takes, in order: a process whose log level or configuration is refused
  exits with 2 and touches nothing; any other pings Redis first and closes its client exactly once, right away when
  the ping or the script's load fails, and otherwise after the server has shut down and then the batcher has
  drained; it serves only after the ping and the load succeeded, and exits with 0 only after all of this.\<close>

theorem updater_process_order:
  "case updater_main tests frac (logged_runtime rt) lookup (w, []) of (status, (w', log)) \<Rightarrow>
     updater_main tests frac rt lookup w = (status, w') \<and>
     (if status = 2 then log = [] \<and> w' = w
      else if status = 0
      then log \<in> {[PingCall, LoadCall, ServeCall, ShutdownCall, StopCall, CloseCall],
                  [PingCall, LoadCall, ServeCall, ShutdownCall, StopCall, CloseCall, AwaitCall]}
      else status = 1 \<and>
           log \<in> {[PingCall, CloseCall], [PingCall, LoadCall, CloseCall],
                  [PingCall, LoadCall, ServeCall, ShutdownCall, StopCall, CloseCall],
                  [PingCall, LoadCall, ServeCall, ShutdownCall, StopCall, CloseCall, AwaitCall]})"
proof (cases "\<exists>ucfg level. LoadConfig_updater frac lookup = Inr ucfg \<and>
    ParseLevel (case lookup ''LOG_LEVEL'' of None \<Rightarrow> [] | Some raw \<Rightarrow> raw) = Inr level")
  case False
  then show ?thesis by (auto simp: updater_main_def split: sum.splits)
next
  case True
  then obtain ucfg level where load: "LoadConfig_updater frac lookup = Inr ucfg"
    and level: "ParseLevel (case lookup ''LOG_LEVEL'' of None \<Rightarrow> [] | Some raw \<Rightarrow> raw) = Inr level" by blast
  obtain failure risks w' log where run: "Run_updater tests (logged_runtime rt) ucfg (w, []) = (failure, risks, (w', log))"
    by (metis prod_cases3 prod.collapse)
  have "failure \<noteq> Some AddressNotSplit"
    using run RedisOptions_updater_loaded [OF load] by (auto simp: Run_updater_def split: prod.splits option.splits if_splits)
  with Run_updater_calls [OF run] show ?thesis
    by (cases failure) (auto simp: updater_main_def load level run run_calls_def split: updater_failure.splits)
qed

lemma Run_tierer_served:
  assumes "Run_tierer tests DefaultTransport NewMinio ping sdk scanner c first signals rounds st = (exit, closes, failures, st1)"
    and "trace st1 \<noteq> trace st"
  obtains options names st0 where "RedisOptions_tierer c = Inr options"
    and "fst (ping options (w_conn (world st))) = None" and "fst (Buckets sdk (w_minio (world st))) = Inr names"
    and "trace st0 = trace st" and "st1 = snd (Run (scanner c) rounds st0)"
proof -
  obtain options transport where "RedisOptions_tierer c = Inr options" "MinIOTransport DefaultTransport c = Inr transport"
    "NewMinio (T_MinIOEndpoint c) (minio_settings c transport) = None"
    using assms by (auto simp: Run_tierer_def split: sum.splits option.splits)
  moreover obtain err fs conn' m' where ready: "Ready (ping options) sdk (w_conn (world st)) (w_minio (world st)) = (err, fs, conn', m')"
    by (metis prod_cases4)
  ultimately have "err = None" "st1 = snd (Run (scanner c) rounds (st\<lparr>world := (world st)\<lparr>w_conn := conn', w_minio := m'\<rparr>\<rparr>))"
    using assms by (auto simp: Run_tierer_def Let_def split: option.splits)
  moreover obtain names where "fst (ping options (w_conn (world st))) = None" "fst (Buckets sdk (w_minio (world st))) = Inr names"
    using ready \<open>err = None\<close> by (auto simp: Ready_def split: prod.splits option.splits sum.splits)
  ultimately show ?thesis
    using that [of options names "st\<lparr>world := (world st)\<lparr>w_conn := conn', w_minio := m'\<rparr>\<rparr>"] \<open>RedisOptions_tierer c = Inr options\<close>
    by simp
qed


definition cold_start :: "((mem_objects, mem_state tierer_conn) tier_world, dep_error) scan" where
  "cold_start = \<lparr>world = \<lparr>w_minio = \<lparr>mo_listing = [(''b'', cold_info ''o'')], mo_tags = (\<lambda>_. [])\<rparr>,
     w_conn = \<lparr>t_server = mem_empty 5, t_faults = []\<rparr>, w_tick = 0\<rparr>, trace = []\<rparr>"

definition small_env :: env where
  "small_env = demo_env(''TIERER_MODE'' \<mapsto> ''apply'', ''TIERER_APPLY'' \<mapsto> ''true'',
     ''TIERER_LOW_WINDOW_HOURS'' \<mapsto> ''2'', ''TIERER_HIGH_WINDOW_HOURS'' \<mapsto> ''1'')"

definition loaded_config :: tierer_config where
  "loaded_config = \<lparr>T_InstanceID = ''prod'', T_AccessRetention = 72 * Hour, T_Apply = True,
     T_Policy = \<lparr>LowThreshold = 2, LowWindowHours = 2, HighThreshold = 10, HighWindowHours = 1, HighIncludeCurrent = False\<rparr>,
     T_RestoreDays = 3, T_CoverageTemplate = [], T_CoverageValue = [], T_CoverageEnabled = False, T_MarkerKey = ''tier'',
     T_MarkerValue = ''cold'', T_RedisAddress = ''127.0.0.1:6379'', T_RedisUsername = [], T_RedisPassword = [],
     T_RedisDB = 0, T_RedisTLS = False, T_RedisOperationTimeout = 5 * Second, T_MinIOEndpoint = ''minio:9000'',
     T_MinIOAccessKey = ''a'', T_MinIOSecretKey = ''s'', T_MinIOSecure = True, T_MinIORegion = [], T_MinIOOperationTimeout = 30 * Second, T_TransitionBudget = \<lparr>Attempts = 0, Bytes = 0\<rparr>,
     T_RestoreBudget = \<lparr>Attempts = 0, Bytes = 0\<rparr>, T_ExcludedBuckets = [''logs'', ''tmp''], T_ExcludedPrefixes = [], T_ChunkSize = 100,
     T_CompletionDelay = 300 * Second, T_RetryDelay = 30 * Second, T_ListenAddress = '':8081'', T_ShutdownTimeout = 30 * Second\<rparr>"

lemma small_env_loads: "LoadConfig demo_go small_env = Inr loaded_config"
  by (simp add: LoadConfig_def apply_env_def small_env_def loaded_config_def config_eval)

definition plain_tests :: "string error_tests" where
  "plain_tests = \<lparr>closed = (\<lambda>e. e = ''closed''), canceled = (\<lambda>e. e = ''canceled'')\<rparr>"

definition demo_run ::
    "tierer_config \<Rightarrow> string tierer_exit \<times> closed_client list \<times> string list \<times>
       ((mem_objects, mem_state tierer_conn) tier_world, dep_error) scan" where
  "demo_run c = Run_tierer plain_tests (\<lambda>secure. Inr zero_transport) (\<lambda>endpoint options. None) (\<lambda>options c. (None, c)) mem_minio
     (tierer_scanner mem_minio (format_layout demo_go) demo_codec (lua_commands mem_redis mem_keyspace) demo_environment demo_digest)
     c ContextDone [WorkerDone (Some ''canceled''), ServerDone (Some ''closed''), ShutdownDone None] [(True, True)] cold_start"

lemma demo_run_marks: "list_ex mutates (trace (snd (snd (snd (demo_run loaded_config)))))"
  by code_simp

definition demo_process ::
    "env \<Rightarrow> int option \<times> closed_client list \<times> ((mem_objects, mem_state tierer_conn) tier_world, dep_error) scan" where
  "demo_process lookup = tierer_main plain_tests (\<lambda>secure. Inr zero_transport) (\<lambda>endpoint options. None) (\<lambda>options c. (None, c)) mem_minio
     (tierer_scanner mem_minio (format_layout demo_go) demo_codec (lua_commands mem_redis mem_keyspace) demo_environment demo_digest)
     demo_go lookup ContextDone [WorkerDone (Some ''canceled''), ServerDone (Some ''closed''), ShutdownDone None] [(True, True)] cold_start"

lemma demo_process_marks: "list_ex mutates (trace (snd (snd (demo_process small_env))))"
proof -
  have "small_env ''LOG_LEVEL'' = None" by (simp add: small_env_def demo_env_def)
  then have "demo_process small_env = (case demo_run loaded_config of (exit, closes, _, st1) \<Rightarrow> (tierer_status exit, closes, st1))"
    by (simp add: demo_process_def tierer_main_def small_env_loads demo_run_def ParseLevel_def)
  with demo_run_marks show ?thesis by (simp split: prod.splits)
qed


end
