(* ===== verification/Http_Routes.thy ===== *)
theory Http_Routes
  imports Ingest Lifecycle
begin

text \<open>
  The multiplexers of the two HTTP servers: \<open>NewHTTPHandler\<close> of \<^verbatim>\<open>internal/updater/http.go\<close> and of
  \<^verbatim>\<open>internal/tierer/service.go\<close>. A path is a clean one; \<^verbatim>\<open>http.ServeMux\<close> redirects every other to its
  clean form before it looks for a pattern. The page of \<^verbatim>\<open>/metrics\<close> belongs to the Prometheus library.
\<close>

section \<open>Patterns\<close>

datatype endpoint = IngestEndpoint | LivezEndpoint | ReadyzEndpoint | MetricsEndpoint | MethodNotAllowed | NotFound

text \<open>
  A pattern of \<^verbatim>\<open>ServeMux\<close>: its method, the one path it matches, its handler; \<^verbatim>\<open>/{$}\<close> is the path \<^verbatim>\<open>/\<close>. A pattern
  for \<^verbatim>\<open>GET\<close> serves \<^verbatim>\<open>HEAD\<close> too. A path that is known under other methods only gives 405.
\<close>

definition method_matches :: "string \<Rightarrow> string \<Rightarrow> bool" where
  "method_matches pattern m \<longleftrightarrow> pattern = m \<or> (pattern = ''GET'' \<and> m = ''HEAD'')"

definition mux :: "(string \<times> string \<times> endpoint) list \<Rightarrow> string \<Rightarrow> string \<Rightarrow> endpoint" where
  "mux patterns m path =
     (case find (\<lambda>(pm, pp, e). pp = path \<and> method_matches pm m) patterns of
        Some (_, _, e) \<Rightarrow> e
      | None \<Rightarrow> if list_ex (\<lambda>(pm, pp, e). pp = path) patterns then MethodNotAllowed else NotFound)"

definition updater_patterns :: "(string \<times> string \<times> endpoint) list" where
  "updater_patterns =
     [(''POST'', ''/'', IngestEndpoint), (''GET'', ''/livez'', LivezEndpoint), (''GET'', ''/readyz'', ReadyzEndpoint),
      (''GET'', ''/metrics'', MetricsEndpoint)]"

definition tierer_patterns :: "(string \<times> string \<times> endpoint) list" where
  "tierer_patterns =
     [(''GET'', ''/livez'', LivezEndpoint), (''GET'', ''/readyz'', ReadyzEndpoint), (''GET'', ''/metrics'', MetricsEndpoint)]"

section \<open>The handlers\<close>

text \<open>The state is the batcher \<open>b\<close> and the connection \<open>c\<close> of the health check.\<close>

definition updater_handler ::
    "updater_config \<Rightarrow> (increment list \<Rightarrow> increment list) \<Rightarrow> (apply_error \<Rightarrow> bool) \<Rightarrow>
       (batch_request \<Rightarrow> 'b batcher \<Rightarrow> submit_error option \<times> 'b batcher) \<Rightarrow> ('c \<Rightarrow> 'e option \<times> 'c) \<Rightarrow>
       string \<Rightarrow> string \<Rightarrow> string \<Rightarrow> (string \<times> bool) list \<Rightarrow> time \<Rightarrow> 'b batcher \<Rightarrow> 'c \<Rightarrow> answer \<times> 'b batcher \<times> 'c" where
  "updater_handler ucfg order is_context submit ping m path contentType body acceptedAt b c =
     (case mux updater_patterns m path of
        IngestEndpoint \<Rightarrow>
          (case ingest ucfg order is_context submit contentType body acceptedAt b of (ans, b1) \<Rightarrow> (ans, b1, c))
      | LivezEndpoint \<Rightarrow> (liveness, b, c)
      | ReadyzEndpoint \<Rightarrow> (case readiness ping b c of (ans, c1) \<Rightarrow> (ans, b, c1))
      | MetricsEndpoint \<Rightarrow> ((200, []), b, c)
      | MethodNotAllowed \<Rightarrow> ((405, []), b, c)
      | NotFound \<Rightarrow> ((404, []), b, c))"

text \<open>The tierer's status and body; the body of a page of the library is left out.\<close>

definition tierer_handler ::
    "('c \<Rightarrow> 'e option \<times> 'c) \<Rightarrow> 'm minio_sdk \<Rightarrow> string \<Rightarrow> string \<Rightarrow> 'c \<Rightarrow> 'm \<Rightarrow> int \<times> string option" where
  "tierer_handler ping sdk m path c minio =
     (case mux tierer_patterns m path of
        LivezEndpoint \<Rightarrow> (200, Some (''ok'' @ [CHR 0x0A]))
      | ReadyzEndpoint \<Rightarrow> apsnd Some (readyz ping sdk c minio)
      | MetricsEndpoint \<Rightarrow> (200, None)
      | MethodNotAllowed \<Rightarrow> (405, None)
      | _ \<Rightarrow> (404, None))"

section \<open>What a request can do\<close>

lemma mux_ingest: "mux updater_patterns m path = IngestEndpoint \<longleftrightarrow> m = ''POST'' \<and> path = ''/''"
  by (auto simp: mux_def updater_patterns_def method_matches_def)

lemma mux_probes:
  "mux tierer_patterns m ''/livez'' = (if m = ''GET'' \<or> m = ''HEAD'' then LivezEndpoint else MethodNotAllowed)"
  "mux tierer_patterns m ''/readyz'' = (if m = ''GET'' \<or> m = ''HEAD'' then ReadyzEndpoint else MethodNotAllowed)"
  by (auto simp: mux_def tierer_patterns_def method_matches_def)

lemma mux_updater:
  "mux updater_patterns m path = ReadyzEndpoint \<longleftrightarrow> path = ''/readyz'' \<and> (m = ''GET'' \<or> m = ''HEAD'')"
  "mux updater_patterns m path = LivezEndpoint \<longleftrightarrow> path = ''/livez'' \<and> (m = ''GET'' \<or> m = ''HEAD'')"
  by (auto simp: mux_def updater_patterns_def method_matches_def)

text \<open>Nothing but a POST to the root counts an access: for every method, path, content type and body, the updater's server
  answers any other request without touching the batcher and without counting a request or a rejection, pings Redis only for a
  readiness check of a batcher that is ready, and never calls itself ready when the batcher is not; liveness depends on nothing.\<close>

theorem only_post_counts:
  "let (ans, b', c') = updater_handler ucfg order is_context submit ping m path contentType body t b c
   in if m = ''POST'' \<and> path = ''/''
      then (ans, b') = ingest ucfg order is_context submit contentType body t b \<and> c' = c
      else b' = b \<and> set (snd ans) \<subseteq> {RedisFailureSeen} \<and>
           (if path = ''/readyz'' \<and> (m = ''GET'' \<or> m = ''HEAD'')
            then (if ready b then fst ans = (if fst (ping c) = None then 200 else 503) \<and> c' = snd (ping c)
                  else fst ans = 503 \<and> c' = c)
            else c' = c \<and> snd ans = [] \<and> (if path = ''/livez'' \<and> (m = ''GET'' \<or> m = ''HEAD'') then fst ans = 200 else True))"
proof -
  have other: ?thesis if "updater_handler ucfg order is_context submit ping m path contentType body t b c = ((k, []), b, c)"
    and e: "mux updater_patterns m path \<noteq> IngestEndpoint" "mux updater_patterns m path \<noteq> ReadyzEndpoint"
      "mux updater_patterns m path \<noteq> LivezEndpoint" for k
    unfolding that(1) Let_def prod.case if_not_P [OF e(1) [unfolded mux_ingest]] if_not_P [OF e(2) [unfolded mux_updater]]
      if_not_P [OF e(3) [unfolded mux_updater]] by simp
  show ?thesis
  proof (cases "mux updater_patterns m path")
    case IngestEndpoint
    then show ?thesis using mux_ingest [of m path] by (simp add: updater_handler_def split: prod.splits)
  next
    case ReadyzEndpoint
    then show ?thesis using mux_updater(1) [of m path]
      by (auto simp: updater_handler_def readiness_def split: prod.splits option.splits)
  next
    case LivezEndpoint
    then show ?thesis using mux_updater(2) [of m path] by (auto simp: updater_handler_def liveness_def)
  qed (use other [of 200] other [of 404] other [of 405] in \<open>simp_all add: updater_handler_def\<close>)
qed

text \<open>The tierer is live as long as it answers, and ready exactly when both dependencies answered.\<close>

lemma tierer_probes:
  "fst (tierer_handler ping sdk ''GET'' ''/livez'' c minio) = 200"
  "fst (tierer_handler ping sdk ''GET'' ''/readyz'' c minio) = (if fst (Ready ping sdk c minio) = None then 200 else 503)"
  by (simp_all add: tierer_handler_def mux_probes readyz_def)

end
