(* ===== verification/Accounting.thy ===== *)
theory Accounting
  imports Ingest Tierer_Usage "HOL-Library.Code_Target_Nat"
begin

text \<open>
  The two services together: what the updater acknowledges is what the tierer reads. Requests arrive
  at \<open>ingest\<close>, which hands the batcher one job each; the batcher adds them to the counters in Redis;
  a chunk's read of the tierer on the same server finds them under the same keys.
\<close>

section \<open>Arrivals\<close>

record arrival =
  A_type :: string
  A_body :: "(string \<times> bool) list"
  A_time :: time

definition accesses_of :: "updater_config \<Rightarrow> arrival \<Rightarrow> access list" where
  "accesses_of config a =
     (case DecodeRequest (A_body a) (A_type a) (request_limits config) of Inl _ \<Rightarrow> [] | Inr records \<Rightarrow> records)"

text \<open>The job of an arrival is what \<open>ingest\<close> made of it.\<close>

definition ingested :: "updater_config \<Rightarrow> (increment list \<Rightarrow> increment list) \<Rightarrow> arrival \<Rightarrow> batch_job \<Rightarrow> bool" where
  "ingested config order a job \<longleftrightarrow> ingest_request config order (A_type a) (A_body a) (A_time a) = Inr (request job)"

definition arrival_in_time :: "updater_config \<Rightarrow> int \<Rightarrow> arrival \<Rightarrow> bool" where
  "arrival_in_time config now a \<longleftrightarrow> 0 \<le> A_time a \<and> now \<le> unix (A_time a) \<and>
     unix (CounterExpiry (A_time a) (U_AccessRetention config)) \<le> int max_expiry"

text \<open>The accesses to one object in one hour among the requests whose answer satisfies \<open>P\<close>.\<close>

definition reported ::
    "updater_config \<Rightarrow> (batch_error option \<Rightarrow> bool) \<Rightarrow> (nat \<Rightarrow> arrival) \<Rightarrow> 'c batcher \<Rightarrow> object \<Rightarrow> time \<Rightarrow> nat" where
  "reported config P arrivals b obj h =
     (\<Sum>j\<leftarrow>filter (\<lambda>j. list_ex (\<lambda>(i, r). i = job_id j \<and> P r) (results b)) (accepted b).
        if hour_slot (A_time (arrivals (job_id j))) = hour_slot h
        then length (filter (\<lambda>rec. BucketName rec = Bucket obj \<and> ObjectName rec = Name obj)
               (accesses_of config (arrivals (job_id j))))
        else 0)"

lemma access_total_object:
  assumes "AccessKey inst (Bucket obj) (Name obj) h = Inr k"
  shows "access_total inst t recs k =
    (if hour_slot t = hour_slot h
     then length (filter (\<lambda>rec. BucketName rec = Bucket obj \<and> ObjectName rec = Name obj) recs) else 0)"
proof -
  have "AccessKey inst (BucketName rec) (ObjectName rec) t = Inr k \<longleftrightarrow>
      BucketName rec = Bucket obj \<and> ObjectName rec = Name obj \<and> hour_slot t = hour_slot h" for rec :: access
    using assms AccessKey_fields_inject [OF assms, of inst "BucketName rec" "ObjectName rec" t]
      AccessKey_same_hour [of t h] by metis
  then show ?thesis by (simp add: access_total_def)
qed

section \<open>The jobs of arrivals\<close>

lemma ingested_job:
  assumes "valid_updater config" and "\<forall>incs. mset (order incs) = mset incs" and "0 \<le> A_time a"
    and "ingested config order a job"
  shows "exact_request (request job)"
    and "delta_of (Increments (request job)) k = access_total (U_InstanceID config) (A_time a) (accesses_of config a) k"
    and "i \<in> set (Increments (request job)) \<Longrightarrow> ExpireAt i = CounterExpiry (A_time a) (U_AccessRetention config)"
    and "rec \<in> set (accesses_of config a) \<Longrightarrow> BucketName rec \<noteq> [] \<and> ObjectName rec \<noteq> []"
proof -
  obtain records where recs: "DecodeRequest (A_body a) (A_type a) (request_limits config) = Inr records"
    using assms(4) by (auto simp: ingested_def ingest_request_def split: sum.splits)
  from ingest_request_built [OF assms(1-3) recs] assms(4)
  show "exact_request (request job)"
    "delta_of (Increments (request job)) k = access_total (U_InstanceID config) (A_time a) (accesses_of config a) k"
    "i \<in> set (Increments (request job)) \<Longrightarrow> ExpireAt i = CounterExpiry (A_time a) (U_AccessRetention config)"
    by (simp_all add: ingested_def accesses_of_def recs)
  show "rec \<in> set (accesses_of config a) \<Longrightarrow> BucketName rec \<noteq> [] \<and> ObjectName rec \<noteq> []"
    using DecodeRequest_Inr(3) [OF recs] by (simp add: accesses_of_def recs)
qed

lemma unix_expiry:
  assumes "valid_updater config"
  shows "unix t < unix (CounterExpiry t (U_AccessRetention config))"
proof -
  have "U_AccessRetention config mod Second = 0" "0 < U_AccessRetention config"
    using assms by (auto simp: valid_updater_def ValidateCounterRetention_def positive_duration_def split: if_splits)
  then have "Second \<le> U_AccessRetention config" by (simp add: zmod_le_nonneg_dividend zdvd_imp_le mod_0_imp_dvd)
  then have "t + Second \<le> CounterExpiry t (U_AccessRetention config)"
    using truncate_hour_gt [of t] by (simp add: CounterExpiry_def)
  then have "(t + Second) div Second \<le> unix (CounterExpiry t (U_AccessRetention config))"
    unfolding unix_def by (intro zdiv_mono1) (simp_all add: Second_def)
  then show ?thesis by (simp add: unix_def Second_def)
qed

lemma sum_list_zero: "(\<And>x. x \<in> set xs \<Longrightarrow> f x = (0 :: nat)) \<Longrightarrow> (\<Sum>x\<leftarrow>xs. f x) = 0"
  by (induction xs) auto

text \<open>The counters of a run, in terms of the arrivals.\<close>

lemma counters_match_arrivals:
  assumes "redis_server redis val expiry clock" and "valid_updater config"
    and order: "\<forall>incs. mset (order incs) = mset incs"
    and "reachable (Apply (lua_client redis)) (batcher_settings config) c b"
    and jobs: "\<forall>job\<in>set (accepted b). arrival_in_time config (clock (server (conn c))) (arrivals (job_id job)) \<and>
      ingested config order (arrivals (job_id job)) job"
  shows "access_count val (server (conn c)) (U_InstanceID config) obj h + reported config acknowledged_answer arrivals b obj h
      \<le> access_count val (server (conn (backend b))) (U_InstanceID config) obj h \<and>
    access_count val (server (conn (backend b))) (U_InstanceID config) obj h
      \<le> access_count val (server (conn c)) (U_InstanceID config) obj h
        + reported config acknowledged_answer arrivals b obj h + reported config uncertain_answer arrivals b obj h"
proof -
  note job = ingested_job [OF assms(2) order]
  have good: "0 \<le> A_time (arrivals (job_id j))" "ingested config order (arrivals (job_id j)) j" if "j \<in> set (accepted b)" for j
    using jobs that by (auto simp: arrival_in_time_def)
  have ok: "config_ok (batcher_settings config)"
    using assms(2) by (simp add: config_ok_def batcher_settings_def valid_updater_def)
  have exact: "jobs_exact (accepted b)" using job(1) good by (auto simp: jobs_exact_def)
  have time: "jobs_in_time (conn_in_time clock c) (set (accepted b))"
  proof -
    have "conn_in_time clock c (ExpireAt i)" if "j \<in> set (accepted b)" "i \<in> set (Increments (request j))" for j i
    proof -
      let ?t = "A_time (arrivals (job_id j))"
      have "ExpireAt i = CounterExpiry ?t (U_AccessRetention config)" using job(3) [OF good [OF that(1)] that(2)] .
      moreover have "clock (server (conn c)) \<le> unix ?t" "unix (CounterExpiry ?t (U_AccessRetention config)) \<le> int max_expiry"
        using jobs that(1) by (auto simp: arrival_in_time_def)
      ultimately show ?thesis using unix_expiry [OF assms(2), of ?t] by (simp add: conn_in_time_def)
    qed
    then show ?thesis by (auto simp: jobs_in_time_def)
  qed
  show ?thesis
  proof (cases "AccessKey (U_InstanceID config) (Bucket obj) (Name obj) h")
    case (Inr k)
    have "delta_of (Increments (request j)) k =
        (if hour_slot (A_time (arrivals (job_id j))) = hour_slot h
         then length (filter (\<lambda>rec. BucketName rec = Bucket obj \<and> ObjectName rec = Name obj)
                (accesses_of config (arrivals (job_id j))))
         else 0)" if "j \<in> set (accepted b)" for j
      using job(2) [OF good [OF that]] access_total_object [OF Inr] by simp
    then have "requested P b k = reported config P arrivals b obj h" for P
      unfolding requested_def reported_def by (intro arg_cong [where f = sum_list] map_cong) auto
    then show ?thesis
      using redis_server.conn_requested [OF assms(1,4) ok exact time, of k]
      by (simp add: access_count_def Inr conn_counter_def)
  next
    case (Inl err)
    have "ValidateInstanceID (U_InstanceID config) = Inr ()" using assms(2) by (simp add: valid_updater_def)
    then have "Bucket obj = [] \<or> Name obj = []"
      using AccessKey_total [of "U_InstanceID config" "Bucket obj" "Name obj" h] Inl by auto
    then have none: "length (filter (\<lambda>rec. BucketName rec = Bucket obj \<and> ObjectName rec = Name obj)
        (accesses_of config (arrivals (job_id j)))) = 0" if "j \<in> set (accepted b)" for j
      using job(4) [OF good [OF that]] by (auto simp: filter_empty_conv)
    have "reported config P arrivals b obj h = 0" for P
      unfolding reported_def
    proof (rule sum_list_zero)
      fix j
      assume "j \<in> set (filter (\<lambda>j. list_ex (\<lambda>(i, r). i = job_id j \<and> P r) (results b)) (accepted b))"
      then show "(if hour_slot (A_time (arrivals (job_id j))) = hour_slot h
          then length (filter (\<lambda>rec. BucketName rec = Bucket obj \<and> ObjectName rec = Name obj)
                 (accesses_of config (arrivals (job_id j)))) else 0) = 0"
        using none [of j] by (simp only: set_filter mem_Collect_eq if_cancel split: if_split)
    qed
    then show ?thesis by (simp add: access_count_def Inl)
  qed
qed

section \<open>Property\<close>

text \<open>C3: What the updater acknowledges is what the tierer reads. Take any run of the batcher over a Redis
  server, whatever connections break, fed by the updater's handler under a configuration that
  loads, and a chunk's read by a tierer of the same instance on the server it leaves: for every object
  of the chunk and every hour of the low window, the count read is at least what the counter held
  before plus the accesses to this object in this hour in the requests answered with success, and at
  most that plus those in the requests answered with an ambiguous store failure.\<close>

theorem tierer_reads_acknowledged:
  assumes "redis_server redis val expiry clock"
    and "LoadConfig_updater frac lookup = Inr config"
    and "\<forall>incs. mset (order incs) = mset incs"
    and "reachable (Apply (lua_client redis)) (batcher_settings config) c b"
    and "\<forall>job\<in>set (accepted b). arrival_in_time config (clock (server (conn c))) (arrivals (job_id job)) \<and>
      ingested config order (arrivals (job_id job)) job"
    and "ReadChunk fmt (lua_commands redis ks) st tc objects lows highs = (Inr (usage, cov), tc')"
    and "t_server tc = server (conn (backend b))" and "instance_id st = U_InstanceID config"
    and "i < length objects" and "j < length lows"
  shows "int (access_count val (server (conn c)) (U_InstanceID config) (objects ! i) (lows ! j)
        + reported config acknowledged_answer arrivals b (objects ! i) (lows ! j)) \<le> UsageLow (usage ! i) ! j \<and>
    UsageLow (usage ! i) ! j \<le> int (access_count val (server (conn c)) (U_InstanceID config) (objects ! i) (lows ! j)
        + reported config acknowledged_answer arrivals b (objects ! i) (lows ! j)
        + reported config uncertain_answer arrivals b (objects ! i) (lows ! j))"
proof -
  have "UsageLow (usage ! i) ! j = int (access_count val (server (conn (backend b))) (U_InstanceID config) (objects ! i) (lows ! j))"
    using redis_server.ReadChunk_counts [OF assms(1,6)] assms(7-10) by (auto split: sum.splits)
  then show ?thesis
    using counters_match_arrivals [OF assms(1) LoadConfig_updater_valid [OF assms(2)] assms(3-5), of "objects ! i" "lows ! j"]
    by simp
qed

text \<open>Three accesses in one request, counted and read.\<close>

definition live_env :: env where
  "live_env = map_of [(''INSTANCE_ID'', ''prod''), (''ACCESS_RETENTION'', ''1s'')]"

definition live_config :: updater_config where
  "live_config = \<lparr>U_InstanceID = ''prod'', U_AccessRetention = Second, U_ListenAddress = '':8080'',
     U_RedisAddress = ''127.0.0.1:6379'', U_RedisUsername = [], U_RedisPassword = [], U_RedisDB = 0, U_RedisTLS = False,
     U_SuccessStatus = 200, U_FailureStatus = 500, U_DataLossRisk = False, U_DuplicateRisk = False,
     U_MaxBodyBytes = 1048576, U_MaxRecords = 1000, U_QueueSize = 128, U_BatchMaxEvents = 5000, U_BatchMaxKeys = 5000,
     U_BatchMaxWait = 50000000, U_RedisOperationTimeout = 5 * Second, U_ShutdownTimeout = 30 * Second,
     U_ReadHeaderTimeout = 5 * Second, U_ReadTimeout = 15 * Second,
     U_WriteTimeout = 667450000000, U_IdleTimeout = 60 * Second, U_MaxHeaderBytes = 1048576\<rparr>"

lemma live_loads: "LoadConfig_updater (\<lambda>f scale unit. f * unit div scale) live_env = Inr live_config"
  by (simp add: LoadConfig_updater_def updater_eval live_env_def live_config_def)

definition live_arrival :: arrival where
  "live_arrival = \<lparr>A_type = ''application/x-ndjson'', A_body = demo_reads, A_time = 10 * Second\<rparr>"

definition live_job :: batch_job where
  "live_job = \<lparr>job_id = 0, request =
     \<lparr>Events = 3, Increments =
       [\<lparr>Key = ''cwm-minio-tierer:v1:prod:access:1970:01:01:00:Yg:bw'', Delta = 2, ExpireAt = 3601 * Second\<rparr>,
        \<lparr>Key = ''cwm-minio-tierer:v1:prod:access:1970:01:01:00:Yg:cA'', Delta = 1, ExpireAt = 3601 * Second\<rparr>]\<rparr>\<rparr>"

lemma live_keys: "AccessKey ''prod'' ''b'' ''o'' (10 * Second) = Inr ''cwm-minio-tierer:v1:prod:access:1970:01:01:00:Yg:bw''"
  "AccessKey ''prod'' ''b'' ''p'' (10 * Second) = Inr ''cwm-minio-tierer:v1:prod:access:1970:01:01:00:Yg:cA''"
 by code_simp+

lemma live_ingested: "ingested live_config (\<lambda>incs. incs) live_arrival live_job"
proof -
  have "request_limits live_config = \<lparr>MaxBodyBytes = 1048576, MaxRecords = 1000\<rparr>" by (simp add: request_limits_def live_config_def)
  moreover have "validateContentType ''application/x-ndjson'' = Inr ''application/x-ndjson''" by code_simp
  moreover have "CounterExpiry (10 * Second) Second = 3601 * Second" by code_simp
  ultimately show ?thesis
    using demo_reads_decode live_keys
    by (simp add: ingested_def ingest_request_def live_arrival_def live_job_def live_config_def 
       count_access_def zero_increment_def wrap64_mod Let_def)
qed

definition live_run :: "mem_state lua_conn store batcher" where
  "live_run = flush_pending (Apply (lua_client mem_redis)) (run_handle (Apply (lua_client mem_redis)) (batcher_settings live_config) live_job
     (receive LoopGot (snd (Submit (batcher_settings live_config) live_job (Start (NewBatcher one_store))))))"

lemma live_run_reachable:
  "reachable (Apply (lua_client mem_redis)) (batcher_settings live_config) one_store live_run"
proof -
  let ?sa = "Apply (lua_client mem_redis)" and ?cfg = "batcher_settings live_config"
  let ?b1 = "Start (NewBatcher one_store)"
  let ?b2 = "snd (Submit ?cfg live_job ?b1)"
  let ?b3 = "receive LoopGot ?b2"
  let ?b4 = "run_handle ?sa ?cfg live_job ?b3"
  have "reachable ?sa ?cfg one_store ?b1" by (rule reachable.step [OF reachable.init batcher_step.start])
  moreover have "job_id live_job \<notin> job_id ` set (accepted ?b1)" by code_simp
  ultimately have "reachable ?sa ?cfg one_store ?b2" by (blast intro: reachable.step batcher_step.submit)
  moreover have "pc ?b2 = Looping" "queue ?b2 = [live_job]" by code_simp+
  ultimately have "reachable ?sa ?cfg one_store ?b3"
    by (auto intro!: reachable.step [OF _ batcher_step.go [OF goroutine_step.run_receive]])
  moreover have "pc ?b3 = LoopGot live_job" by code_simp
  ultimately have "reachable ?sa ?cfg one_store ?b4"
    by (blast intro: reachable.step batcher_step.go goroutine_step.run_handle)
  moreover have "pc ?b4 = Looping" by (simp add: run_handle_def)
  moreover have "\<not> Option.is_none (pending ?b4)" by code_simp
  then have "pending ?b4 \<noteq> None" by (simp add: Option.is_none_def split: option.splits)
  ultimately show ?thesis
    unfolding live_run_def by (intro reachable.step [OF _ batcher_step.go [OF goroutine_step.run_timer]])
qed

lemma live_answers: "accepted live_run = [live_job]" "results live_run = [(0, None)]"
  by code_simp+

lemma live_reported:
  assumes "Bucket obj = ''b''" and "Name obj = ''o''"
  shows "reported live_config acknowledged_answer (\<lambda>_. live_arrival) live_run obj 0 = 2"
proof -
  have "accesses_of live_config live_arrival =
      [\<lparr>BucketName = ''b'', ObjectName = ''o''\<rparr>, \<lparr>BucketName = ''b'', ObjectName = ''p''\<rparr>, \<lparr>BucketName = ''b'', ObjectName = ''o''\<rparr>]"
    using demo_reads_decode by (simp add: accesses_of_def live_arrival_def request_limits_def live_config_def)
  then show ?thesis
    using assms by (simp add: reported_def live_answers acknowledged_answer_def live_job_def live_arrival_def hour_slot_def
        Hour_def Second_def)
qed

lemma live_jobs:
  "\<forall>job\<in>set (accepted live_run).
     arrival_in_time live_config (mem_clock (server (conn one_store))) ((\<lambda>_. live_arrival) (job_id job)) \<and>
     ingested live_config (\<lambda>incs. incs) ((\<lambda>_. live_arrival) (job_id job)) job"
proof -
  have "arrival_in_time live_config (mem_clock (server (conn one_store))) live_arrival" by code_simp
  then show ?thesis using live_ingested by (simp add: live_answers)
qed

theorem tierer_reads_acknowledged_witness:
  "\<exists>usage cov tc'. ReadChunk (\<lambda>_ _. []) (lua_commands mem_redis mem_keyspace) demo_store
       \<lparr>t_server = server (conn (backend live_run)), t_faults = []\<rparr> [plain_object ''b'' ''o''] [0] [0] = (Inr (usage, cov), tc') \<and>
     int (reported live_config acknowledged_answer (\<lambda>_. live_arrival) live_run (plain_object ''b'' ''o'') 0) \<le> UsageLow (usage ! 0) ! 0 \<and>
     reported live_config acknowledged_answer (\<lambda>_. live_arrival) live_run (plain_object ''b'' ''o'') 0 = 2"
proof -
  let ?run = "ReadChunk (\<lambda>_ _. []) (lua_commands mem_redis mem_keyspace) demo_store
     \<lparr>t_server = server (conn (backend live_run)), t_faults = []\<rparr> [plain_object ''b'' ''o''] [0] [0]"
  obtain res tc' where run: "?run = (res, tc')" by fastforce
  have "case fst ?run of Inl _ \<Rightarrow> False | Inr _ \<Rightarrow> True" by code_simp
  then obtain usage cov where res: "res = Inr (usage, cov)" using run by (cases res) auto
  have inst: "instance_id demo_store = U_InstanceID live_config" by code_simp
  have order: "\<forall>incs. mset ((\<lambda>incs. incs) incs) = mset (incs :: increment list)" by simp
  have read: "?run = (Inr (usage, cov), tc')" using run res by simp
  have "int (reported live_config acknowledged_answer (\<lambda>_. live_arrival) live_run (plain_object ''b'' ''o'') 0) \<le> UsageLow (usage ! 0) ! 0"
    using tierer_reads_acknowledged [OF mem.redis_server_axioms live_loads order live_run_reachable live_jobs read _ inst, of 0 0]
    by simp
  moreover have "reported live_config acknowledged_answer (\<lambda>_. live_arrival) live_run (plain_object ''b'' ''o'') 0 = 2"
    by (rule live_reported) (simp_all add: plain_object_def)
  ultimately show ?thesis using run res by auto
qed

end
