(* ===== verification/Http_Service.thy ===== *)
theory Http_Service
  imports Accounting
begin

text \<open>
  The updater as its clients see it: requests arrive at any time, each handler runs \<open>ingest\<close> up to \<^verbatim>\<open>Submit\<close>,
  waits there for its answer or gives up when its context ends, and replies; the batcher's goroutine, its
  start, its stop and the cancellation come in between in any order. From this what a status tells the
  client of the counters in Redis.
\<close>

section \<open>The service\<close>

text \<open>A request's number is its place among those that arrived; \<open>waiting\<close> are the handlers inside \<^verbatim>\<open>Submit\<close>.\<close>

record 'c updater_service =
  arrived :: "arrival list"
  the_batcher :: "'c batcher"
  waiting :: "nat list"
  replies :: "(nat \<times> answer) list"

definition new_service :: "'c \<Rightarrow> 'c updater_service" where
  "new_service c = \<lparr>arrived = [], the_batcher = NewBatcher c, waiting = [], replies = []\<rparr>"

text \<open>What the handler makes of a request, and of the outcome of its \<^verbatim>\<open>Submit\<close>.\<close>

definition built :: "updater_config \<Rightarrow> (increment list \<Rightarrow> increment list) \<Rightarrow> arrival \<Rightarrow> answer + batch_request" where
  "built config order a = ingest_request config order (A_type a) (A_body a) (A_time a)"

definition outcome_answer ::
    "updater_config \<Rightarrow> (increment list \<Rightarrow> increment list) \<Rightarrow> (apply_error \<Rightarrow> bool) \<Rightarrow> arrival \<Rightarrow> submit_error option \<Rightarrow> answer" where
  "outcome_answer config order is_context a outcome =
     fst (ingest config order is_context (\<lambda>req w. (outcome, w)) (A_type a) (A_body a) (A_time a) ())"

definition reply :: "nat \<Rightarrow> answer \<Rightarrow> 'c updater_service \<Rightarrow> 'c updater_service" where
  "reply i ans s = s\<lparr>waiting := remove1 i (waiting s), replies := replies s @ [(i, ans)]\<rparr>"

inductive service_step ::
    "'c store_apply \<Rightarrow> updater_config \<Rightarrow> (increment list \<Rightarrow> increment list) \<Rightarrow> (apply_error \<Rightarrow> bool) \<Rightarrow>
       'c updater_service \<Rightarrow> 'c updater_service \<Rightarrow> bool"
  for store_apply :: "'c store_apply" and config :: updater_config and order is_context
where
  rejected: "built config order a = Inl ans \<Longrightarrow>
     service_step store_apply config order is_context s (reply (length (arrived s)) ans (s\<lparr>arrived := arrived s @ [a]\<rparr>))"
| submitted: "built config order a = Inr req \<Longrightarrow>
     Submit (batcher_settings config) \<lparr>job_id = length (arrived s), request = req\<rparr> (the_batcher s) = (None, b) \<Longrightarrow>
     service_step store_apply config order is_context s
       (s\<lparr>arrived := arrived s @ [a], the_batcher := b, waiting := waiting s @ [length (arrived s)]\<rparr>)"
| refused: "built config order a = Inr req \<Longrightarrow>
     Submit (batcher_settings config) \<lparr>job_id = length (arrived s), request = req\<rparr> (the_batcher s) = (Some err, b) \<Longrightarrow>
     service_step store_apply config order is_context s
       (reply (length (arrived s)) (outcome_answer config order is_context a (Some (Answered err)))
         (s\<lparr>arrived := arrived s @ [a], the_batcher := b\<rparr>))"
| answered: "i \<in> set (waiting s) \<Longrightarrow> (i, r) \<in> set (results (the_batcher s)) \<Longrightarrow>
     service_step store_apply config order is_context s
       (reply i (outcome_answer config order is_context (arrived s ! i) (map_option Answered r)) s)"
| gave_up: "i \<in> set (waiting s) \<Longrightarrow> err = RequestCanceled \<or> err = RequestDeadline \<Longrightarrow>
     service_step store_apply config order is_context s
       (reply i (outcome_answer config order is_context (arrived s ! i) (Some err)) s)"
| batcher: "b = Start (the_batcher s) \<or> b = Stop (the_batcher s) \<or>
       (stop_closed (the_batcher s) \<and> b = CancelRun (the_batcher s)) \<or>
       goroutine_step store_apply (batcher_settings config) (the_batcher s) b \<Longrightarrow>
     service_step store_apply config order is_context s (s\<lparr>the_batcher := b\<rparr>)"

inductive served ::
    "'c store_apply \<Rightarrow> updater_config \<Rightarrow> (increment list \<Rightarrow> increment list) \<Rightarrow> (apply_error \<Rightarrow> bool) \<Rightarrow> 'c \<Rightarrow>
       'c updater_service \<Rightarrow> bool"
  for store_apply :: "'c store_apply" and config :: updater_config and order is_context and c :: 'c
where
  init: "served store_apply config order is_context c (new_service c)"
| step: "served store_apply config order is_context c s \<Longrightarrow>
     service_step store_apply config order is_context s s' \<Longrightarrow> served store_apply config order is_context c s'"

section \<open>What a reply tells\<close>

text \<open>A reply that says the batcher never took the request: rejected, or refused before the queue.\<close>

definition refused_reply :: "answer \<Rightarrow> bool" where
  "refused_reply ans \<longleftrightarrow> list_ex (\<lambda>ev. case ev of
     Rejection reason \<Rightarrow> reason \<noteq> ''batch_error'' \<and> reason \<noteq> ''request_context'' | _ \<Rightarrow> False) (snd ans)"

lemma built_answer: "built config order a = Inl ans \<Longrightarrow> fst ans = U_FailureStatus config"
  by (auto simp: built_def ingest_request_def reject_def failBatch_def split: sum.splits)

lemma outcome_answer_built:
  assumes "built config order a = Inr req"
  shows "outcome_answer config order is_context a None = (U_SuccessStatus config, [HTTPResult ''success'' (Events req)])"
    and "outcome_answer config order is_context a (Some err) = failBatch config (Events req) (failure_reason is_context err)"
  using assms by (simp_all add: outcome_answer_def built_def ingest_def)

lemma failure_refused:
  "refused_reply (failBatch config n (failure_reason is_context err)) \<longleftrightarrow> err = Answered QueueFull \<or> err = Answered NotRunning"
  by (auto simp: refused_reply_def failBatch_def failure_reason_def split: submit_error.splits batch_error.splits)

lemma outcome_reply:
  assumes "built config order a = Inr req" and "U_SuccessStatus config \<noteq> U_FailureStatus config"
  shows "fst (outcome_answer config order is_context a r) = U_SuccessStatus config \<longleftrightarrow> r = None"
    and "refused_reply (outcome_answer config order is_context a r) \<longleftrightarrow>
      r = Some (Answered QueueFull) \<or> r = Some (Answered NotRunning)"
  using assms(2) failure_refused [of config "Events req" is_context]
  by (cases r; simp add: outcome_answer_built [OF assms(1)] failBatch_def refused_reply_def)+

section \<open>The invariant\<close>

text \<open>No step takes an answer back.\<close>

lemma goroutine_results: "goroutine_step sa config b b' \<Longrightarrow> set (results b) \<subseteq> set (results b')"
  by (induction rule: goroutine_step.induct)
    (auto simp: receive_def run_handle_def drain_handle_def drain_finish_def abort_handle_def abort_def take_job_def
      flush_if_full_def flush_pending_def flush_def split: list.splits option.splits prod.splits)

lemma step_results: "batcher_step sa config b b' \<Longrightarrow> set (results b) \<subseteq> set (results b')"
  by (induction rule: batcher_step.induct)
    (auto simp: Start_def Stop_def CancelRun_def Submit_def Let_def dest: goroutine_results split: sum.splits)

definition reply_ok :: "updater_config \<Rightarrow> nat \<Rightarrow> 'c batcher \<Rightarrow> nat \<times> answer \<Rightarrow> bool" where
  "reply_ok config n b = (\<lambda>(i, ans). i < n \<and>
     (fst ans = U_SuccessStatus config \<longrightarrow> (i, None) \<in> set (results b)) \<and>
     (refused_reply ans \<longrightarrow> i \<notin> job_id ` set (accepted b) \<or>
        (\<exists>e. (i, Some e) \<in> set (results b) \<and> \<not> uncertain_answer (Some e))))"

definition service_ok ::
    "'c store_apply \<Rightarrow> updater_config \<Rightarrow> (increment list \<Rightarrow> increment list) \<Rightarrow> 'c \<Rightarrow> 'c updater_service \<Rightarrow> bool" where
  "service_ok sa config order c s \<longleftrightarrow>
     reachable sa (batcher_settings config) c (the_batcher s) \<and>
     (\<forall>job\<in>set (accepted (the_batcher s)).
        job_id job < length (arrived s) \<and> built config order (arrived s ! job_id job) = Inr (request job)) \<and>
     set (waiting s) \<subseteq> job_id ` set (accepted (the_batcher s)) \<and>
     (\<forall>ra\<in>set (replies s). reply_ok config (length (arrived s)) (the_batcher s) ra)"

text \<open>A reply stays right as the batcher goes on and takes later requests.\<close>

lemma reply_ok_later:
  assumes "reply_ok config n b ra" and "set (results b) \<subseteq> set (results b')" and "n \<le> n'"
    and "job_id ` set (accepted b') \<subseteq> job_id ` set (accepted b) \<union> {n..}"
  shows "reply_ok config n' b' ra"
proof -
  obtain i ans where ra: "ra = (i, ans)" by (cases ra)
  then have "i < n" using assms(1) by (simp add: reply_ok_def)
  then have "i \<in> job_id ` set (accepted b') \<Longrightarrow> i \<in> job_id ` set (accepted b)" using assms(4) by auto
  with assms(1-3) show ?thesis unfolding ra reply_ok_def by auto
qed

lemma service_ok_arrive:
  assumes "service_ok sa config order c s" and "reachable sa (batcher_settings config) c b"
    and "set (results (the_batcher s)) \<subseteq> set (results b)"
    and "\<And>job. job \<in> set (accepted b) \<Longrightarrow> job \<in> set (accepted (the_batcher s)) \<or>
      job_id job = length (arrived s) \<and> built config order a = Inr (request job)"
    and "set w \<subseteq> job_id ` set (accepted b)"
    and "\<And>ra. ra \<in> set extra \<Longrightarrow> reply_ok config (Suc (length (arrived s))) b ra"
  shows "service_ok sa config order c (s\<lparr>arrived := arrived s @ [a], the_batcher := b, waiting := w, replies := replies s @ extra\<rparr>)"
proof -
  have "reply_ok config (Suc (length (arrived s))) b ra" if "ra \<in> set (replies s)" for ra
  proof (rule reply_ok_later)
    show "reply_ok config (length (arrived s)) (the_batcher s) ra"
      using assms(1) that by (simp add: service_ok_def)
    show "job_id ` set (accepted b) \<subseteq> job_id ` set (accepted (the_batcher s)) \<union> {length (arrived s)..}"
      using assms(4) by (auto simp: image_iff) fastforce
  qed (use assms(3) in simp_all)
  moreover have "job_id job < Suc (length (arrived s)) \<and> built config order ((arrived s @ [a]) ! job_id job) = Inr (request job)"
    if "job \<in> set (accepted b)" for job
    using assms(4) [OF that] assms(1) by (auto simp: service_ok_def nth_append)
  ultimately show ?thesis using assms(2,5,6) by (auto simp: service_ok_def)
qed

lemma service_ok_reply:
  assumes "service_ok sa config order c s" and "reply_ok config (length (arrived s)) (the_batcher s) (i, ans)"
  shows "service_ok sa config order c (reply i ans s)"
  using assms set_remove1_subset [of i "waiting s"] by (auto simp: service_ok_def reply_def)

lemma service_ok_batcher:
  assumes "service_ok sa config order c s" and "batcher_step sa (batcher_settings config) (the_batcher s) b"
    and "accepted b = accepted (the_batcher s)"
  shows "service_ok sa config order c (s\<lparr>the_batcher := b\<rparr>)"
proof -
  have "reply_ok config (length (arrived s)) b ra" if "ra \<in> set (replies s)" for ra
  proof (rule reply_ok_later [OF _ step_results [OF assms(2)]])
    show "reply_ok config (length (arrived s)) (the_batcher s) ra" using assms(1) that by (simp add: service_ok_def)
  qed (simp_all add: assms(3))
  moreover have "reachable sa (batcher_settings config) c b"
    using assms(1) by (intro reachable.step [OF _ assms(2)]) (simp add: service_ok_def)
  ultimately show ?thesis using assms(1) by (simp add: service_ok_def assms(3))
qed

text \<open>The number of the next request is new.\<close>

lemma service_ok_next:
  assumes "service_ok sa config order c s"
  shows "length (arrived s) \<notin> job_id ` set (accepted (the_batcher s))" and "length (arrived s) \<notin> set (waiting s)"
proof -
  show "length (arrived s) \<notin> job_id ` set (accepted (the_batcher s))"
    using assms by (fastforce simp: service_ok_def)
  then show "length (arrived s) \<notin> set (waiting s)" using assms by (auto simp: service_ok_def)
qed

lemma Submit_cases:
  assumes "Submit config job b = (out, b')"
  shows "out = None \<Longrightarrow> accepted b' = accepted b @ [job] \<and> results b' = results b"
    and "out = Some err \<Longrightarrow> b' = b"
  using assms by (auto simp: Submit_def Let_def split: sum.splits if_splits)

lemma service_step_ok:
  assumes "service_step sa config order is_context s s'" and "U_SuccessStatus config \<noteq> U_FailureStatus config"
    and "service_ok sa config order c s"
  shows "service_ok sa config order c s'"
  using assms
proof (induction rule: service_step.induct)
  case (rejected a ans s)
  let ?n = "length (arrived s)"
  note new = service_ok_next [OF rejected(3)]
  moreover have "fst ans \<noteq> U_SuccessStatus config" using built_answer [OF rejected(1)] rejected(2) by simp
  ultimately have "reply_ok config (Suc ?n) (the_batcher s) (?n, ans)" by (simp add: reply_ok_def)
  then have "service_ok sa config order c (s\<lparr>arrived := arrived s @ [a], the_batcher := the_batcher s,
      waiting := waiting s, replies := replies s @ [(?n, ans)]\<rparr>)"
    using rejected(3) by (intro service_ok_arrive) (auto simp: service_ok_def)
  then show ?case using new(2) by (simp add: reply_def remove1_idem)
next
  case (submitted a req s b)
  let ?job = "\<lparr>job_id = length (arrived s), request = req\<rparr>"
  note taken = Submit_cases(1) [OF submitted(2) refl]
  have "job_id ?job \<notin> job_id ` set (accepted (the_batcher s))" using service_ok_next(1) [OF submitted(4)] by simp
  then have "reachable sa (batcher_settings config) c b"
    using submitted(2,4) reachable.step [OF _ batcher_step.submit [of ?job "the_batcher s" sa "batcher_settings config"]]
    by (simp add: service_ok_def)
  then have "service_ok sa config order c (s\<lparr>arrived := arrived s @ [a], the_batcher := b,
      waiting := waiting s @ [length (arrived s)], replies := replies s @ []\<rparr>)"
    using submitted(1,4) taken by (intro service_ok_arrive) (auto simp: service_ok_def)
  then show ?case by simp
next
  case (refused a req s err b)
  let ?n = "length (arrived s)" and ?ans = "outcome_answer config order is_context a (Some (Answered err))"
  have b: "b = the_batcher s" by (rule Submit_cases(2) [OF refused(2) refl])
  note new = service_ok_next [OF refused(4)]
  then have "reply_ok config (Suc ?n) b (?n, ?ans)"
    using outcome_reply(1) [OF refused(1,3)] by (simp add: reply_ok_def b)
  then have "service_ok sa config order c (s\<lparr>arrived := arrived s @ [a], the_batcher := b,
      waiting := waiting s, replies := replies s @ [(?n, ?ans)]\<rparr>)"
    using refused(4) b by (intro service_ok_arrive) (auto simp: service_ok_def)
  then show ?case using new(2) by (simp add: reply_def remove1_idem)
next
  case (answered i s r)
  then obtain job where job: "job \<in> set (accepted (the_batcher s))" "i = job_id job" by (auto simp: service_ok_def)
  then have i: "i < length (arrived s)" "built config order (arrived s ! i) = Inr (request job)"
    using answered(4) by (auto simp: service_ok_def)
  note out = outcome_reply [OF i(2) answered(3), of is_context "map_option Answered r"]
  have "\<not> uncertain_answer (Some e)" if "e = QueueFull \<or> e = NotRunning" for e
    using that by (auto simp: uncertain_answer_def)
  then have "reply_ok config (length (arrived s)) (the_batcher s) (i, outcome_answer config order is_context (arrived s ! i) (map_option Answered r))"
    using i(1) answered(2) out by (cases r) (auto simp: reply_ok_def)
  then show ?case by (rule service_ok_reply [OF answered(4)])
next
  case (gave_up i s err)
  then obtain job where job: "job \<in> set (accepted (the_batcher s))" "i = job_id job" by (auto simp: service_ok_def)
  then have i: "i < length (arrived s)" "built config order (arrived s ! i) = Inr (request job)"
    using gave_up(4) by (auto simp: service_ok_def)
  have "reply_ok config (length (arrived s)) (the_batcher s) (i, outcome_answer config order is_context (arrived s ! i) (Some err))"
    using i(1) gave_up(2) outcome_reply [OF i(2) gave_up(3), of is_context "Some err"] by (auto simp: reply_ok_def)
  then show ?case by (rule service_ok_reply [OF gave_up(4)])
next
  case (batcher b s)
  then have "batcher_step sa (batcher_settings config) (the_batcher s) b"
    by (auto intro: batcher_step.intros)
  moreover have "accepted b = accepted (the_batcher s)"
    using batcher(1) goroutine_accepted by (auto simp: Start_def Stop_def CancelRun_def)
  ultimately show ?case by (rule service_ok_batcher [OF batcher(3)])
qed

lemma served_ok:
  "served sa config order is_context c s \<Longrightarrow> U_SuccessStatus config \<noteq> U_FailureStatus config \<Longrightarrow> service_ok sa config order c s"
proof (induction rule: served.induct)
  case init
  then show ?case by (simp add: service_ok_def new_service_def NewBatcher_def reachable.init [unfolded NewBatcher_def])
next
  case (step s s')
  show ?case by (rule service_step_ok [OF step(2,4) step(3) [OF step(4)]])
qed

section \<open>From statuses to counters\<close>

text \<open>The accesses of an arrival to an object in an hour.\<close>

definition object_accesses :: "updater_config \<Rightarrow> arrival \<Rightarrow> object \<Rightarrow> time \<Rightarrow> nat" where
  "object_accesses config a obj h =
     (if hour_slot (A_time a) = hour_slot h
      then length (filter (\<lambda>rec. BucketName rec = Bucket obj \<and> ObjectName rec = Name obj) (accesses_of config a)) else 0)"

text \<open>Those of all arrivals whose number satisfies \<open>P\<close>.\<close>

definition total_accesses :: "updater_config \<Rightarrow> (nat \<Rightarrow> bool) \<Rightarrow> 'c updater_service \<Rightarrow> object \<Rightarrow> time \<Rightarrow> nat" where
  "total_accesses config P s obj h =
     (\<Sum>i\<leftarrow>filter P [0..<length (arrived s)]. object_accesses config (arrived s ! i) obj h)"

definition told_success :: "updater_config \<Rightarrow> 'c updater_service \<Rightarrow> nat \<Rightarrow> bool" where
  "told_success config s i \<longleftrightarrow> list_ex (\<lambda>(n, ans). n = i \<and> fst ans = U_SuccessStatus config) (replies s)"

definition told_refused :: "'c updater_service \<Rightarrow> nat \<Rightarrow> bool" where
  "told_refused s i \<longleftrightarrow> list_ex (\<lambda>(n, ans). n = i \<and> refused_reply ans) (replies s)"

lemma reported_set:
  assumes "distinct (map job_id (accepted b))"
  shows "reported config P (\<lambda>i. arrived s ! i) b obj h
    = (\<Sum>i\<in>{i \<in> job_id ` set (accepted b). list_ex (\<lambda>(n, r). n = i \<and> P r) (results b)}. object_accesses config (arrived s ! i) obj h)"
proof -
  let ?js = "filter (\<lambda>j. list_ex (\<lambda>(i, r). i = job_id j \<and> P r) (results b)) (accepted b)"
  have "reported config P (\<lambda>i. arrived s ! i) b obj h = sum_list (map (\<lambda>i. object_accesses config (arrived s ! i) obj h) (map job_id ?js))"
    by (simp add: reported_def object_accesses_def comp_def)
  also have "\<dots> = (\<Sum>i\<in>set (map job_id ?js). object_accesses config (arrived s ! i) obj h)"
    using assms by (intro sum_list_distinct_conv_sum_set) (simp add: distinct_map_filter)
  also have "set (map job_id ?js) = {i \<in> job_id ` set (accepted b). list_ex (\<lambda>(n, r). n = i \<and> P r) (results b)}"
    by auto
  finally show ?thesis .
qed

lemma total_accesses_set:
  "total_accesses config P s obj h = (\<Sum>i\<in>{i. i < length (arrived s) \<and> P i}. object_accesses config (arrived s ! i) obj h)"
proof -
  have "{i. i < length (arrived s) \<and> P i} = set (filter P [0..<length (arrived s)])" by auto
  then show ?thesis unfolding total_accesses_def by (simp add: sum_list_distinct_conv_sum_set)
qed

lemma reported_told:
  assumes "service_ok sa config order c s" and "config_ok (batcher_settings config)"
  shows "total_accesses config (told_success config s) s obj h
      \<le> reported config acknowledged_answer (\<lambda>i. arrived s ! i) (the_batcher s) obj h"
    and "reported config acknowledged_answer (\<lambda>i. arrived s ! i) (the_batcher s) obj h
        + reported config uncertain_answer (\<lambda>i. arrived s ! i) (the_batcher s) obj h
      \<le> total_accesses config (\<lambda>i. \<not> told_refused s i) s obj h"
proof -
  let ?b = "the_batcher s" and ?f = "\<lambda>i. object_accesses config (arrived s ! i) obj h"
  let ?hit = "\<lambda>P. {i \<in> job_id ` set (accepted ?b). list_ex (\<lambda>(n, r). n = i \<and> P r) (results ?b)}"
  have acc: "jobs_accounted ?b"
    using assms(1) reachable_inv [OF _ assms(2)] by (fastforce simp: service_ok_def batcher_inv_def)
  then have dist: "distinct (map job_id (accepted ?b))" by (simp add: jobs_accounted_def)
  note once = answered_once [OF acc]
  have one: "list_ex (\<lambda>(n, r). n = i \<and> P r) (results ?b) = P r" if "(i, r) \<in> set (results ?b)" for i r P
    by (rule answer_unique [OF once(1) that])
  have ok: "reply_ok config (length (arrived s)) ?b (i, ans)" if "(i, ans) \<in> set (replies s)" for i ans
    using assms(1) that by (auto simp: service_ok_def)
  have ids: "i < length (arrived s)" if "i \<in> job_id ` set (accepted ?b)" for i
    using assms(1) that by (auto simp: service_ok_def)
  have fin: "finite (?hit P)" for P by simp
  have "{i. i < length (arrived s) \<and> told_success config s i} \<subseteq> ?hit acknowledged_answer"
  proof
    fix i
    assume "i \<in> {i. i < length (arrived s) \<and> told_success config s i}"
    then obtain ans where "(i, ans) \<in> set (replies s)" "fst ans = U_SuccessStatus config"
      by (auto simp: told_success_def list_ex_iff)
    then have none: "(i, None) \<in> set (results ?b)" using ok by (auto simp: reply_ok_def)
    then have "i \<in> job_id ` set (accepted ?b)" using once(2) by (force simp: image_iff)
    with one [OF none] show "i \<in> ?hit acknowledged_answer" by (simp add: acknowledged_answer_def)
  qed
  then show "total_accesses config (told_success config s) s obj h
      \<le> reported config acknowledged_answer (\<lambda>i. arrived s ! i) ?b obj h"
    unfolding total_accesses_set reported_set [OF dist] by (intro sum_mono2 fin) auto
  have apart: "?hit acknowledged_answer \<inter> ?hit uncertain_answer = {}"
  proof -
    have "i \<notin> ?hit uncertain_answer" if i: "i \<in> ?hit acknowledged_answer" for i
    proof -
      obtain r where r: "(i, r) \<in> set (results ?b)" "acknowledged_answer r" using i by (auto simp: list_ex_iff)
      then have "\<not> uncertain_answer r" by (auto simp: acknowledged_answer_def uncertain_answer_def)
      then show ?thesis using one [OF r(1), of uncertain_answer] by simp
    qed
    then show ?thesis by blast
  qed
  have "?hit acknowledged_answer \<union> ?hit uncertain_answer \<subseteq> {i. i < length (arrived s) \<and> \<not> told_refused s i}"
  proof
    fix i
    assume i: "i \<in> ?hit acknowledged_answer \<union> ?hit uncertain_answer"
    then have "i < length (arrived s)" using ids by auto
    moreover have "\<not> told_refused s i"
    proof
      assume "told_refused s i"
      then obtain ans where "(i, ans) \<in> set (replies s)" "refused_reply ans"
        by (auto simp: told_refused_def list_ex_iff)
      then have "i \<notin> job_id ` set (accepted ?b) \<or> (\<exists>e. (i, Some e) \<in> set (results ?b) \<and> \<not> uncertain_answer (Some e))"
        using ok by (auto simp: reply_ok_def)
      moreover have "\<not> acknowledged_answer (Some e)" for e by (simp add: acknowledged_answer_def)
      ultimately show False using i one by blast
    qed
    ultimately show "i \<in> {i. i < length (arrived s) \<and> \<not> told_refused s i}" by simp
  qed
  then have "(\<Sum>i\<in>?hit acknowledged_answer \<union> ?hit uncertain_answer. ?f i)
      \<le> (\<Sum>i\<in>{i. i < length (arrived s) \<and> \<not> told_refused s i}. ?f i)"
    by (intro sum_mono2) auto
  then show "reported config acknowledged_answer (\<lambda>i. arrived s ! i) ?b obj h
        + reported config uncertain_answer (\<lambda>i. arrived s ! i) ?b obj h
      \<le> total_accesses config (\<lambda>i. \<not> told_refused s i) s obj h"
    unfolding total_accesses_set reported_set [OF dist] by (simp add: sum.union_disjoint [OF fin fin apart])
qed

section \<open>Property\<close>


text \<open>A request of three accesses that is answered with success, and one of another type that is rejected.\<close>

definition plain_text :: arrival where
  "plain_text = \<lparr>A_type = ''text/plain'', A_body = [], A_time = 10 * Second\<rparr>"

definition answered_service :: "mem_state lua_conn store updater_service" where
  "answered_service = reply 0 (200, [HTTPResult ''success'' 3])
     \<lparr>arrived = [live_arrival], the_batcher = live_run, waiting = [0], replies = []\<rparr>"

definition live_service :: "mem_state lua_conn store updater_service" where
  "live_service = reply 1 (500, [Rejection ''unsupported_media_type'', HTTPResult ''rejected'' 0])
     (answered_service\<lparr>arrived := arrived answered_service @ [plain_text]\<rparr>)"

lemma live_built:
  "built live_config (\<lambda>incs. incs) live_arrival = Inr (request live_job)"
  "built live_config (\<lambda>incs. incs) plain_text = Inl (500, [Rejection ''unsupported_media_type'', HTTPResult ''rejected'' 0])"
proof -
  show "built live_config (\<lambda>incs. incs) live_arrival = Inr (request live_job)"
    using live_ingested by (simp add: built_def ingested_def)
  have "case validateContentType ''text/plain'' of Inl err \<Rightarrow> RejectionReason err = ''unsupported_media_type'' | Inr _ \<Rightarrow> False"
    by code_simp
  then show "built live_config (\<lambda>incs. incs) plain_text = Inl (500, [Rejection ''unsupported_media_type'', HTTPResult ''rejected'' 0])"
    by (auto simp: built_def ingest_request_def plain_text_def reject_def live_config_def split: sum.splits)
qed

lemma live_served: "served (Apply (lua_client mem_redis)) live_config (\<lambda>incs. incs) (\<lambda>e. False) one_store live_service"
proof -
  let ?sa = "Apply (lua_client mem_redis)" and ?cfg = "batcher_settings live_config" and ?order = "\<lambda>incs :: increment list. incs"
  let ?served = "served ?sa live_config ?order (\<lambda>e. False) one_store"
  let ?state = "\<lambda>b. \<lparr>arrived = [live_arrival], the_batcher = b, waiting = [0], replies = []\<rparr>"
  let ?b1 = "Start (NewBatcher one_store)"
  let ?b2 = "snd (Submit ?cfg live_job ?b1)"
  let ?b3 = "receive LoopGot ?b2"
  let ?b4 = "run_handle ?sa ?cfg live_job ?b3"
  have go: "?served (?state b')" if "?served (?state b)" "goroutine_step ?sa ?cfg b b'" for b b'
    using served.step [OF that(1) service_step.batcher [of b' "?state b"]] that(2) by simp
  have "?served ((new_service one_store)\<lparr>the_batcher := ?b1\<rparr>)"
    by (rule served.step [OF served.init service_step.batcher]) (simp add: new_service_def)
  moreover have "fst (Submit ?cfg live_job ?b1) = None" by code_simp
  then have "Submit ?cfg \<lparr>job_id = 0, request = request live_job\<rparr> ?b1 = (None, ?b2)"
    by (simp add: live_job_def prod_eq_iff)
  ultimately have "?served (?state ?b2)"
    using served.step [OF _ service_step.submitted [OF live_built(1), of "(new_service one_store)\<lparr>the_batcher := ?b1\<rparr>" ?b2]]
    by (simp add: new_service_def)
  moreover have "pc ?b2 = Looping" "queue ?b2 \<noteq> []" by code_simp+
  ultimately have "?served (?state ?b3)" using go goroutine_step.run_receive by blast
  moreover have "pc ?b3 = LoopGot live_job" by code_simp
  ultimately have "?served (?state ?b4)" using go goroutine_step.run_handle by blast
  moreover have "pc ?b4 = Looping" by (simp add: run_handle_def)
  moreover have "\<not> Option.is_none (pending ?b4)" by code_simp
  then have "pending ?b4 \<noteq> None" by (simp add: Option.is_none_def split: option.splits)
  ultimately have run: "?served (?state live_run)"
    unfolding live_run_def using go goroutine_step.run_timer by blast
  have "outcome_answer live_config ?order (\<lambda>e. False) live_arrival None = (200, [HTTPResult ''success'' 3])"
    unfolding outcome_answer_built(1) [OF live_built(1)] by (simp add: live_config_def live_job_def)
  then have "?served answered_service"
    using served.step [OF run service_step.answered [of 0 "?state live_run" None]] live_answers(2)
    by (simp add: answered_service_def)
  from served.step [OF this service_step.rejected [OF live_built(2)]] show ?thesis
    by (simp add: live_service_def) (simp add: answered_service_def reply_def)
qed


end
