(* ===== verification/Tiering_Safety.thy ===== *)
theory Tiering_Safety
  imports Own_Keys Accounting
begin

text \<open>
  The tierer acts on what it read: every marker a run applies goes to an object whose counters were
  cold, every restore to one whose counters were hot, as they stood in Redis when the run began. With the
  accounting of the updater this ties the fate of an object to the accesses that were acknowledged.
\<close>

section \<open>What a chunk does to an object\<close>

text \<open>The reading and the verdict on one object of a chunk that starts in the world \<open>w\<close>.\<close>

definition judged ::
    "('w, 'e) scanner \<Rightarrow> object list \<Rightarrow> 'w \<Rightarrow> time \<Rightarrow> object \<Rightarrow> result \<Rightarrow> bool" where
  "judged s objs w now obj res \<longleftrightarrow>
     (\<exists>w0 hour lows highs usage cov w1 u. clock_now (deps s) w = (now, w0) \<and> chunk_windows s now hour lows highs \<and>
        use_read (deps s) w0 objs lows highs = (Inr (usage, cov), w1) \<and> length usage = length objs \<and>
        (obj, u) \<in> set (zip objs usage) \<and>
        Evaluate \<lparr>EvalHour = hour, EvalLastModified = LastModified obj, LowCounts = UsageLow u,
          LowCoverage = cov, HighCounts = UsageHigh u\<rparr> (Policy (config s)) = Inr res)"

text \<open>A mutation of a chunk is the work of \<open>handleObject\<close> on an object the chunk judged.\<close>

definition mutation :: "'e event \<Rightarrow> bool" where
  "mutation ev \<longleftrightarrow> marker_event ev \<or> restore_event ev"

definition handled_with ::
    "('w, 'e) scanner \<Rightarrow> time \<Rightarrow> object \<Rightarrow> result \<Rightarrow> 'e event \<Rightarrow> bool" where
  "handled_with s now obj res ev \<longleftrightarrow>
     (\<exists>st err st' evs. handleObject s obj res now st = (err, st') \<and> trace st' = trace st @ evs \<and> ev \<in> set evs)"

lemma evaluate_loop_quiet: "evaluate_loop s hour cov pairs st = (out, st') \<Longrightarrow> adds (\<lambda>evs. set evs \<subseteq> {CoverageSkipped}) st st'"
proof (induction pairs arbitrary: st out)
  case (Cons pair pairs)
  obtain obj u where pair: "pair = (obj, u)" by (cases pair)
  show ?case
  proof (cases "ctx_err (deps s) (world st)")
    case True
    then show ?thesis using Cons.prems pair by (simp add: adds_def)
  next
    case False
    show ?thesis
    proof (cases "Evaluate \<lparr>EvalHour = hour, EvalLastModified = LastModified obj, LowCounts = UsageLow u,
                   LowCoverage = cov, HighCounts = UsageHigh u\<rparr> (Policy (config s))")
      case (Inl err)
      then show ?thesis using Cons.prems pair False by (simp add: adds_def)
    next
      case (Inr res)
      define st1 where "st1 = (if CoverageComplete res then st else emit CoverageSkipped st)"
      obtain out1 where "evaluate_loop s hour cov pairs st1 = (out1, st')"
        using Cons.prems pair False Inr by (auto simp: st1_def Let_def split: prod.splits sum.splits)
      from Cons.IH [OF this] show ?thesis by (auto simp: adds_def st1_def split: if_splits)
    qed
  qed
qed (simp add: adds_def)

lemma evaluate_loop_items:
  "evaluate_loop s hour cov pairs st = (Inr items, st') \<Longrightarrow> (obj, res) \<in> set items \<Longrightarrow>
     \<exists>u. (obj, u) \<in> set pairs \<and> Evaluate \<lparr>EvalHour = hour, EvalLastModified = LastModified obj, LowCounts = UsageLow u,
       LowCoverage = cov, HighCounts = UsageHigh u\<rparr> (Policy (config s)) = Inr res"
proof (induction pairs arbitrary: st items)
  case (Cons pair pairs)
  obtain o1 u where pair: "pair = (o1, u)" by (cases pair)
  from Cons.prems(1) pair obtain res1 st1 items1 where
    "Evaluate \<lparr>EvalHour = hour, EvalLastModified = LastModified o1, LowCounts = UsageLow u,
       LowCoverage = cov, HighCounts = UsageHigh u\<rparr> (Policy (config s)) = Inr res1"
    and "evaluate_loop s hour cov pairs st1 = (Inr items1, st')" and "items = (o1, res1) # items1"
    by (auto simp: Let_def split: if_splits prod.splits sum.splits)
  then show ?case using Cons.IH [of st1 items1] Cons.prems(2) pair by auto
qed simp

lemma handle_loop_events:
  "handle_loop s now items st = (err, st') \<Longrightarrow>
     adds (\<lambda>evs. \<forall>ev\<in>set evs. \<exists>(obj, res)\<in>set items. handled_with s now obj res ev) st st'"
proof (induction items arbitrary: st)
  case (Cons item items)
  obtain obj res where item: "item = (obj, res)" by (cases item)
  obtain e st1 where h: "handleObject s obj res now st = (e, st1)" by fastforce
  from handleObject_trace [OF h] obtain evs where evs: "trace st1 = trace st @ evs" by (auto simp: adds_def)
  have this1: "\<forall>ev\<in>set evs. handled_with s now obj res ev" using h evs by (auto simp: handled_with_def)
  show ?case
  proof (cases e)
    case None
    then have "handle_loop s now items st1 = (err, st')" using Cons.prems item h by simp
    from Cons.IH [OF this] obtain evs1 where "trace st' = trace st1 @ evs1"
      "\<forall>ev\<in>set evs1. \<exists>(obj, res)\<in>set items. handled_with s now obj res ev" by (auto simp: adds_def)
    then show ?thesis using evs this1 item by (intro exI [of _ "evs @ evs1"] iffD2 [OF adds_def]) fastforce
  next
    case (Some x)
    then show ?thesis using Cons.prems item h evs this1 by (auto simp: adds_def)
  qed
qed (simp add: adds_def)

lemma dependencyError_adds: "adds (\<lambda>evs. \<forall>ev\<in>set evs. \<not> mutation ev) st (dependencyError s d err st)"
  by (auto simp: dependencyError_def adds_def mutation_def event_kinds)

lemma chunk_mutations:
  assumes "processChunk s objs st = (err, st')"
  shows "adds (\<lambda>evs. \<forall>ev\<in>set evs. mutation ev \<longrightarrow>
    (\<exists>now obj res. judged s objs (world st) now obj res \<and> handled_with s now obj res ev)) st st'"
proof -
  let ?P = "\<lambda>evs. \<forall>ev\<in>set evs. mutation ev \<longrightarrow>
    (\<exists>now obj res. judged s objs (world st) now obj res \<and> handled_with s now obj res ev)"
  have weaken: "adds Q a b \<Longrightarrow> (\<And>evs. Q evs \<Longrightarrow> ?P evs) \<Longrightarrow> adds ?P a b" for Q a b by (auto simp: adds_def)
  have then_adds: "adds ?P a b \<Longrightarrow> adds ?P b d \<Longrightarrow> adds ?P a d" for a b d by (fastforce simp: adds_def)
  have error: "adds ?P a (dependencyError s d e a)" for a d e
    by (rule weaken [OF dependencyError_adds]) blast
  have evaluated: "adds ?P a b" if "evaluate_loop s hour cov pairs a = (out, b)" for hour cov pairs a b out
    by (rule weaken [OF evaluate_loop_quiet [OF that]]) (auto simp: mutation_def event_kinds)
  have called: "adds ?P a (called ev w a)" if "\<not> mutation ev" for ev w a using that by (simp add: adds_def)
  have emitted: "adds ?P a (emit ev a)" if "\<not> mutation ev" for ev a using that by (simp add: adds_def)
  have plain: "\<not> mutation (CallReadChunk objs)" "\<not> mutation (CallSaveCursor cur r)" "\<not> mutation CursorError"
    "\<not> mutation (CursorSaved t)" for cur r t by (simp_all add: mutation_def event_kinds)
  have read: "adds ?P st (called (CallReadChunk objs) w1 (st\<lparr>world := w0\<rparr>))" for w0 w1
    by (simp add: adds_def plain)
  have handled: "adds ?P st st3"
    if "clock_now (deps s) (world st) = (now, w0)" "chunk_windows s now hour lows highs"
      "use_read (deps s) w0 objs lows highs = (Inr (usage, cov), w1)" "length usage = length objs"
      "evaluate_loop s hour cov (zip objs usage) (called (CallReadChunk objs) w1 (st\<lparr>world := w0\<rparr>)) = (Inr items, st2)"
      "handle_loop s now items st2 = (e, st3)" for now w0 hour lows highs usage cov w1 items st2 e st3
  proof -
    have "judged s objs (world st) now obj res" if "(obj, res) \<in> set items" for obj res
      using evaluate_loop_items [OF \<open>evaluate_loop _ _ _ _ _ = _\<close> that] \<open>clock_now _ _ = _\<close> \<open>chunk_windows _ _ _ _ _\<close>
        \<open>use_read _ _ _ _ _ = _\<close> \<open>length usage = _\<close>
      unfolding judged_def by blast
    then have "adds ?P st2 st3"
      by (intro weaken [OF handle_loop_events [OF that(6)]]) fastforce
    with then_adds [OF read evaluated [OF that(5)]] show ?thesis by (rule then_adds)
  qed
  from processChunk_run [OF assms] show ?thesis
  proof (cases rule: chunk_run.cases)
    case (no_window now w0 e)
    then show ?thesis by (simp add: adds_def)
  next
    case (unread now w0 lows highs rd w1 st1 e)
    then show ?thesis using read then_adds [OF read error] by blast
  next
    case (unevaluated now w0 lows highs usage cov w1 hour e)
    then show ?thesis using then_adds [OF read evaluated] by blast
  next
    case (unhandled now w0 lows highs usage cov w1 hour items st2 e)
    then show ?thesis using handled by blast
  next
    case (unsaved now w0 lows highs usage cov w1 hour items st2 st3 e w4)
    then have "adds ?P st st3" using handled by blast
    from then_adds [OF then_adds [OF then_adds [OF this called] emitted] error]
    show ?thesis using unsaved plain by blast
  next
    case (chunk_done now w0 lows highs usage cov w1 hour items st2 st3 w4)
    then have "adds ?P st st3" using handled by blast
    from then_adds [OF then_adds [OF this called] emitted] show ?thesis using chunk_done plain by blast
  qed
qed

text \<open>The mutated object is what a stat of the judged one returned, and the verdict called for the change.\<close>

lemma marker_trace_stats: "marker_trace cfg obj evs stop \<Longrightarrow> CallStat l out \<notin> set evs"
  by (auto elim!: marker_traceE simp: failure_events_def)

lemma restore_trace_stats: "restore_trace cfg obj act evs stop \<Longrightarrow> CallStat l out \<notin> set evs"
  by (auto elim!: restore_traceE simp: failure_events_def)

lemma perform_stats:
  assumes "perform s obj (State obj) act st = (err, st')"
  shows "adds (\<lambda>evs. \<forall>l out. CallStat l out \<notin> set evs) st st'"
  using perform_trace [OF assms] marker_trace_stats restore_trace_stats
  by (cases act) (fastforce simp: adds_def)+

lemma handleObject_stats:
  assumes "handleObject s lobj res now st = (err, st')"
  shows "adds (\<lambda>evs. \<forall>l out. CallStat l out \<in> set evs \<longrightarrow> (\<exists>w w'. inv_stat (deps s) w lobj = (out, w'))) st st'"
proof -
  define act where "act = (if StateKnown lobj then DecideAction (State lobj) (Low res) (High res) now else ActionNone)"
  show ?thesis
  proof (cases "(\<not> StateKnown lobj \<and> (Low res \<or> High res)) \<or> act \<noteq> ActionNone")
    case False
    then have "perform s lobj (State lobj) ActionNone st = (err, st')"
      using assms by (auto simp: handleObject_def act_def [symmetric] split: if_splits)
    from perform_stats [OF this] show ?thesis by (auto simp: adds_def)
  next
    case True
    obtain out w where stat: "inv_stat (deps s) (world st) lobj = (out, w)" by fastforce
    define st1 where "st1 = called (CallStat lobj out) w st"
    have "adds (\<lambda>evs. \<forall>l out. CallStat l out \<notin> set evs) st1 st'"
    proof (cases "\<exists>cur. out = Inr cur \<and> SameIdentity lobj cur")
      case False
      then have "st' = emit (ObjectHandled ''identity_changed'') st1 \<or>
          (\<exists>e. st' = emit (ObjectHandled ''stat_error'') (dependencyError s ''minio'' e st1))"
        using assms True stat by (cases out) (auto simp: handleObject_def act_def [symmetric] st1_def Let_def)
      then show ?thesis by (auto simp: adds_def dependencyError_def)
    next
      case same: True
      then obtain cur where "out = Inr cur" "SameIdentity lobj cur" by blast
      then have "perform s cur (State cur) (DecideAction (State cur) (Low res) (High res) now) st1 = (err, st')"
        using assms True stat by (auto simp: handleObject_def act_def [symmetric] st1_def Let_def)
      then show ?thesis by (rule perform_stats)
    qed
    then show ?thesis using stat by (fastforce simp: adds_def st1_def)
  qed
qed

lemma object_trace_mutation:
  assumes "object_trace cfg lobj res now evs stop"
  shows "CallApplyMarker obj plan r \<in> set evs \<Longrightarrow> SameIdentity lobj obj \<and> Low res \<and> CallStat lobj (Inr obj) \<in> set evs"
    and "CallRestore obj days out \<in> set evs \<Longrightarrow> SameIdentity lobj obj \<and> High res \<and> CallStat lobj (Inr obj) \<in> set evs"
proof -
  have "(CallApplyMarker obj plan r \<in> set evs \<longrightarrow> SameIdentity lobj obj \<and> Low res \<and> CallStat lobj (Inr obj) \<in> set evs) \<and>
    (CallRestore obj days out \<in> set evs \<longrightarrow> SameIdentity lobj obj \<and> High res \<and> CallStat lobj (Inr obj) \<in> set evs)"
    using assms
  proof (induction rule: object_trace.induct)
    case (mark cur evs stop)
    from mark(2) have "Low res" by (simp add: DecideAction_mark)
    with mark(1,3) show ?case by (auto elim!: marker_traceE simp: failure_events_def)
  next
    case (restore cur act evs stop)
    then have "High res" using DecideAction_restore_or_renew by blast
    with restore(1,4) show ?case by (auto elim!: restore_traceE simp: failure_events_def)
  qed (auto simp: failure_events_def)
  then show "CallApplyMarker obj plan r \<in> set evs \<Longrightarrow> SameIdentity lobj obj \<and> Low res \<and> CallStat lobj (Inr obj) \<in> set evs"
    and "CallRestore obj days out \<in> set evs \<Longrightarrow> SameIdentity lobj obj \<and> High res \<and> CallStat lobj (Inr obj) \<in> set evs"
    by blast+
qed

lemma handled_with_mutation:
  shows "handled_with s now lobj res (CallApplyMarker obj plan r) \<Longrightarrow>
      SameIdentity lobj obj \<and> Low res \<and> (\<exists>w w'. inv_stat (deps s) w lobj = (Inr obj, w'))"
    and "handled_with s now lobj res (CallRestore obj days out) \<Longrightarrow>
      SameIdentity lobj obj \<and> High res \<and> (\<exists>w w'. inv_stat (deps s) w lobj = (Inr obj, w'))"
  using object_trace_mutation handleObject_trace handleObject_stats
  by (fastforce simp: handled_with_def adds_def)+

text \<open>The verdict on an object whose usage is a count \<open>f\<close> per hour.\<close>

lemma verdict_counts:
  assumes "Evaluate \<lparr>EvalHour = hour, EvalLastModified = t, LowCounts = UsageLow u, LowCoverage = cov,
      HighCounts = UsageHigh u\<rparr> policy = Inr res"
    and "usage = map (\<lambda>obj. \<lparr>UsageLow = map (\<lambda>h. int (f obj h)) lows, UsageHigh = map (\<lambda>h. int (f obj h)) highs\<rparr>) objs"
    and "(lobj, u) \<in> set (zip objs usage)"
  shows "Low res \<Longrightarrow> list_all id cov \<and> int (\<Sum>h\<leftarrow>lows. f lobj h) < LowThreshold policy \<and>
      t \<le> truncate_time hour Hour + hours_duration (- LowWindowHours policy)"
    and "High res \<Longrightarrow> HighThreshold policy < int (\<Sum>h\<leftarrow>highs. f lobj h)"
proof -
  have u: "u = \<lparr>UsageLow = map (\<lambda>h. int (f lobj h)) lows, UsageHigh = map (\<lambda>h. int (f lobj h)) highs\<rparr>"
    using assms(3) unfolding assms(2) by (auto simp: set_zip)
  have sums: "sum_list (map (\<lambda>h. int (f lobj h)) hs) = int (\<Sum>h\<leftarrow>hs. f lobj h)" for hs
    by (induction hs) simp_all
  note verdict = Evaluate_Inr(11,12) [OF assms(1), unfolded u, simplified, unfolded sums]
  show "Low res \<Longrightarrow> list_all id cov \<and> int (\<Sum>h\<leftarrow>lows. f lobj h) < LowThreshold policy \<and>
      t \<le> truncate_time hour Hour + hours_duration (- LowWindowHours policy)"
    and "High res \<Longrightarrow> HighThreshold policy < int (\<Sum>h\<leftarrow>highs. f lobj h)"
    using verdict by blast+
qed

section \<open>Justified runs\<close>

text \<open>
  \<open>W\<close> relates the states of a run, and \<open>J s0 s1 ev\<close> says that the mutation \<open>ev\<close> between \<open>s0\<close> and \<open>s1\<close> has its
  reason in between. A reason carries over to a longer run; where a chunk's judgement is one, every mutation
  of a whole run has one.
\<close>

definition justified_run ::
    "(('w, 'e) scan \<Rightarrow> ('w, 'e) scan \<Rightarrow> bool) \<Rightarrow> (('w, 'e) scan \<Rightarrow> ('w, 'e) scan \<Rightarrow> 'e event \<Rightarrow> bool) \<Rightarrow>
     ('w, 'e) scan \<Rightarrow> ('w, 'e) scan \<Rightarrow> bool" where
  "justified_run W J s0 s1 \<longleftrightarrow> W s0 s1 \<and> adds (list_all (\<lambda>ev. mutation ev \<longrightarrow> J s0 s1 ev)) s0 s1"

lemma justified_run_quiet:
  "W s0 s1 \<Longrightarrow> trace s1 = trace s0 @ evs \<Longrightarrow> list_all (\<lambda>ev. \<not> mutation ev) evs \<Longrightarrow> justified_run W J s0 s1"
  by (auto simp: justified_run_def adds_def list_all_iff)

locale justified_law = ways: scan_law s W
  for s :: "('w, 'e) scanner" and W :: "('w, 'e) scan \<Rightarrow> ('w, 'e) scan \<Rightarrow> bool" +
  fixes J :: "('w, 'e) scan \<Rightarrow> ('w, 'e) scan \<Rightarrow> 'e event \<Rightarrow> bool"
  assumes J_widen: "mutation ev \<Longrightarrow> W a s0 \<Longrightarrow> W s0 s1 \<Longrightarrow> W s1 b \<Longrightarrow> J s0 s1 ev \<Longrightarrow> J a b ev"
    and J_judged: "W s0 s1 \<Longrightarrow> mutation ev \<Longrightarrow> judged s objs (world s0) now obj res \<Longrightarrow> handled_with s now obj res ev \<Longrightarrow> J s0 s1 ev"
begin

lemma chunk_justified:
  assumes "processChunk s objs s0 = (err, s1)"
  shows "justified_run W J s0 s1"
  using chunk_mutations [OF assms] ways.R_processChunk [OF assms] J_judged
  unfolding justified_run_def adds_def list_all_iff by blast

lemma justified_run_trans:
  assumes "justified_run W J s0 s1" and "justified_run W J s1 s2"
  shows "justified_run W J s0 s2"
proof -
  have W: "W s0 s1" "W s1 s2" using assms by (simp_all add: justified_run_def)
  obtain evs1 evs2 where tr: "trace s1 = trace s0 @ evs1" "trace s2 = trace s1 @ evs2"
    and J: "\<forall>ev\<in>set evs1. mutation ev \<longrightarrow> J s0 s1 ev" "\<forall>ev\<in>set evs2. mutation ev \<longrightarrow> J s1 s2 ev"
    using assms by (auto simp: justified_run_def adds_def list_all_iff)
  have "\<forall>ev\<in>set (evs1 @ evs2). mutation ev \<longrightarrow> J s0 s2 ev"
    using J J_widen [OF _ ways.R_refl W] J_widen [OF _ W ways.R_refl] by auto
  with tr ways.R_trans [OF W] show ?thesis by (simp add: justified_run_def adds_def list_all_iff)
qed

end

sublocale justified_law \<subseteq> justly: traversal_law s "justified_run W J"
proof
  fix s0 s1 s2 :: "('w, 'e) scan" and w :: 'w and ev :: "'e event"
  let ?R = "justified_run W J"
  note quiet = justified_run_quiet [of W, where evs = "[]"] justified_run_quiet [of W, where evs = "[ev]" for ev]
  show "?R s0 s0" by (rule quiet(1)) (simp_all add: ways.R_refl)
  show "?R s0 s1 \<Longrightarrow> ?R s1 s2 \<Longrightarrow> ?R s0 s2" by (rule justified_run_trans)
  show "loop_event ev \<Longrightarrow> ?R s0 (emit ev s0)"
    by (cases ev) (auto intro!: quiet(2) ways.R_emit simp: mutation_def event_kinds)
  show "frame_event ev \<Longrightarrow> ?R s0 (emit ev s0)"
    by (cases ev) (auto intro!: quiet(2) ways.R_frame simp: mutation_def event_kinds)
  show "processChunk s objs s0 = (err, s1) \<Longrightarrow> ?R s0 s1" for objs err by (rule chunk_justified)
  show "?R s0 (s0\<lparr>world := w\<rparr>)" if "inv_objects (deps s) (world s0) bucket start = (stream, w)" for bucket start stream
    using ways.R_listing [OF that] by (rule quiet(1)) simp_all
  show "?R s0 (s0\<lparr>world := w\<rparr>)" if "inv_buckets (deps s) (world s0) = (bs, w)" for bs
    using ways.S_buckets [OF that] by (rule quiet(1)) simp_all
  show "?R s0 (s0\<lparr>world := w\<rparr>)" if "st_load (deps s) (world s0) scope = (cur, w)" for scope cur
    using ways.S_load [OF that] by (rule quiet(1)) simp_all
  show "?R s0 (emit CursorWasReset (called (CallResetCursor None) w s0))" if "st_reset (deps s) (world s0) scope = (None, w)" for scope
    using ways.R_reset [OF that]
    by (rule justified_run_quiet [where evs = "[CallResetCursor None, CursorWasReset]"]) (simp_all add: mutation_def event_kinds)
  show "?R s0 (called (CallResetCursor (Some e)) w s0)" if "st_reset (deps s) (world s0) scope = (Some e, w)" for scope e
    using ways.R_reset_failed [OF that]
    by (rule justified_run_quiet [where evs = "[CallResetCursor (Some e)]"]) (simp_all add: mutation_def event_kinds)
qed

context justified_law
begin

lemma run_justified:
  assumes "ev \<in> set (run_events s rounds st)" and "mutation ev"
  shows "J st (snd (Run s rounds st)) ev"
proof -
  have "adds (list_all (\<lambda>ev. mutation ev \<longrightarrow> J st (snd (Run s rounds st)) ev)) st (snd (Run s rounds st))"
    using justly.R_Run [of st rounds] by (simp add: justified_run_def)
  from adds_run [OF this] assms show ?thesis by (simp add: list_all_iff)
qed

end

section \<open>Cold and hot objects\<close>

definition window_total ::
    "('s \<Rightarrow> string \<Rightarrow> rvalue option) \<Rightarrow> 's \<Rightarrow> string \<Rightarrow> object \<Rightarrow> time list \<Rightarrow> nat" where
  "window_total val srv inst obj hours = (\<Sum>h\<leftarrow>hours. access_count val srv inst obj h)"

text \<open>
  Cold: every hour of the low window is covered and its accesses add up to less than the threshold.
  Hot: those of the high window add up to more than its threshold.
\<close>

definition cold_at ::
    "('s \<Rightarrow> string \<Rightarrow> rvalue option) \<Rightarrow> (string \<Rightarrow> time \<Rightarrow> string) \<Rightarrow> tierer_config \<Rightarrow> 's \<Rightarrow> object \<Rightarrow> time \<Rightarrow> bool" where
  "cold_at val fmt c srv obj now \<longleftrightarrow>
     (\<exists>lows. HourWindow (truncate_time now Hour) (LowWindowHours (T_Policy c)) False = Inr lows \<and>
        (\<forall>h\<in>set lows. covered_hour val fmt (tierer_store c) srv h) \<and>
        int (window_total val srv (T_InstanceID c) obj lows) < LowThreshold (T_Policy c))"

definition hot_at ::
    "('s \<Rightarrow> string \<Rightarrow> rvalue option) \<Rightarrow> tierer_config \<Rightarrow> 's \<Rightarrow> object \<Rightarrow> time \<Rightarrow> bool" where
  "hot_at val c srv obj now \<longleftrightarrow>
     (\<exists>highs. HourWindow (truncate_time now Hour) (HighWindowHours (T_Policy c)) (HighIncludeCurrent (T_Policy c)) = Inr highs \<and>
        HighThreshold (T_Policy c) < int (window_total val srv (T_InstanceID c) obj highs))"

text \<open>Not modified since the low window began.\<close>

definition unmodified_since :: "tierer_config \<Rightarrow> object \<Rightarrow> time \<Rightarrow> bool" where
  "unmodified_since c obj now \<longleftrightarrow>
     LastModified obj \<le> truncate_time now Hour + hours_duration (- LowWindowHours (T_Policy c))"

text \<open>
  What justifies a mutation in a run from tick \<open>i\<close> to tick \<open>j\<close> on the server \<open>srv\<close>: a time read in
  between at which the object was cold, or hot.
\<close>

definition justified ::
    "('s \<Rightarrow> string \<Rightarrow> rvalue option) \<Rightarrow> (string \<Rightarrow> time \<Rightarrow> string) \<Rightarrow> environment \<Rightarrow> tierer_config \<Rightarrow> nat \<Rightarrow> nat \<Rightarrow> 's \<Rightarrow>
     'e event \<Rightarrow> bool" where
  "justified val fmt env c i j srv ev =
     (case ev of
        CallApplyMarker obj plan r \<Rightarrow>
          \<exists>n listed. i \<le> n \<and> n \<le> j \<and> cold_at val fmt c srv obj (env_clock env n) \<and>
            SameIdentity listed obj \<and> unmodified_since c listed (env_clock env n)
      | CallRestore obj days r \<Rightarrow> \<exists>n. i \<le> n \<and> n \<le> j \<and> hot_at val c srv obj (env_clock env n)
      | _ \<Rightarrow> True)"

lemma justified_mono: "justified val fmt env c i j srv ev \<Longrightarrow> i' \<le> i \<Longrightarrow> j \<le> j' \<Longrightarrow> justified val fmt env c i' j' srv ev"
  by (cases ev) (auto simp: justified_def intro: le_trans)

lemma access_count_cong: "Bucket o1 = Bucket o2 \<Longrightarrow> Name o1 = Name o2 \<Longrightarrow> access_count val srv inst o1 h = access_count val srv inst o2 h"
  by (simp add: access_count_def)

lemma cold_at_cong: "Bucket o1 = Bucket o2 \<Longrightarrow> Name o1 = Name o2 \<Longrightarrow> cold_at val fmt c srv o1 now = cold_at val fmt c srv o2 now"
  by (simp add: cold_at_def window_total_def access_count_cong [of o1 o2])

lemma hot_at_cong: "Bucket o1 = Bucket o2 \<Longrightarrow> Name o1 = Name o2 \<Longrightarrow> hot_at val c srv o1 now = hot_at val c srv o2 now"
  by (simp add: hot_at_def window_total_def access_count_cong [of o1 o2])

lemma tierer_store_fields [simp]:
  "instance_id (tierer_store c) = T_InstanceID c" "coverageTemplate (tierer_store c) = T_CoverageTemplate c"
  "coverageEnabled (tierer_store c) = T_CoverageEnabled c"
  by (simp_all add: tierer_store_def NewRedisStore_def)

lemma tierer_scanner_policy [simp]: "Policy (config (tierer_scanner sdk fmt codec cmds env digest c)) = T_Policy c"
  by (simp add: tierer_scanner_def NewScanner_def scanner_settings_def)

text \<open>The keys of the coverage markers are not the tierer's own.\<close>

definition coverage_apart :: "(string \<Rightarrow> time \<Rightarrow> string) \<Rightarrow> tierer_config \<Rightarrow> bool" where
  "coverage_apart fmt c \<longleftrightarrow> (T_CoverageEnabled c \<longrightarrow>
     (\<forall>h. \<not> own_key (tierer_store c) (fmt (T_CoverageTemplate c) h)))"

lemma justified_same:
  assumes "same_elsewhere val (tierer_store c) srv srv'" and "coverage_apart fmt c"
  shows "justified val fmt env c i j srv' ev = justified val fmt env c i j srv ev"
proof -
  have count: "access_count val srv' (T_InstanceID c) obj h = access_count val srv (T_InstanceID c) obj h" for obj h
    using access_count_same [OF assms(1)] by simp
  have "covered_hour val fmt (tierer_store c) srv' h = covered_hour val fmt (tierer_store c) srv h" for h
    using assms by (auto simp: covered_hour_def same_elsewhere_def coverage_apart_def)
  then show ?thesis by (cases ev) (simp_all add: justified_def cold_at_def hot_at_def window_total_def count)
qed

lemma truncate_hour_again: "truncate_time (truncate_time t Hour) Hour = truncate_time t Hour"
  by (simp add: truncate_hour hour_slot_def)

text \<open>A stat answers under the name it was asked for.\<close>

lemma scanner_stat_named:
  assumes "\<And>m b k info m'. StatObject sdk m b k = (Inr info, m') \<Longrightarrow> InfoKey info = k \<or> InfoKey info = []"
    and "inv_stat (deps (tierer_scanner sdk fmt codec cmds env digest c)) w lobj = (Inr obj, w')"
  shows "Bucket obj = Bucket lobj \<and> Name obj = Name lobj"
proof -
  obtain r m' where stat: "Stat sdk (w_minio w) lobj = (r, m')" by fastforce
  moreover have "r = Inr obj" using assms(2) stat by (cases r) (auto simp: tierer_deps_def on_minio_def)
  ultimately show ?thesis
    using assms(1) [of "w_minio w" "Bucket lobj" "Name lobj"]
    by (cases "StatObject sdk (w_minio w) (Bucket lobj) (Name lobj)")
      (auto simp: Stat_def Let_def objectFromInfo_def split: prod.splits sum.splits if_splits)
qed

section \<open>The run follows the usage\<close>

locale judging_scanner = wired_scanner redis val expiry clock ks sdk fmt codec env digest c
  for redis :: "'a redis" and val expiry clock ks and sdk :: "'m minio_sdk" and fmt codec env digest c +
  assumes stat_names: "StatObject sdk m b k = (Inr info, m') \<Longrightarrow> InfoKey info = k \<or> InfoKey info = []"
    and coverage_keys: "coverage_apart fmt c"
begin

lemma stat_named:
  "inv_stat (deps (tierer_scanner sdk fmt codec (lua_commands redis ks) env digest c)) w lobj = (Inr obj, w') \<Longrightarrow>
     Bucket obj = Bucket lobj \<and> Name obj = Name lobj"
  by (rule scanner_stat_named) (rule stat_names)

lemma judged_usage:
  assumes "judged (tierer_scanner sdk fmt codec (lua_commands redis ks) env digest c) objs w now lobj res"
  shows "now = env_clock env (w_tick w)"
    and "Low res \<Longrightarrow> cold_at val fmt c (t_server (w_conn w)) lobj now \<and> unmodified_since c lobj now"
    and "High res \<Longrightarrow> hot_at val c (t_server (w_conn w)) lobj now"
proof -
  let ?s = "tierer_scanner sdk fmt codec (lua_commands redis ks) env digest c"
  let ?n = "access_count val (t_server (w_conn w)) (T_InstanceID c)"
  obtain w0 hour lows highs usage cov w1 u where now: "clock_now (deps ?s) w = (now, w0)"
    and win: "chunk_windows ?s now hour lows highs" and read: "use_read (deps ?s) w0 objs lows highs = (Inr (usage, cov), w1)"
    and u: "(lobj, u) \<in> set (zip objs usage)"
    and ev: "Evaluate \<lparr>EvalHour = hour, EvalLastModified = LastModified lobj, LowCounts = UsageLow u,
        LowCoverage = cov, HighCounts = UsageHigh u\<rparr> (T_Policy c) = Inr res"
    using assms by (auto simp: judged_def)
  show "now = env_clock env (w_tick w)" using now by (simp add: tierer_deps_def)
  have conn: "w_conn w0 = w_conn w" using now by (auto simp: tierer_deps_def)
  obtain x cn where x: "ReadChunk fmt (lua_commands redis ks) (tierer_store c) (w_conn w) objs lows highs = (x, cn)" by fastforce
  have "x = Inr (usage, cov)" using read x conn by (cases x) (auto simp: tierer_deps_def on_redis_def)
  from ReadChunk_counts(2) [OF x this]
  have usage: "usage = map (\<lambda>obj. \<lparr>UsageLow = map (\<lambda>h. int (?n obj h)) lows, UsageHigh = map (\<lambda>h. int (?n obj h)) highs\<rparr>) objs"
    and cov: "cov = map (covered_hour val fmt (tierer_store c) (t_server (w_conn w))) lows" by simp_all
  note verdict = verdict_counts [OF ev usage u]
  have hour: "hour = truncate_time now Hour" "HourWindow hour (LowWindowHours (T_Policy c)) False = Inr lows"
    "HourWindow hour (HighWindowHours (T_Policy c)) (HighIncludeCurrent (T_Policy c)) = Inr highs"
    using win by (auto simp: chunk_windows_def)
  show "Low res \<Longrightarrow> cold_at val fmt c (t_server (w_conn w)) lobj now \<and> unmodified_since c lobj now"
    using verdict(1) hour by (auto simp: cold_at_def window_total_def unmodified_since_def cov list_all_iff truncate_hour_again)
  show "High res \<Longrightarrow> hot_at val c (t_server (w_conn w)) lobj now"
    using verdict(2) hour by (auto simp: hot_at_def window_total_def)
qed

lemma judged_justifies:
  assumes own: "writes_own val (tierer_store c) s0 s1" and mut: "mutation ev"
    and "judged (tierer_scanner sdk fmt codec (lua_commands redis ks) env digest c) objs (world s0) now lobj res"
    and h: "handled_with (tierer_scanner sdk fmt codec (lua_commands redis ks) env digest c) now lobj res ev"
  shows "justified val fmt env c (w_tick (world s0)) (w_tick (world s1)) (t_server (w_conn (world s0))) ev"
proof -
  note usage = judged_usage [OF assms(3)]
  have ticks: "w_tick (world s0) \<le> w_tick (world s1)" using own by (simp add: writes_own_def)
  show ?thesis
  proof (cases "marker_event ev")
    case True
    then obtain obj plan r where ev: "ev = CallApplyMarker obj plan r" by (auto simp: marker_event_def split: event.splits)
    note h = handled_with_mutation(1) [OF h [unfolded ev]]
    then have "Bucket obj = Bucket lobj" "Name obj = Name lobj" using stat_named by blast+
    then have "cold_at val fmt c (t_server (w_conn (world s0))) obj now"
      "SameIdentity lobj obj" "unmodified_since c lobj now"
      using h usage(2) by (simp_all add: cold_at_cong [of obj lobj])
    with usage(1) ticks show ?thesis
      unfolding justified_def ev event.case by (intro exI [of _ "w_tick (world s0)"] exI [of _ lobj]) simp
  next
    case False
    then obtain obj days out where ev: "ev = CallRestore obj days out"
      using mut by (auto simp: mutation_def restore_event_def split: event.splits)
    note h = handled_with_mutation(2) [OF h [unfolded ev]]
    then have "Bucket obj = Bucket lobj" "Name obj = Name lobj" using stat_named by blast+
    then have "hot_at val c (t_server (w_conn (world s0))) obj now"
      using h usage(3) by (simp add: hot_at_cong [of obj lobj])
    with usage(1) ticks show ?thesis
      unfolding justified_def ev event.case by (intro exI [of _ "w_tick (world s0)"]) simp
  qed
qed

end

sublocale judging_scanner \<subseteq> following: justified_law "tierer_scanner sdk fmt codec (lua_commands redis ks) env digest c"
  "writes_own val (tierer_store c)"
  "\<lambda>s0 s1. justified val fmt env c (w_tick (world s0)) (w_tick (world s1)) (t_server (w_conn (world s0)))"
proof
  fix ev :: "dep_error event" and a s0 s1 b :: "(('m, 'a tierer_conn) tier_world, dep_error) scan"
  assume W: "writes_own val (tierer_store c) a s0" "writes_own val (tierer_store c) s1 b"
    and just: "justified val fmt env c (w_tick (world s0)) (w_tick (world s1)) (t_server (w_conn (world s0))) ev"
  have "justified val fmt env c (w_tick (world s0)) (w_tick (world s1)) (t_server (w_conn (world s0))) ev
      = justified val fmt env c (w_tick (world s0)) (w_tick (world s1)) (t_server (w_conn (world a))) ev"
    by (rule justified_same [OF _ coverage_keys]) (use W(1) in \<open>simp add: writes_own_def\<close>)
  then show "justified val fmt env c (w_tick (world a)) (w_tick (world b)) (t_server (w_conn (world a))) ev"
    using W just by (auto simp: writes_own_def elim: justified_mono)
qed (rule judged_justifies)

context judging_scanner
begin

lemma run_mutations:
  assumes evs: "evs = run_events (tierer_scanner sdk fmt codec (lua_commands redis ks) env digest c) rounds st"
  shows "CallApplyMarker obj plan r \<in> set evs \<Longrightarrow>
      \<exists>n listed. w_tick (world st) \<le> n \<and> cold_at val fmt c (t_server (w_conn (world st))) obj (env_clock env n) \<and>
        SameIdentity listed obj \<and> unmodified_since c listed (env_clock env n)"
    and "CallRestore obj days out \<in> set evs \<Longrightarrow>
      \<exists>n. w_tick (world st) \<le> n \<and> hot_at val c (t_server (w_conn (world st))) obj (env_clock env n)"
  unfolding evs
  by (drule following.run_justified; fastforce simp: justified_def mutation_def event_kinds)+

end

lemma window_below:
  assumes "\<exists>n hs. W n hs \<and> int (\<Sum>h\<leftarrow>hs. f h) < t" and "\<And>h. g h \<le> (f h :: nat)"
  shows "\<exists>n hs. W n hs \<and> int (\<Sum>h\<leftarrow>hs. g h) < t"
proof -
  have "(\<Sum>h\<leftarrow>hs. g h) \<le> (\<Sum>h\<leftarrow>hs. f h)" for hs using assms(2) by (intro sum_list_mono)
  with assms(1) show ?thesis by (meson le_less_trans of_nat_le_iff)
qed

lemma window_above:
  assumes "\<exists>n hs. W n hs \<and> t < int (\<Sum>h\<leftarrow>hs. f h)" and "\<And>h. f h \<le> (g h :: nat)"
  shows "\<exists>n hs. W n hs \<and> t < int (\<Sum>h\<leftarrow>hs. g h)"
proof -
  have "(\<Sum>h\<leftarrow>hs. f h) \<le> (\<Sum>h\<leftarrow>hs. g h)" for hs using assms(2) by (intro sum_list_mono)
  with assms(1) show ?thesis by (meson less_le_trans of_nat_le_iff)
qed

section \<open>Properties\<close>


text \<open>From an acknowledged access to the tier of an object: feed any run of the updater's batcher by its handler, then
  run the tierer of the same instance on the Redis server this leaves. An object is marked only if
  at a time the clock showed the accesses to it that were acknowledged, over the hours of the
  low window, together with what the counters held before, are fewer than the threshold: an object
  in use is never marked. It is restored only if the accesses over the high window that were
  acknowledged or left in doubt, together with what the counters held before, exceed the
  other threshold.\<close>

theorem acknowledged_use_decides_tier:
  assumes "framed_server redis val expiry clock ks"
    and "LoadConfig_updater frac lookup = Inr ucfg" and "\<forall>incs. mset (order incs) = mset incs"
    and "reachable (Apply (lua_client redis)) (batcher_settings ucfg) c0 b"
    and "\<forall>job\<in>set (accepted b). arrival_in_time ucfg (clock (server (conn c0))) (arrivals (job_id job)) \<and>
      ingested ucfg order (arrivals (job_id job)) job"
    and "\<forall>m b k info m'. StatObject sdk m b k = (Inr info, m') \<longrightarrow> InfoKey info = k \<or> InfoKey info = []"
    and "coverage_apart fmt c" and "T_InstanceID c = U_InstanceID ucfg"
    and "t_server (w_conn (world st)) = server (conn (backend b))"
    and "evs = run_events (tierer_scanner sdk fmt codec (lua_commands redis ks) env digest c) rounds st"
    and "before = access_count val (server (conn c0)) (U_InstanceID ucfg) obj"
  shows "(CallApplyMarker obj plan r \<in> set evs \<longrightarrow>
      (\<exists>n lows. HourWindow (truncate_time (env_clock env n) Hour) (LowWindowHours (T_Policy c)) False = Inr lows \<and>
        int (\<Sum>h\<leftarrow>lows. before h + reported ucfg acknowledged_answer arrivals b obj h) < LowThreshold (T_Policy c))) \<and>
    (CallRestore obj days out \<in> set evs \<longrightarrow>
      (\<exists>n highs. HourWindow (truncate_time (env_clock env n) Hour) (HighWindowHours (T_Policy c))
          (HighIncludeCurrent (T_Policy c)) = Inr highs \<and>
        HighThreshold (T_Policy c) < int (\<Sum>h\<leftarrow>highs. before h + reported ucfg acknowledged_answer arrivals b obj h
          + reported ucfg uncertain_answer arrivals b obj h)))"
proof -
  have scanner: "judging_scanner redis val expiry clock ks sdk fmt c"
    using assms(1,6,7) by (auto simp: judging_scanner_def wired_scanner_def judging_scanner_axioms_def)
  have "redis_server redis val expiry clock"
    using assms(1) by (simp add: framed_server_def keyspace_server_def)
  note counts = counters_match_arrivals [OF this LoadConfig_updater_valid [OF assms(2)] assms(3-5), of obj]
  let ?now = "access_count val (t_server (w_conn (world st))) (T_InstanceID c) obj"
  have lower: "before h + reported ucfg acknowledged_answer arrivals b obj h \<le> ?now h"
    and upper: "?now h \<le> before h + reported ucfg acknowledged_answer arrivals b obj h
          + reported ucfg uncertain_answer arrivals b obj h" for h
    using counts by (simp_all add: assms(8,9,11))
  note run = judging_scanner.run_mutations [OF scanner assms(10), unfolded cold_at_def hot_at_def window_total_def]
  show ?thesis
  proof (intro conjI impI)
    assume "CallApplyMarker obj plan r \<in> set evs"
    then have "\<exists>n hs. HourWindow (truncate_time (env_clock env n) Hour) (LowWindowHours (T_Policy c)) False = Inr hs \<and>
        int (\<Sum>h\<leftarrow>hs. ?now h) < LowThreshold (T_Policy c)" using run(1) by blast
    then show "\<exists>n lows. HourWindow (truncate_time (env_clock env n) Hour) (LowWindowHours (T_Policy c)) False = Inr lows \<and>
        int (\<Sum>h\<leftarrow>lows. before h + reported ucfg acknowledged_answer arrivals b obj h) < LowThreshold (T_Policy c)"
      by (rule window_below) (rule lower)
  next
    assume "CallRestore obj days out \<in> set evs"
    then have "\<exists>n hs. HourWindow (truncate_time (env_clock env n) Hour) (HighWindowHours (T_Policy c))
          (HighIncludeCurrent (T_Policy c)) = Inr hs \<and> HighThreshold (T_Policy c) < int (\<Sum>h\<leftarrow>hs. ?now h)"
      using run(2) by blast
    then show "\<exists>n highs. HourWindow (truncate_time (env_clock env n) Hour) (HighWindowHours (T_Policy c))
          (HighIncludeCurrent (T_Policy c)) = Inr highs \<and>
        HighThreshold (T_Policy c) < int (\<Sum>h\<leftarrow>highs. before h + reported ucfg acknowledged_answer arrivals b obj h
          + reported ucfg uncertain_answer arrivals b obj h)"
      by (rule window_above) (rule upper)
  qed
qed

text \<open>
  The server the updater's run left, with two accesses to \<open>o\<close> acknowledged in the first hour, and a tierer
  that scans \<open>o\<close> and \<open>q\<close> two hours later: it marks \<open>q\<close>.
\<close>

definition second_hour :: environment where
  "second_hour = demo_environment\<lparr>env_clock := \<lambda>n. 2 * Hour\<rparr>"

definition used_server :: "((mem_objects, mem_state tierer_conn) tier_world, dep_error) scan" where
  "used_server = \<lparr>world = \<lparr>w_minio = \<lparr>mo_listing = [(''b'', cold_info ''o''), (''b'', cold_info ''q'')], mo_tags = (\<lambda>_. [])\<rparr>,
     w_conn = \<lparr>t_server = server (conn (backend live_run)), t_faults = []\<rparr>, w_tick = 0\<rparr>, trace = []\<rparr>"

definition small_run :: "dep_error event list" where
  "small_run = run_events (tierer_scanner mem_minio (format_layout demo_go) demo_codec
     (lua_commands mem_redis mem_keyspace) second_hour demo_digest small_config) [(True, True)] used_server"

lemma small_run_marks: "\<exists>obj plan r. CallApplyMarker obj plan r \<in> set small_run \<and> Name obj = ''q''"
proof -
  have "list_ex (\<lambda>ev. case ev of CallApplyMarker obj plan r \<Rightarrow> Name obj = ''q'' | _ \<Rightarrow> False) small_run" by code_simp
  then obtain ev where "ev \<in> set small_run" "case ev of CallApplyMarker obj plan r \<Rightarrow> Name obj = ''q'' | _ \<Rightarrow> False"
    unfolding list_ex_iff by blast
  then show ?thesis by (cases ev rule: event.exhaust) auto
qed

lemma mem_minio_stat_names: "\<forall>m b k info m'. StatObject mem_minio m b k = (Inr info, m') \<longrightarrow> InfoKey info = k \<or> InfoKey info = []"
  by (auto simp: mem_minio_def mem_stat_def split: option.splits list.splits dest!: filter_eq_ConsD)

lemma small_coverage: "coverage_apart fmt small_config"
  by (simp add: coverage_apart_def small_config_def)

interpretation mem_judging: judging_scanner mem_redis mem_val mem_expiry mem_clock mem_keyspace
  mem_minio fmt codec env digest small_config for fmt codec env digest
  using mem_minio_stat_names small_coverage by unfold_locales blast+


theorem acknowledged_use_decides_tier_witness:
  "(\<exists>obj plan r. CallApplyMarker obj plan r \<in> set small_run \<and> Name obj = ''q'') \<and>
   \<not> (\<exists>obj plan r. CallApplyMarker obj plan r \<in> set small_run \<and> Bucket obj = ''b'' \<and> Name obj = ''o'')"
proof -
  have order: "\<forall>incs. mset ((\<lambda>incs. incs) incs) = mset (incs :: increment list)" by simp
  have inst: "T_InstanceID small_config = U_InstanceID live_config" by (simp add: small_config_def live_config_def)
  have srv: "t_server (w_conn (world used_server)) = server (conn (backend live_run))" by (simp add: used_server_def)
  have window: "HourWindow (truncate_time (env_clock second_hour n) Hour) (LowWindowHours (T_Policy small_config)) False
      = Inr [0, Hour]" for n by code_simp
  have "CallApplyMarker obj plan r \<notin> set small_run" if obj: "Bucket obj = ''b''" "Name obj = ''o''" for obj plan r
  proof
    assume "CallApplyMarker obj plan r \<in> set small_run"
    then have "\<exists>n lows. HourWindow (truncate_time (env_clock second_hour n) Hour) (LowWindowHours (T_Policy small_config)) False = Inr lows \<and>
        int (\<Sum>h\<leftarrow>lows. access_count mem_val (server (conn one_store)) (U_InstanceID live_config) obj h
          + reported live_config acknowledged_answer (\<lambda>_. live_arrival) live_run obj h) < LowThreshold (T_Policy small_config)"
      by (rule acknowledged_use_decides_tier [OF mem_framed.framed_server_axioms live_loads order live_run_reachable live_jobs
        mem_minio_stat_names small_coverage inst srv small_run_def refl, THEN conjunct1, rule_format])
    then have "int (reported live_config acknowledged_answer (\<lambda>_. live_arrival) live_run obj 0) < LowThreshold (T_Policy small_config)"
      by (auto simp: window)
    then show False using live_reported [OF obj] by (simp add: small_config_def)
  qed
  with small_run_marks show ?thesis by blast
qed

end
