(* ===== verification/Concurrent_Use.thy ===== *)
theory Concurrent_Use
  imports Tiering_Safety
begin

text \<open>
  Both services at once: while the tierer scans, the updater goes on adding to the counters. Between
  two commands of the tierer any number of the updater's flushes may reach the server, each the
  \<open>Apply\<close> of a batch over a connection of its own, with its own faults. A mutation is still justified
  by the use of the object: what was counted before the run, and at most what the flushes during
  the run add to it.
\<close>

section \<open>The shared server\<close>

record updater_flush =
  uf_loaded :: bool
  uf_faults :: "fault list"
  uf_batch :: "increment list"

definition flush_on :: "'s redis \<Rightarrow> 's \<Rightarrow> updater_flush \<Rightarrow> 's" where
  "flush_on redis srv f =
     server (conn (snd (Apply (lua_client redis)
       (NewStore \<lparr>server = srv, loaded = uf_loaded f, faults = uf_faults f\<rparr>) (uf_batch f))))"

text \<open>The tierer's connection, and what the updater flushes before each of its next commands.\<close>

record 's shared_conn =
  sh_conn :: "'s tierer_conn"
  sh_turns :: "updater_flush list list"

definition updater_turn :: "'s redis \<Rightarrow> 's shared_conn \<Rightarrow> 's shared_conn" where
  "updater_turn redis c =
     (case sh_turns c of [] \<Rightarrow> c
      | fs # turns \<Rightarrow> \<lparr>sh_conn = (sh_conn c)\<lparr>t_server := foldl (flush_on redis) (t_server (sh_conn c)) fs\<rparr>, sh_turns = turns\<rparr>)"

definition in_turn ::
    "'s redis \<Rightarrow> ('s tierer_conn \<Rightarrow> 'r \<times> 's tierer_conn) \<Rightarrow> 's shared_conn \<Rightarrow> 'r \<times> 's shared_conn" where
  "in_turn redis f c =
     (let c1 = updater_turn redis c in case f (sh_conn c1) of (r, tc) \<Rightarrow> (r, c1\<lparr>sh_conn := tc\<rparr>))"

definition shared_commands :: "'s redis \<Rightarrow> 's keyspace \<Rightarrow> 's shared_conn redis_commands" where
  "shared_commands redis ks =
     \<lparr>EvalScript = (\<lambda>c scr keys args. in_turn redis (\<lambda>tc. EvalScript (lua_commands redis ks) tc scr keys args) c),
      GetKey = (\<lambda>c key. in_turn redis (\<lambda>tc. GetKey (lua_commands redis ks) tc key) c),
      SetKey = (\<lambda>c key v. in_turn redis (\<lambda>tc. SetKey (lua_commands redis ks) tc key v) c),
      DelKey = (\<lambda>c key. in_turn redis (\<lambda>tc. DelKey (lua_commands redis ks) tc key) c)\<rparr>"

section \<open>The use of an object\<close>

text \<open>What flushes add for an object and an hour; what is counted, and what can be by the end.\<close>

definition sent :: "string \<Rightarrow> updater_flush list \<Rightarrow> object \<Rightarrow> time \<Rightarrow> nat" where
  "sent inst fs obj h =
     (case AccessKey inst (Bucket obj) (Name obj) h of
        Inl _ \<Rightarrow> 0 | Inr key \<Rightarrow> (\<Sum>f\<leftarrow>fs. delta_of (uf_batch f) key))"

definition use_now ::
    "('s \<Rightarrow> string \<Rightarrow> rvalue option) \<Rightarrow> string \<Rightarrow> 's shared_conn \<Rightarrow> object \<Rightarrow> time \<Rightarrow> nat" where
  "use_now val inst c obj h = access_count val (t_server (sh_conn c)) inst obj h"

definition use_limit ::
    "('s \<Rightarrow> string \<Rightarrow> rvalue option) \<Rightarrow> string \<Rightarrow> 's shared_conn \<Rightarrow> object \<Rightarrow> time \<Rightarrow> nat" where
  "use_limit val inst c obj h = use_now val inst c obj h + sent inst (concat (sh_turns c)) obj h"

text \<open>The flushes to come carry expiries the server accepts.\<close>

definition turns_in_time :: "('s \<Rightarrow> int) \<Rightarrow> 's shared_conn \<Rightarrow> bool" where
  "turns_in_time clock c \<longleftrightarrow>
     (\<forall>f\<in>set (concat (sh_turns c)). batch_in_range (clock (t_server (sh_conn c))) (uf_batch f))"

definition shares ::
    "('s \<Rightarrow> int) \<Rightarrow> ('s \<Rightarrow> string \<Rightarrow> rvalue option) \<Rightarrow> string \<Rightarrow> 's shared_conn \<Rightarrow> 's shared_conn \<Rightarrow> bool" where
  "shares clock val inst c c' \<longleftrightarrow>
     (turns_in_time clock c \<longrightarrow> turns_in_time clock c' \<and>
        (\<forall>obj h. use_now val inst c obj h \<le> use_now val inst c' obj h \<and>
           use_limit val inst c' obj h \<le> use_limit val inst c obj h))"

lemma shares_refl [simp]: "shares clock val inst c c"
  by (simp add: shares_def)

lemma shares_trans: "shares clock val inst c c1 \<Longrightarrow> shares clock val inst c1 c2 \<Longrightarrow> shares clock val inst c c2"
  by (meson order_trans shares_def)

lemma sent_simps [simp]:
  "sent inst [] obj h = 0" "sent inst (fs @ gs) obj h = sent inst fs obj h + sent inst gs obj h"
  by (simp_all add: sent_def split: sum.splits)

text \<open>A command of the tierer that keeps the clock and writes only its own keys.\<close>

definition own_command ::
    "('s \<Rightarrow> int) \<Rightarrow> ('s \<Rightarrow> string \<Rightarrow> rvalue option) \<Rightarrow> redis_store \<Rightarrow> ('s tierer_conn \<Rightarrow> 'r \<times> 's tierer_conn) \<Rightarrow> bool" where
  "own_command clock val st f \<longleftrightarrow>
     (\<forall>tc r tc'. f tc = (r, tc') \<longrightarrow>
        clock (t_server tc') = clock (t_server tc) \<and> same_elsewhere val st (t_server tc) (t_server tc'))"

text \<open>The server's time stands still while a script runs.\<close>

locale steady_server = framed_server +
  assumes incrby_clock: "r_incrby redis s k d = Inr (n, s') \<Longrightarrow> clock s' = clock s"
    and expireat_clock: "r_expireat redis s k t = Inr s' \<Longrightarrow> clock s' = clock s"

interpretation mem_steady: steady_server mem_redis mem_val mem_expiry mem_clock mem_keyspace
  by unfold_locales (auto simp: mem_redis_def mem_incrby_def mem_expireat_def split: option.splits rvalue.splits if_splits)

context steady_server
begin

lemma flush_on_counts:
  assumes "batch_in_range (clock srv) (uf_batch f)"
  shows "clock (flush_on redis srv f) = clock srv"
    and "counter_at val srv k \<le> counter_at val (flush_on redis srv f) k"
    and "counter_at val (flush_on redis srv f) k \<le> counter_at val srv k + delta_of (uf_batch f) k"
proof -
  let ?st = "NewStore \<lparr>server = srv, loaded = uf_loaded f, faults = uf_faults f\<rparr>"
  obtain res st' where run: "Apply (lua_client redis) ?st (uf_batch f) = (res, st')" by fastforce
  have "server (conn ?st) = srv" by (simp add: NewStore_def)
  with Apply_outcome [OF run] assms have "server (conn st') = srv \<or> applied val expiry clock srv (uf_batch f) (server (conn st'))"
    by (auto split: option.splits)
  then show "clock (flush_on redis srv f) = clock srv"
    and "counter_at val srv k \<le> counter_at val (flush_on redis srv f) k"
    and "counter_at val (flush_on redis srv f) k \<le> counter_at val srv k + delta_of (uf_batch f) k"
    by (auto simp: flush_on_def run applied_def)
qed

lemma flushes_count:
  "\<forall>f\<in>set fs. batch_in_range (clock srv) (uf_batch f) \<Longrightarrow>
     clock (foldl (flush_on redis) srv fs) = clock srv \<and>
     counter_at val srv k \<le> counter_at val (foldl (flush_on redis) srv fs) k \<and>
     counter_at val (foldl (flush_on redis) srv fs) k \<le> counter_at val srv k + (\<Sum>f\<leftarrow>fs. delta_of (uf_batch f) k)"
proof (induction fs arbitrary: srv)
  case (Cons f fs)
  then have "batch_in_range (clock srv) (uf_batch f)" by simp
  note first = flush_on_counts [OF this]
  have "\<forall>g\<in>set fs. batch_in_range (clock (flush_on redis srv f)) (uf_batch g)"
    using Cons.prems first(1) by simp
  from Cons.IH [OF this] first(1) first(2,3) [of k] show ?case by simp
qed simp

lemma updater_turn_shares: "shares clock val inst c (updater_turn redis c)"
proof (cases "sh_turns c")
  case (Cons fs turns)
  let ?srv = "t_server (sh_conn c)"
  have "turns_in_time clock (updater_turn redis c) \<and>
      use_now val inst c obj h \<le> use_now val inst (updater_turn redis c) obj h \<and>
      use_limit val inst (updater_turn redis c) obj h \<le> use_limit val inst c obj h" if "turns_in_time clock c" for obj h
  proof -
    have range: "\<forall>f\<in>set fs. batch_in_range (clock ?srv) (uf_batch f)"
      and rest: "\<forall>f\<in>set (concat turns). batch_in_range (clock ?srv) (uf_batch f)"
      using that Cons by (auto simp: turns_in_time_def)
    note count = flushes_count [OF range]
    have "turns_in_time clock (updater_turn redis c)"
      using rest count by (simp add: turns_in_time_def updater_turn_def Cons)
    moreover have "access_count val ?srv inst obj h \<le> access_count val (foldl (flush_on redis) ?srv fs) inst obj h"
      "access_count val (foldl (flush_on redis) ?srv fs) inst obj h \<le> access_count val ?srv inst obj h + sent inst fs obj h"
      using count by (auto simp: access_count_def sent_def split: sum.splits)
    ultimately show ?thesis by (simp add: use_now_def use_limit_def updater_turn_def Cons)
  qed
  then show ?thesis by (simp add: shares_def)
qed (simp add: updater_turn_def)

lemma own_command_shares:
  assumes "f (sh_conn c) = (r, tc)" and "own_command clock val st f" and "inst = instance_id st"
  shows "shares clock val inst c (c\<lparr>sh_conn := tc\<rparr>)"
proof -
  have keep: "clock (t_server tc) = clock (t_server (sh_conn c))" "same_elsewhere val st (t_server (sh_conn c)) (t_server tc)"
    using assms(1,2) by (auto simp: own_command_def)
  have "use_now val inst (c\<lparr>sh_conn := tc\<rparr>) obj h = use_now val inst c obj h" for obj h
    using access_count_same [OF keep(2)] assms(3) by (simp add: use_now_def)
  then show ?thesis using keep(1) by (simp add: shares_def use_limit_def turns_in_time_def)
qed

lemma in_turn_shares:
  assumes "in_turn redis f c = (r, c')" and "own_command clock val st f" and "inst = instance_id st"
  shows "shares clock val inst c c'"
proof -
  obtain tc where f: "f (sh_conn (updater_turn redis c)) = (r, tc)"
    and c': "c' = (updater_turn redis c)\<lparr>sh_conn := tc\<rparr>"
    using assms(1) by (auto simp: in_turn_def Let_def split: prod.splits)
  from shares_trans [OF updater_turn_shares own_command_shares [OF f assms(2,3)]] show ?thesis by (simp add: c')
qed

end

section \<open>The store's operations on the shared server\<close>

lemma Reserve_shared:
  "Reserve (shared_commands redis ks) st c now kind limit bytes = (r, c') \<Longrightarrow>
     c' = c \<or> in_turn redis (\<lambda>tc. Reserve (lua_commands redis ks) st tc now kind limit bytes) c = (r, c')"
  by (auto simp: Reserve_def shared_commands_def in_turn_def Let_def split: if_splits prod.splits sum.splits)

lemma cursor_shared:
  "SaveCursor codec (shared_commands redis ks) st c scope cur = (e, c') \<Longrightarrow>
     c' = c \<or> in_turn redis (\<lambda>tc. SaveCursor codec (lua_commands redis ks) st tc scope cur) c = (e, c')"
  "ResetCursor (shared_commands redis ks) st c scope = (e, c') \<Longrightarrow>
     c' = c \<or> in_turn redis (\<lambda>tc. ResetCursor (lua_commands redis ks) st tc scope) c = (e, c')"
  "LoadCursor codec (shared_commands redis ks) st c scope = (ld, c') \<Longrightarrow>
     c' = c \<or> in_turn redis (\<lambda>tc. LoadCursor codec (lua_commands redis ks) st tc scope) c = (ld, c')"
  by (auto simp: SaveCursor_def ResetCursor_def LoadCursor_def shared_commands_def in_turn_def Let_def
      split: if_splits prod.splits sum.splits option.splits get_result.splits)

lemma eval_array_shared:
  "eval_array (shared_commands redis ks) c scr keys = in_turn redis (\<lambda>tc. eval_array (lua_commands redis ks) tc scr keys) c"
  by (auto simp: eval_array_def shared_commands_def in_turn_def Let_def split: prod.splits sum.splits)

text \<open>A chunk's read takes its counts in one command and the coverage in a second.\<close>

lemma ReadChunk_parts:
  assumes "ReadChunk fmt cmds st c objs lows highs = (res, c')"
  shows "c' = c \<or> (\<exists>keys vs c1. traverse (object_keys st lows highs) objs = Inr keys \<and>
    eval_array cmds c ReadUnsignedStrings (concat keys) = (vs, c1) \<and>
    (c' = c1 \<or> (\<exists>cov. ReadCoverage fmt cmds st c1 lows = (cov, c'))))"
  using assms by (auto simp: ReadChunk_def split: if_splits prod.splits sum.splits)

lemma ReadCoverage_parts:
  assumes "ReadCoverage fmt cmds st c hours = (res, c')"
  shows "c' = c \<or> (\<exists>keys vs. eval_array cmds c ReadOptionalStrings keys = (vs, c'))"
  using assms by (fastforce simp: ReadCoverage_def split: if_splits prod.splits sum.splits)

text \<open>The counts are those of the same read without coverage, on the server of the first command.\<close>

lemma ReadChunk_usage:
  assumes "ReadChunk fmt (shared_commands redis ks) st c objs lows highs = (Inr (usage, cov), c')"
  shows "\<exists>tc. ReadChunk fmt (lua_commands redis ks) (st\<lparr>coverageEnabled := False\<rparr>) (sh_conn (updater_turn redis c))
    objs lows highs = (Inr (usage, map (\<lambda>_. True) lows), tc)"
proof -
  have keys: "object_keys (st\<lparr>coverageEnabled := False\<rparr>) lows highs = object_keys st lows highs"
    by (simp add: object_keys_def fun_eq_iff)
  show ?thesis
    using assms
    by (auto simp: ReadChunk_def keys eval_array_shared in_turn_def Let_def ReadCoverage_def [of _ "lua_commands redis ks"]
        split: if_splits prod.splits sum.splits)
qed

context steady_server
begin

lemma incr_then_expire_clock:
  "incr_then_expire redis s k d t = (r, s') \<Longrightarrow> clock s' = clock s"
  using incrby_clock [of s k d] expireat_clock [of _ k t s']
  by (fastforce simp: incr_then_expire_def split: sum.splits prod.splits)

lemma reserve_script_clock:
  "reserve_script redis k1 k2 al bl d t s = (r, s') \<Longrightarrow> clock s' = clock s"
  by (auto simp: reserve_script_def split: option.splits if_splits prod.splits sum.splits
      dest!: incr_then_expire_clock)

lemma own_command_Reserve:
  "own_command clock val st (\<lambda>tc. Reserve (lua_commands redis ks) st tc now kind limit bytes)"
proof -
  have "clock (t_server tc') = clock (t_server tc)"
    if run: "Reserve (lua_commands redis ks) st tc now kind limit bytes = (res, tc')" for tc res tc'
  proof -
    consider "tc' = tc" | k1 k2 al bl d e ev where "EvalScript (lua_commands redis ks) tc ReserveBudget [k1, k2] [al, bl, d, e] = (ev, tc')"
      using run by (auto simp: Reserve_def Let_def split: if_splits prod.splits sum.splits)
    then show ?thesis
    proof cases
      case 2
      obtain rep s1 where script: "reserve_script redis k1 k2 (format_int al) (format_int bl) (format_int d) (format_int e)
          (t_server tc) = (rep, s1)" by fastforce
      then have "lua_run redis ReserveBudget [k1, k2] [al, bl, d, e] (t_server tc) = (rep, s1)"
        by (simp add: lua_run_def)
      from eval_cases [OF 2 this] reserve_script_clock [OF script] show ?thesis by auto
    qed simp
  qed
  then show ?thesis using Reserve_frame by (auto simp: own_command_def)
qed

lemma same_elsewhere_refl [simp]: "same_elsewhere val st s s"
  by (simp add: same_elsewhere_def)

lemma own_command_cursor:
  "own_command clock val st (\<lambda>tc. SaveCursor codec (lua_commands redis ks) st tc scope cur)"
  "own_command clock val st (\<lambda>tc. ResetCursor (lua_commands redis ks) st tc scope)"
  "own_command clock val st (\<lambda>tc. LoadCursor codec (lua_commands redis ks) st tc scope)"
  using cursor_frame cursor_keeps_budget(1) LoadCursor_server
  unfolding own_command_def by (blast, blast, force)

lemma own_command_eval:
  "scr \<noteq> ReserveBudget \<Longrightarrow> own_command clock val st (\<lambda>tc. eval_array (lua_commands redis ks) tc scr keys)"
  using eval_array_server unfolding own_command_def by force

lemma eval_array_shares:
  fixes st :: redis_store
  shows "eval_array (shared_commands redis ks) c scr keys = (r, c') \<Longrightarrow> scr \<noteq> ReserveBudget \<Longrightarrow> shares clock val (instance_id st) c c'"
  using in_turn_shares [OF _ own_command_eval refl] unfolding eval_array_shared by blast

lemma Reserve_shares:
  "Reserve (shared_commands redis ks) st c now kind limit bytes = (r, c') \<Longrightarrow> shares clock val (instance_id st) c c'"
  using Reserve_shared in_turn_shares [OF _ own_command_Reserve refl] by (metis shares_refl)

lemma cursor_shares:
  "SaveCursor codec (shared_commands redis ks) st c scope cur = (e, c') \<Longrightarrow> shares clock val (instance_id st) c c'"
  "ResetCursor (shared_commands redis ks) st c scope = (e, c') \<Longrightarrow> shares clock val (instance_id st) c c'"
  "LoadCursor codec (shared_commands redis ks) st c scope = (ld, c') \<Longrightarrow> shares clock val (instance_id st) c c'"
  using cursor_shared in_turn_shares [OF _ own_command_cursor(1) refl] in_turn_shares [OF _ own_command_cursor(2) refl]
    in_turn_shares [OF _ own_command_cursor(3) refl]
  by (metis shares_refl)+

lemma ReadChunk_shares:
  assumes "ReadChunk fmt (shared_commands redis ks) st c objs lows highs = (res, c')"
  shows "shares clock val (instance_id st) c c'"
  using ReadChunk_parts [OF assms] ReadCoverage_parts eval_array_shares shares_trans
  by (metis script.distinct(3,5) shares_refl)

text \<open>What a chunk read is the use of its objects at a moment after the chunk began.\<close>

lemma ReadChunk_moment:
  assumes "ReadChunk fmt (shared_commands redis ks) st c objs lows highs = (Inr (usage, cov), c')"
  shows "\<exists>c1. shares clock val (instance_id st) c c1 \<and> usage = map (\<lambda>obj.
    \<lparr>UsageLow = map (\<lambda>h. int (use_now val (instance_id st) c1 obj h)) lows,
     UsageHigh = map (\<lambda>h. int (use_now val (instance_id st) c1 obj h)) highs\<rparr>) objs"
proof -
  obtain tc where "ReadChunk fmt (lua_commands redis ks) (st\<lparr>coverageEnabled := False\<rparr>) (sh_conn (updater_turn redis c))
    objs lows highs = (Inr (usage, map (\<lambda>_. True) lows), tc)"
    using ReadChunk_usage [OF assms] by blast
  from ReadChunk_counts(2) [OF this refl] updater_turn_shares
  show ?thesis by (intro exI [of _ "updater_turn redis c"]) (simp add: use_now_def)
qed

end

section \<open>A run on the shared server\<close>

definition shares_run ::
    "('s \<Rightarrow> int) \<Rightarrow> ('s \<Rightarrow> string \<Rightarrow> rvalue option) \<Rightarrow> string \<Rightarrow>
     (('m, 's shared_conn) tier_world, 'e) scan \<Rightarrow> (('m, 's shared_conn) tier_world, 'e) scan \<Rightarrow> bool" where
  "shares_run clock val inst s0 s1 \<longleftrightarrow> shares clock val inst (w_conn (world s0)) (w_conn (world s1))"

lemma shares_run_conn: "w_conn (world s1) = w_conn (world s0) \<Longrightarrow> shares_run clock val inst s0 s1"
  by (simp add: shares_run_def)

text \<open>
  The reason for a mutation: a time the clock showed, and a window in which the object was used less
  than the threshold when the run began, or can have been used more by its end.
\<close>

definition used_less ::
    "('s \<Rightarrow> string \<Rightarrow> rvalue option) \<Rightarrow> environment \<Rightarrow> tierer_config \<Rightarrow> 's shared_conn \<Rightarrow> object \<Rightarrow> bool" where
  "used_less val env c cn obj \<longleftrightarrow>
     (\<exists>n lows. HourWindow (truncate_time (env_clock env n) Hour) (LowWindowHours (T_Policy c)) False = Inr lows \<and>
        int (\<Sum>h\<leftarrow>lows. use_now val (T_InstanceID c) cn obj h) < LowThreshold (T_Policy c))"

definition used_more ::
    "('s \<Rightarrow> string \<Rightarrow> rvalue option) \<Rightarrow> environment \<Rightarrow> tierer_config \<Rightarrow> 's shared_conn \<Rightarrow> object \<Rightarrow> bool" where
  "used_more val env c cn obj \<longleftrightarrow>
     (\<exists>n highs. HourWindow (truncate_time (env_clock env n) Hour) (HighWindowHours (T_Policy c))
          (HighIncludeCurrent (T_Policy c)) = Inr highs \<and>
        HighThreshold (T_Policy c) < int (\<Sum>h\<leftarrow>highs. use_limit val (T_InstanceID c) cn obj h))"

definition reasoned ::
    "('s \<Rightarrow> int) \<Rightarrow> ('s \<Rightarrow> string \<Rightarrow> rvalue option) \<Rightarrow> environment \<Rightarrow> tierer_config \<Rightarrow> 's shared_conn \<Rightarrow> 'e event \<Rightarrow> bool" where
  "reasoned clock val env c cn ev \<longleftrightarrow> (turns_in_time clock cn \<longrightarrow>
     (case ev of CallApplyMarker obj plan r \<Rightarrow> used_less val env c cn obj
      | CallRestore obj days r \<Rightarrow> used_more val env c cn obj
      | _ \<Rightarrow> True))"

lemma used_earlier:
  assumes "shares clock val (T_InstanceID c) cn cn'" and "turns_in_time clock cn"
  shows "used_less val env c cn' obj \<Longrightarrow> used_less val env c cn obj"
    and "used_more val env c cn' obj \<Longrightarrow> used_more val env c cn obj"
  using assms window_below [where f = "use_now val (T_InstanceID c) cn' obj" and g = "use_now val (T_InstanceID c) cn obj"
      and W = "\<lambda>n hs. HourWindow (truncate_time (env_clock env n) Hour) (LowWindowHours (T_Policy c)) False = Inr hs"
      and t = "LowThreshold (T_Policy c)"]
    window_above [where f = "use_limit val (T_InstanceID c) cn' obj" and g = "use_limit val (T_InstanceID c) cn obj"
      and W = "\<lambda>n hs. HourWindow (truncate_time (env_clock env n) Hour) (HighWindowHours (T_Policy c)) (HighIncludeCurrent (T_Policy c)) = Inr hs"
      and t = "HighThreshold (T_Policy c)"]
  by (simp_all add: used_less_def used_more_def shares_def)

lemma reasoned_earlier:
  "shares clock val (T_InstanceID c) cn cn' \<Longrightarrow> reasoned clock val env c cn' ev \<Longrightarrow> reasoned clock val env c cn ev"
  using used_earlier [of clock val c cn cn' env]
  by (auto simp: reasoned_def shares_def split: event.splits)

lemma used_cong:
  assumes "Bucket o1 = Bucket o2" and "Name o1 = Name o2"
  shows "used_less val env c cn o1 = used_less val env c cn o2" and "used_more val env c cn o1 = used_more val env c cn o2"
proof -
  have "sent inst fs o1 = sent inst fs o2" for inst fs
    using assms by (simp add: sent_def fun_eq_iff)
  moreover have now: "use_now val inst cn o1 = use_now val inst cn o2" for inst
    unfolding use_now_def by (rule ext) (rule access_count_cong [OF assms])
  ultimately have "use_limit val inst cn o1 = use_limit val inst cn o2" for inst
    by (simp add: use_limit_def fun_eq_iff)
  with now show "used_less val env c cn o1 = used_less val env c cn o2" and "used_more val env c cn o1 = used_more val env c cn o2"
    by (simp_all add: used_less_def used_more_def)
qed

locale shared_scanner = steady_server redis val expiry clock ks
  for redis :: "'a redis" and val expiry clock ks +
  fixes sdk :: "'m minio_sdk" and fmt :: "string \<Rightarrow> time \<Rightarrow> string" and codec :: cursor_codec
    and env :: environment and digest :: "config_payload \<Rightarrow> string" and c :: tierer_config
  assumes stat_names: "StatObject sdk m b k = (Inr info, m') \<Longrightarrow> InfoKey info = k \<or> InfoKey info = []"

sublocale shared_scanner \<subseteq> sharing: call_law "tierer_scanner sdk fmt codec (shared_commands redis ks) env digest c"
  "shares_run clock val (T_InstanceID c)" "\<lambda>obj. True"
proof
  fix s0 s1 s2 :: "(('m, 'a shared_conn) tier_world, dep_error) scan" and w w1 w2 :: "('m, 'a shared_conn) tier_world"
  let ?s = "tierer_scanner sdk fmt codec (shared_commands redis ks) env digest c"
  let ?R = "shares_run clock val (T_InstanceID c)"
  note tier = tierer_deps_def on_minio_def on_redis_def
  note step = Reserve_shares [where st = "tierer_store c"] cursor_shares [where st = "tierer_store c"]
    ReadChunk_shares [where st = "tierer_store c"]
  note moved = step [unfolded tierer_store_fields]
  show "?R s0 s0" by (rule shares_run_conn) simp
  show "?R s0 s1 \<Longrightarrow> ?R s1 s2 \<Longrightarrow> ?R s0 s2" unfolding shares_run_def by (rule shares_trans)
  show "?R s0 (emit ev s0)" for ev by (rule shares_run_conn) simp
  show "?R s0 (s0\<lparr>world := w\<rparr>)" if "clock_now (deps ?s) (world s0) = (t, w)" for t
    using that by (intro shares_run_conn) (auto simp: tier)
  show "?R s0 (s0\<lparr>world := w\<rparr>)" if "inv_objects (deps ?s) (world s0) bucket start = (stream, w)" for bucket start stream
    using that by (intro shares_run_conn) (auto simp: tier split: prod.splits)
  show "?R s0 (s0\<lparr>world := w\<rparr>)" if "inv_buckets (deps ?s) (world s0) = (bs, w)" for bs
    using that by (intro shares_run_conn) (auto simp: tier split: prod.splits)
  show "?R s0 (s0\<lparr>world := w\<rparr>)" if "inv_plan (deps ?s) (world s0) obj k v = (r, w)" for obj k v r
    using that by (intro shares_run_conn) (auto simp: tier split: prod.splits)
  show "?R s0 (s0\<lparr>world := w\<rparr>)" if "st_load (deps ?s) (world s0) scope = (r, w)" for scope r
    using that by (auto simp: shares_run_def tier dest!: moved split: prod.splits)
  show "?R s0 (called (CallReadChunk objs) w s0)" if "use_read (deps ?s) (world s0) objs lows highs = (r, w)" for objs lows highs r
    using that by (auto simp: shares_run_def tier dest!: moved split: prod.splits)
  show "?R s0 (called (CallSaveCursor cur e) w s0)" if "st_save (deps ?s) (world s0) scope cur = (e, w)" for scope cur e
    using that by (auto simp: shares_run_def tier dest!: moved split: prod.splits)
  show "?R s0 (called (CallResetCursor e) w s0)" if "st_reset (deps ?s) (world s0) scope = (e, w)" for scope e
    using that by (auto simp: shares_run_def tier dest!: moved split: prod.splits)
  show "?R s0 (called (CallStat obj r) w s0)" if "inv_stat (deps ?s) (world s0) obj = (r, w)" for obj r
    using that by (intro shares_run_conn) (auto simp: tier split: prod.splits)
  show "?R s0 (called (CallApplyMarker obj plan r) w s0)" if "inv_apply (deps ?s) (world s0) obj plan = (r, w)" for obj plan r
    using that by (intro shares_run_conn) (auto simp: tier split: prod.splits)
  show "?R s0 (called (CallRestore obj days r) w s0)" if "inv_restore (deps ?s) (world s0) obj days = (r, w)" for obj days r
    using that by (intro shares_run_conn) (auto simp: tier split: prod.splits)
  show "?R s0 (called (CallReserve kind bytes res) w2 s0)"
    if "clock_now (deps ?s) (world s0) = (now, w1)"
      and "st_reserve (deps ?s) w1 now kind (kind_limit (config ?s) kind) bytes = (res, w2)" for kind bytes now res
    using that by (auto simp: shares_run_def tier dest!: moved split: prod.splits)
qed simp

context shared_scanner
begin

lemma stat_named:
  "inv_stat (deps (tierer_scanner sdk fmt codec (shared_commands redis ks) env digest c)) w lobj = (Inr obj, w') \<Longrightarrow>
     Bucket obj = Bucket lobj \<and> Name obj = Name lobj"
  by (rule scanner_stat_named) (rule stat_names)

lemma judged_reasons:
  assumes "judged (tierer_scanner sdk fmt codec (shared_commands redis ks) env digest c) objs w now lobj res"
    and "turns_in_time clock (w_conn w)"
  shows "Low res \<Longrightarrow> used_less val env c (w_conn w) lobj" and "High res \<Longrightarrow> used_more val env c (w_conn w) lobj"
proof -
  let ?s = "tierer_scanner sdk fmt codec (shared_commands redis ks) env digest c"
  obtain w0 hour lows highs usage cov w1 u where now: "clock_now (deps ?s) w = (now, w0)"
    and win: "chunk_windows ?s now hour lows highs" and read: "use_read (deps ?s) w0 objs lows highs = (Inr (usage, cov), w1)"
    and u: "(lobj, u) \<in> set (zip objs usage)"
    and ev: "Evaluate \<lparr>EvalHour = hour, EvalLastModified = LastModified lobj, LowCounts = UsageLow u,
        LowCoverage = cov, HighCounts = UsageHigh u\<rparr> (T_Policy c) = Inr res"
    using assms(1) by (auto simp: judged_def)
  have time: "now = env_clock env (w_tick w)" and conn: "w_conn w0 = w_conn w"
    using now by (auto simp: tierer_deps_def)
  obtain x cn where x: "ReadChunk fmt (shared_commands redis ks) (tierer_store c) (w_conn w) objs lows highs = (x, cn)" by fastforce
  have "x = Inr (usage, cov)" using read x conn by (cases x) (auto simp: tierer_deps_def on_redis_def)
  from ReadChunk_moment [OF x [unfolded this]] obtain c1 where moment: "shares clock val (T_InstanceID c) (w_conn w) c1"
    and usage: "usage = map (\<lambda>obj. \<lparr>UsageLow = map (\<lambda>h. int (use_now val (T_InstanceID c) c1 obj h)) lows,
        UsageHigh = map (\<lambda>h. int (use_now val (T_InstanceID c) c1 obj h)) highs\<rparr>) objs" by auto
  note verdict = verdict_counts [OF ev usage u]
  have hour: "HourWindow (truncate_time (env_clock env (w_tick w)) Hour) (LowWindowHours (T_Policy c)) False = Inr lows"
    "HourWindow (truncate_time (env_clock env (w_tick w)) Hour) (HighWindowHours (T_Policy c)) (HighIncludeCurrent (T_Policy c)) = Inr highs"
    using win by (auto simp: chunk_windows_def time)
  have "(\<Sum>h\<leftarrow>highs. use_now val (T_InstanceID c) c1 lobj h) \<le> (\<Sum>h\<leftarrow>highs. use_limit val (T_InstanceID c) c1 lobj h)"
    by (intro sum_list_mono) (simp add: use_limit_def)
  then have "Low res \<Longrightarrow> used_less val env c c1 lobj" "High res \<Longrightarrow> used_more val env c c1 lobj"
    using verdict hour by (fastforce simp: used_less_def used_more_def)+
  then show "Low res \<Longrightarrow> used_less val env c (w_conn w) lobj" and "High res \<Longrightarrow> used_more val env c (w_conn w) lobj"
    using used_earlier [OF moment assms(2)] by blast+
qed

lemma judged_reasoned:
  assumes "mutation ev" and "judged (tierer_scanner sdk fmt codec (shared_commands redis ks) env digest c) objs w now lobj res"
    and h: "handled_with (tierer_scanner sdk fmt codec (shared_commands redis ks) env digest c) now lobj res ev"
  shows "reasoned clock val env c (w_conn w) ev"
proof (cases "turns_in_time clock (w_conn w)")
  case True
  note why = judged_reasons [OF assms(2) True]
  show ?thesis
  proof (cases "marker_event ev")
    case True
    then obtain obj plan r where ev: "ev = CallApplyMarker obj plan r" by (auto simp: marker_event_def split: event.splits)
    note h = handled_with_mutation(1) [OF h [unfolded ev]]
    then have "Bucket obj = Bucket lobj" "Name obj = Name lobj" using stat_named by blast+
    from used_cong(1) [OF this, of val env c "w_conn w"] h why(1) show ?thesis by (simp add: reasoned_def ev)
  next
    case False
    then obtain obj days out where ev: "ev = CallRestore obj days out"
      using assms(1) by (auto simp: mutation_def restore_event_def split: event.splits)
    note h = handled_with_mutation(2) [OF h [unfolded ev]]
    then have "Bucket obj = Bucket lobj" "Name obj = Name lobj" using stat_named by blast+
    from used_cong(2) [OF this, of val env c "w_conn w"] h why(2) show ?thesis by (simp add: reasoned_def ev)
  qed
qed (simp add: reasoned_def)

end

sublocale shared_scanner \<subseteq> reasoning: justified_law "tierer_scanner sdk fmt codec (shared_commands redis ks) env digest c"
  "shares_run clock val (T_InstanceID c)" "\<lambda>s0 s1. reasoned clock val env c (w_conn (world s0))"
proof
  fix ev :: "dep_error event" and a s0 s1 b :: "(('m, 'a shared_conn) tier_world, dep_error) scan"
  show "reasoned clock val env c (w_conn (world a)) ev"
    if "shares_run clock val (T_InstanceID c) a s0" "reasoned clock val env c (w_conn (world s0)) ev"
    using that reasoned_earlier by (simp add: shares_run_def)
qed (rule judged_reasoned)

context shared_scanner
begin

lemma run_reasoned:
  assumes "evs = run_events (tierer_scanner sdk fmt codec (shared_commands redis ks) env digest c) rounds st"
    and "turns_in_time clock (w_conn (world st))"
  shows "CallApplyMarker obj plan r \<in> set evs \<Longrightarrow> used_less val env c (w_conn (world st)) obj"
    and "CallRestore obj days out \<in> set evs \<Longrightarrow> used_more val env c (w_conn (world st)) obj"
proof -
  have why: "reasoned clock val env c (w_conn (world st)) ev" if "ev \<in> set evs" "mutation ev" for ev
    using reasoning.run_justified that unfolding assms(1) by blast
  show "CallApplyMarker obj plan r \<in> set evs \<Longrightarrow> used_less val env c (w_conn (world st)) obj"
    and "CallRestore obj days out \<in> set evs \<Longrightarrow> used_more val env c (w_conn (world st)) obj"
    using why assms(2) by (fastforce simp: reasoned_def mutation_def event_kinds)+
qed

end

section \<open>Property\<close>


text \<open>
  The tierer scans \<open>o\<close>, with its two acknowledged accesses, and \<open>q\<close>; an access to \<open>q\<close> reaches the server
  before the chunk is read and another after it, both over connections that lose the reply. \<open>q\<close> is still
  marked, with one access read; \<open>o\<close> is not.
\<close>

definition late_flush :: updater_flush where
  "late_flush = \<lparr>uf_loaded = False, uf_faults = [ReplyLost],
     uf_batch = [\<lparr>Key = ''cwm-minio-tierer:v1:prod:access:1970:01:01:00:Yg:cQ'', Delta = 1, ExpireAt = 3601 * Second\<rparr>]\<rparr>"

definition shared_state :: "((mem_objects, mem_state shared_conn) tier_world, dep_error) scan" where
  "shared_state = \<lparr>world = \<lparr>w_minio = \<lparr>mo_listing = [(''b'', cold_info ''o''), (''b'', cold_info ''q'')], mo_tags = (\<lambda>_. [])\<rparr>,
     w_conn = \<lparr>sh_conn = \<lparr>t_server = server (conn (backend live_run)), t_faults = []\<rparr>,
       sh_turns = [[], [late_flush], [late_flush]]\<rparr>, w_tick = 0\<rparr>, trace = []\<rparr>"

definition shared_run :: "dep_error event list" where
  "shared_run = run_events (tierer_scanner mem_minio (format_layout demo_go) demo_codec
     (shared_commands mem_redis mem_keyspace) second_hour demo_digest small_config) [(True, True)] shared_state"

lemma shared_run_marks: "\<exists>obj plan r. CallApplyMarker obj plan r \<in> set shared_run \<and> Name obj = ''q''"
proof -
  have "list_ex (\<lambda>ev. case ev of CallApplyMarker obj plan r \<Rightarrow> Name obj = ''q'' | _ \<Rightarrow> False) shared_run" by code_simp
  then obtain ev where "ev \<in> set shared_run" "case ev of CallApplyMarker obj plan r \<Rightarrow> Name obj = ''q'' | _ \<Rightarrow> False"
    unfolding list_ex_iff by blast
  then show ?thesis by (cases ev rule: event.exhaust) auto
qed

lemma shared_in_time: "turns_in_time mem_clock (w_conn (world shared_state))"
  by code_simp

interpretation mem_shared: shared_scanner mem_redis mem_val mem_expiry mem_clock mem_keyspace
  mem_minio fmt codec env digest c for fmt codec env digest c
  using mem_minio_stat_names by unfold_locales blast


end
