(* ===== verification/Batcher_Book.thy ===== *)
theory Batcher_Book
  imports Batcher_Counts
begin

text \<open>
  What the batcher promises its callers, as a book of the open requests: each is answered once, either
  with success and counted, or refused and not counted, or left in doubt and counted whole or not
  at all, or turned away after the stop. The queue, the pending batch, the limits, the timer, the
  cancellation and the goroutine's position are not in it. Every step of the batcher over the store
  is none, one or two steps of the book.
\<close>

section \<open>The book\<close>

datatype book_phase = Unopened | Opened | Closed

record book =
  requests :: "batch_job multiset"
  open_jobs :: "batch_job multiset"
  answers :: "(nat \<times> batch_error option) multiset"
  phase :: book_phase
  totals :: "string \<Rightarrow> nat"

definition new_book :: "(string \<Rightarrow> nat) \<Rightarrow> book" where
  "new_book counts = \<lparr>requests = {#}, open_jobs = {#}, answers = {#}, phase = Unopened, totals = counts\<rparr>"

text \<open>What a group of requests asks for under one key.\<close>

definition asked :: "batch_job multiset \<Rightarrow> string \<Rightarrow> nat" where
  "asked js k = (\<Sum>j\<in>#js. delta_of (Increments (request j)) k)"

text \<open>A group of open requests gets its one answer, and the counters become \<open>counts\<close>.\<close>

definition settle :: "batch_job multiset \<Rightarrow> batch_error option \<Rightarrow> (string \<Rightarrow> nat) \<Rightarrow> book \<Rightarrow> book" where
  "settle js answer counts bk =
     bk\<lparr>open_jobs := open_jobs bk - js,
       answers := answers bk + image_mset (\<lambda>j. (job_id j, answer)) js, totals := counts\<rparr>"

inductive book_step :: "book \<Rightarrow> book \<Rightarrow> bool" where
  opened: "phase bk = Unopened \<Longrightarrow> book_step bk (bk\<lparr>phase := Opened\<rparr>)"
| closed: "phase bk = Opened \<Longrightarrow> book_step bk (bk\<lparr>phase := Closed\<rparr>)"
| taken: "phase bk = Opened \<Longrightarrow> job_id job \<notin># image_mset job_id (requests bk) \<Longrightarrow>
     book_step bk (bk\<lparr>requests := add_mset job (requests bk), open_jobs := add_mset job (open_jobs bk)\<rparr>)"
| counted: "js \<subseteq># open_jobs bk \<Longrightarrow>
     book_step bk (settle js None (\<lambda>k. totals bk k + asked js k) bk)"
| refused: "js \<subseteq># open_jobs bk \<Longrightarrow> \<not> IsAmbiguous err \<Longrightarrow>
     book_step bk (settle js (Some (StoreFailure err)) (totals bk) bk)"
| doubtful: "js \<subseteq># open_jobs bk \<Longrightarrow> IsAmbiguous err \<Longrightarrow>
     counts = totals bk \<or> counts = (\<lambda>k. totals bk k + asked js k) \<Longrightarrow>
     book_step bk (settle js (Some (StoreFailure err)) counts bk)"
| turned_away: "js \<subseteq># open_jobs bk \<Longrightarrow> phase bk = Closed \<Longrightarrow>
     book_step bk (settle js (Some BatcherStopped) (totals bk) bk)"

section \<open>The book of a batcher\<close>

text \<open>\<open>js\<close> are the requests still open; in \<open>book_of\<close> those that are queued, in hand or pending.\<close>

definition book_with :: "('c \<Rightarrow> string \<Rightarrow> nat) \<Rightarrow> batch_job multiset \<Rightarrow> 'c batcher \<Rightarrow> book" where
  "book_with counter js b =
     \<lparr>requests = mset (accepted b), open_jobs = js, answers = mset (results b),
      phase = (if stop_closed b then Closed else if started b then Opened else Unopened),
      totals = counter (backend b)\<rparr>"

definition unanswered :: "'c batcher \<Rightarrow> batch_job multiset" where
  "unanswered b = mset (queue b) + mset (in_hand (pc b)) + mset (pending_jobs b)"

definition book_of :: "('c \<Rightarrow> string \<Rightarrow> nat) \<Rightarrow> 'c batcher \<Rightarrow> book" where
  "book_of counter b = book_with counter (unanswered b) b"

lemma book_with_fields [simp]:
  "requests (book_with counter js b) = mset (accepted b)" "open_jobs (book_with counter js b) = js" "answers (book_with counter js b) = mset (results b)"
  "totals (book_with counter js b) = counter (backend b)"
  by (simp_all add: book_with_def)

lemma book_with_same [simp]:
  "book_with counter js (b\<lparr>pc := p\<rparr>) = book_with counter js b"
  "book_with counter js (b\<lparr>queue := q\<rparr>) = book_with counter js b"
  "book_with counter js (b\<lparr>pending := pd\<rparr>) = book_with counter js b"
  "book_with counter js (dequeued b) = book_with counter js b"
  by (simp_all add: book_with_def)

lemma book_with_settle:
  assumes "results b' = results b @ map (\<lambda>j. (job_id j, answer)) js"
    and "accepted b' = accepted b" and "started b' = started b" and "stop_closed b' = stop_closed b"
  shows "book_with counter (open_js - mset js) b'
    = settle (mset js) answer (counter (backend b')) (book_with counter open_js b)"
  using assms by (simp add: book_with_def settle_def)

lemma pending_jobs_simps [simp]:
  "pending_jobs (b\<lparr>pc := p\<rparr>) = pending_jobs b" "pending_jobs (b\<lparr>queue := q\<rparr>) = pending_jobs b"
  "pending_jobs (dequeued b) = pending_jobs b" "pending_jobs (b\<lparr>pending := None\<rparr>) = []"
  "pending_jobs (b\<lparr>pending := Some batch\<rparr>) = jobs batch"
  by (simp_all add: pending_jobs_def)

text \<open>Requests that the store can count: those of a batch within its limits, exact and in time.\<close>

definition countable :: "(time \<Rightarrow> bool) \<Rightarrow> batch_job list \<Rightarrow> bool" where
  "countable in_time js \<longleftrightarrow> jobs_exact js \<and> jobs_in_time in_time (set js)"

lemma countable_simps [simp]:
  "countable T []" "countable T (js @ js') \<longleftrightarrow> countable T js \<and> countable T js'"
  "countable T (j # js) \<longleftrightarrow> exact_request (request j) \<and> (\<forall>i\<in>set (Increments (request j)). T (ExpireAt i)) \<and> countable T js"
  by (auto simp: countable_def jobs_exact_def jobs_in_time_def)

lemma countable_subset: "set js \<subseteq> set js' \<Longrightarrow> countable T js' \<Longrightarrow> countable T js"
  by (auto simp: countable_def jobs_exact_def jobs_in_time_def)

lemma asked_mset: "asked (mset js) k = (\<Sum>j\<leftarrow>js. delta_of (Increments (request j)) k)"
  by (simp add: asked_def sum_mset_sum_list flip: mset_map)

section \<open>A flush settles its requests\<close>

context timed_store
begin

lemma flush_accepted:
  assumes "batch_ok config batch" and "countable (in_time (backend b)) (jobs batch)"
  shows "accepts (backend b) (batch_increments batch)"
proof (rule accepts_in_time)
  have "batch = batch_of (jobs batch)" using assms(1) by (simp add: batch_ok_def)
  then show "in_time (backend b) (ExpireAt i)" if "i \<in> set (batch_increments batch)" for i
    using batch_times [of "jobs batch" "in_time (backend b)" i] assms(2) that
    unfolding countable_def jobs_in_time_def by metis
qed

lemma flush_in_time:
  assumes "batch_ok config batch" and "countable (in_time (backend b)) (jobs batch)"
  shows "in_time (backend (flush apply_batch batch b)) = in_time (backend b)"
  using in_time_stable [OF flush_accepted [OF assms]] by (metis flush_fields(13) prod.collapse)

lemma flush_settles:
  assumes "config_ok config" and "batch_ok config batch" and "countable (in_time (backend b)) (jobs batch)"
    and "mset (jobs batch) \<subseteq># js"
  shows "book_step (book_with counter js b)
    (book_with counter (js - mset (jobs batch)) (flush apply_batch batch b))"
proof -
  obtain err c' where run: "apply_batch (backend b) (batch_increments batch) = (err, c')" by fastforce
  have exact: "jobs_exact (jobs batch)" using assms(3) by (simp add: countable_def)
  note acc = flush_accepted [OF assms(2,3)]
  have res: "results (flush apply_batch batch b) = results b @ map (\<lambda>j. (job_id j, map_option StoreFailure err)) (jobs batch)"
    using run by (simp add: flush_def)
  note settled = book_with_settle [OF res flush_fields(10) flush_fields(4) flush_fields(2), of counter js]
  note bk = book_with_fields [of counter js b]
  have sub: "mset (jobs batch) \<subseteq># open_jobs (book_with counter js b)" using assms(4) by simp
  show ?thesis
  proof (cases err)
    case None
    then have "counter (backend (flush apply_batch batch b)) = (\<lambda>k. counter (backend b) k + asked (mset (jobs batch)) k)"
      using flush_acknowledged(1) [OF assms(1,2) exact acc] run by (simp add: asked_mset fun_eq_iff)
    with book_step.counted [OF sub] None show ?thesis by (simp add: settled)
  next
    case (Some e)
    note failed = flush_failed(2,3) [OF assms(1,2) exact acc run [unfolded Some]]
    show ?thesis
    proof (cases "IsAmbiguous e")
      case False
      with book_step.refused [OF sub False] failed(1) Some show ?thesis by (simp add: settled)
    next
      case True
      have "counter (backend (flush apply_batch batch b)) = totals (book_with counter js b) \<or>
          counter (backend (flush apply_batch batch b)) = (\<lambda>k. totals (book_with counter js b) k + asked (mset (jobs batch)) k)"
        using failed(2) by (simp add: asked_mset)
      from book_step.doubtful [OF sub True this] Some show ?thesis by (simp add: settled)
    qed
  qed
qed

lemma flush_if_full_settles:
  assumes "config_ok config" and "batch_ok config batch" and "countable (in_time (backend b)) (jobs batch)"
    and "js = mset (jobs batch) + rest"
  shows "book_step\<^sup>*\<^sup>* (book_with counter js b)
    (book_with counter (mset (pending_jobs (flush_if_full apply_batch config batch b)) + rest)
       (flush_if_full apply_batch config batch b))"
proof (cases "full batch config")
  case True
  then show ?thesis
    using flush_settles [OF assms(1-3), of js] assms(4) by (simp add: flush_if_full_def)
next
  case False
  then show ?thesis using assms(4) by (simp add: flush_if_full_def)
qed

lemma take_job_settles:
  assumes "config_ok config" and "store_ok config b" and "validateRequest config (request job) = Inr ()"
    and "countable (in_time (backend b)) (job # pending_jobs b)"
    and "js = mset (pending_jobs b) + {#job#} + rest"
  shows "book_step\<^sup>*\<^sup>* (book_with counter js b)
    (book_with counter (mset (pending_jobs (take_job apply_batch config job b)) + rest) (take_job apply_batch config job b))"
proof -
  note new = batch_ok_new [OF assms(1,3)]
  have one: "countable (in_time (backend b)) [job]" "countable (in_time (backend b)) (pending_jobs b)"
    using assms(4) by simp_all
  show ?thesis
  proof (cases "pending b")
    case None
    then show ?thesis
      using flush_if_full_settles [OF assms(1) new, of b js rest] one assms(5)
      by (simp add: take_job_def pending_jobs_def)
  next
    case (Some batch)
    then have batch: "batch_ok config batch" "pending_jobs b = jobs batch"
      using assms(2) by (simp_all add: store_ok_def pending_jobs_def)
    show ?thesis
    proof (cases "canAdd batch job config")
      case True
      then show ?thesis
        using flush_if_full_settles [OF assms(1) batch_ok_add [OF assms(1) batch(1) assms(3) True], of b js rest]
          Some one batch(2) assms(5) by (simp add: take_job_def)
    next
      case False
      have count: "countable (in_time (backend b)) (jobs batch)" using one(2) batch(2) by simp
      let ?b1 = "flush apply_batch batch b"
      have "book_step (book_with counter js b) (book_with counter ({#job#} + rest) ?b1)"
        using flush_settles [OF assms(1) batch(1) count, of js] assms(5) batch(2) by simp
      moreover have "countable (in_time (backend ?b1)) [job]"
        unfolding flush_in_time [OF batch(1) count] by (rule one(1))
      ultimately show ?thesis
        using flush_if_full_settles [OF assms(1) new, of ?b1 "{#job#} + rest" rest] Some False
        by (simp add: take_job_def converse_rtranclp_into_rtranclp)
    qed
  qed
qed

lemma flush_pending_settles:
  assumes "config_ok config" and "store_ok config b" and "countable (in_time (backend b)) (pending_jobs b)"
    and "js = mset (pending_jobs b) + rest"
  shows "book_step\<^sup>*\<^sup>* (book_with counter js b) (book_with counter rest (flush_pending apply_batch b))"
proof (cases "pending b")
  case (Some batch)
  then have "batch_ok config batch" "pending_jobs b = jobs batch"
    using assms(2) by (simp_all add: store_ok_def pending_jobs_def)
  then show ?thesis
    using flush_settles [OF assms(1), of batch b js] assms(3,4) Some by (simp add: flush_pending_def)
qed (use assms(4) in \<open>simp add: flush_pending_def pending_jobs_def\<close>)

end
section \<open>Every step keeps the book\<close>

text \<open>A step that answers nobody leaves the book, and one that turns requests away is a step after the stop.\<close>

lemma book_of_receive:
  assumes "in_hand (pc b) = []" and "\<And>job. in_hand (got job) = [job]"
  shows "book_of counter (receive got b) = book_of counter b"
  using assms by (cases "queue b") (simp_all add: book_of_def unanswered_def receive_def)

lemma book_of_pc: "in_hand p = in_hand (pc b) \<Longrightarrow> book_of counter (b\<lparr>pc := p\<rparr>) = book_of counter b"
  by (simp add: book_of_def unanswered_def)

lemma turn_away:
  assumes "results b' = results b @ map (\<lambda>j. (job_id j, Some BatcherStopped)) js"
    and "accepted b' = accepted b" and "started b' = started b" and "stop_closed b' = stop_closed b"
    and "backend b' = backend b"
    and "stop_closed b" and "unanswered b = mset js + unanswered b'"
  shows "book_step (book_of counter b) (book_of counter b')"
proof -
  have "mset js \<subseteq># open_jobs (book_of counter b)" "phase (book_of counter b) = Closed"
    using assms(6,7) by (simp_all add: book_of_def book_with_def)
  from book_step.turned_away [OF this] have "book_step (book_of counter b)
      (settle (mset js) (Some BatcherStopped) (counter (backend b')) (book_with counter (unanswered b) b))"
    by (simp add: book_of_def assms(5))
  then show ?thesis
    unfolding book_with_settle [OF assms(1-4), symmetric] by (simp add: book_of_def assms(7))
qed

lemma abort_keeps_book:
  assumes "in_hand (pc b) = []" and "stop_closed b"
  shows "book_step\<^sup>*\<^sup>* (book_of counter b) (book_of counter (abort b))"
proof (cases "pending b")
  case None
  then show ?thesis using assms(1) book_of_pc [of Aborting b counter] by (simp add: abort_def)
next
  case (Some batch)
  then have "book_step (book_of counter b) (book_of counter (abort b))"
    using assms by (intro turn_away [where js = "jobs batch"]) (simp_all add: abort_def unanswered_def pending_jobs_def)
  then show ?thesis by (rule r_into_rtranclp)
qed

lemma abort_handle_keeps_book:
  assumes "pc b = AbortGot job" and "stop_closed b"
  shows "book_step\<^sup>*\<^sup>* (book_of counter b) (book_of counter (abort_handle job b))"
proof (rule r_into_rtranclp, rule turn_away [where js = "[job]"])
qed (use assms in \<open>simp_all add: abort_handle_def unanswered_def pending_jobs_def\<close>)

text \<open>The calls.\<close>

lemma Submit_keeps_book:
  assumes "phases_ok b" and "job_id job \<notin> job_id ` set (accepted b)"
  shows "book_step\<^sup>*\<^sup>* (book_of counter b) (book_of counter (snd (Submit config job b)))"
proof (cases "fst (Submit config job b)")
  case None
  then have open_phase: "phase (book_of counter b) = Opened"
    and after: "book_of counter (snd (Submit config job b)) = (book_of counter b)\<lparr>
      requests := add_mset job (requests (book_of counter b)), open_jobs := add_mset job (open_jobs (book_of counter b))\<rparr>"
    using assms(1)
    by (auto simp: Submit_def Let_def phases_ok_def book_of_def book_with_def unanswered_def pending_jobs_def
        split: sum.splits if_splits)
  have "job_id job \<notin># image_mset job_id (requests (book_of counter b))" using assms(2) by (simp add: book_of_def)
  from book_step.taken [OF open_phase this] show ?thesis unfolding after by (rule r_into_rtranclp)
next
  case (Some err)
  then have "snd (Submit config job b) = b"
    by (auto simp: Submit_def Let_def split: sum.splits if_splits)
  then show ?thesis by simp
qed

lemma Start_keeps_book:
  assumes "phases_ok b"
  shows "book_step\<^sup>*\<^sup>* (book_of counter b) (book_of counter (Start b))"
proof (cases "started b")
  case False
  then have "phase (book_of counter b) = Unopened"
    and "book_of counter (Start b) = (book_of counter b)\<lparr>phase := Opened\<rparr>"
    using assms by (auto simp: Start_def phases_ok_def book_of_def book_with_def unanswered_def pending_jobs_def)
  then show ?thesis using book_step.opened by (metis r_into_rtranclp)
qed (simp add: Start_def)

lemma Stop_keeps_book: "book_step\<^sup>*\<^sup>* (book_of counter b) (book_of counter (Stop b))"
proof (cases "started b \<and> \<not> stop_closed b")
  case True
  then have "phase (book_of counter b) = Opened"
    and "book_of counter (Stop b) = (book_of counter b)\<lparr>phase := Closed\<rparr>"
    by (auto simp: Stop_def book_of_def book_with_def unanswered_def pending_jobs_def)
  then show ?thesis using book_step.closed by (metis r_into_rtranclp)
next
  case False
  then have "book_of counter (Stop b) = book_of counter b"
    by (auto simp: Stop_def book_of_def book_with_def unanswered_def pending_jobs_def)
  then show ?thesis by simp
qed

context timed_store
begin

lemma handle_keeps_book:
  assumes "config_ok config" and "limits_ok config b" and "in_hand (pc b) = [job]"
    and "countable (in_time (backend b)) (job # pending_jobs b)" and "in_hand p = []"
  shows "book_step\<^sup>*\<^sup>* (book_of counter b) (book_of counter ((take_job apply_batch config job (dequeued b))\<lparr>pc := p\<rparr>))"
proof -
  have "validateRequest config (request job) = Inr ()" "store_ok config (dequeued b)"
    using assms(2,3) by (auto simp: limits_ok_iff store_ok_def)
  with take_job_settles [OF assms(1), of "dequeued b" job "unanswered b" "mset (queue b)"] assms(3,4,5)
  show ?thesis by (simp add: book_of_def unanswered_def ac_simps)
qed

lemma goroutine_keeps_book:
  assumes "goroutine_step apply_batch config b b'" and "config_ok config" and "limits_ok config b" and "phases_ok b"
    and "countable (in_time (backend b)) (in_hand (pc b) @ pending_jobs b)"
  shows "book_step\<^sup>*\<^sup>* (book_of counter b) (book_of counter b')"
  using assms
proof (induction rule: goroutine_step.induct)
  case (run_handle b job)
  then show ?case unfolding run_handle_def by (intro handle_keeps_book) simp_all
next
  case (drain_handle b job)
  then show ?case unfolding drain_handle_def by (intro handle_keeps_book) simp_all
next
  case (run_timer b)
  then show ?case
    using flush_pending_settles [of config b "unanswered b" "mset (queue b)"]
    by (simp add: book_of_def unanswered_def limits_ok_iff ac_simps) (simp add: pending_jobs_def)
next
  case (drain_finish b)
  then show ?case
    using flush_pending_settles [of config b "unanswered b" "mset (queue b)"]
    by (simp add: book_of_def unanswered_def limits_ok_iff drain_finish_def ac_simps) (simp add: pending_jobs_def)
next
  case (run_abort b)
  then show ?case by (intro abort_keeps_book) (auto simp: phases_ok_def)
next
  case (drain_abort b)
  then show ?case by (intro abort_keeps_book) (auto simp: phases_ok_def)
next
  case (abort_handle b job)
  then show ?case by (intro abort_handle_keeps_book) (auto simp: phases_ok_def)
qed (simp_all add: book_of_receive book_of_pc)

lemma step_keeps_book:
  assumes "batcher_step apply_batch config b b'" and "config_ok config" and "batcher_inv config b"
    and "countable (in_time (backend b)) (in_hand (pc b) @ pending_jobs b)"
  shows "book_step\<^sup>*\<^sup>* (book_of counter b) (book_of counter b')"
  using assms(1)
proof (cases rule: batcher_step.cases)
  case cancel
  then show ?thesis
    by (simp add: CancelRun_def book_of_def book_with_def unanswered_def pending_jobs_def)
qed (use assms in \<open>auto simp: batcher_inv_def intro: Start_keeps_book Stop_keeps_book Submit_keeps_book goroutine_keeps_book\<close>)

lemma reachable_book:
  assumes "reachable apply_batch config c b" and "config_ok config" and "countable (in_time c) (accepted b)"
  shows "book_step\<^sup>*\<^sup>* (new_book (counter c)) (book_of counter b)"
  using assms
proof (induction rule: reachable.induct)
  case init
  have "book_of counter (NewBatcher c) = new_book (counter c)"
    by (simp add: NewBatcher_def book_of_def book_with_def unanswered_def pending_jobs_def new_book_def)
  then show ?case by simp
next
  case (step b b')
  have count: "countable (in_time c) (accepted b)"
    using step.prems(2) step_accepted [OF step(2)] by (rule countable_subset [rotated])
  have "counts_ok c b"
    using reachable_counts [OF step(1) step.prems(1)] count by (simp add: countable_def)
  then have time: "in_time (backend b) = in_time c" by (simp add: counts_ok_def)
  obtain ab where "ledger ab b" using reachable_ledger [OF step(1) step.prems(1)] by blast
  then have "countable (in_time (backend b)) (in_hand (pc b) @ pending_jobs b)"
    unfolding time using ledger_places(1) by (intro countable_subset [OF _ count]) auto
  from step_keeps_book [OF step(2) step.prems(1) reachable_inv [OF step(1) step.prems(1)] this]
    step.IH [OF step.prems(1) count]
  show ?case by (rule rtranclp_trans [rotated])
qed

end

context redis_server
begin

lemmas conn_book = ts.reachable_book

end

section \<open>What the book says\<close>

text \<open>
  \<open>rs\<close> are the answered requests with their answers. The requests of \<open>ds\<close>, among those left in doubt, were
  counted; all others in doubt were not.
\<close>

definition answered_with :: "(batch_error option \<Rightarrow> bool) \<Rightarrow> (batch_job \<times> batch_error option) multiset \<Rightarrow> batch_job multiset" where
  "answered_with Q rs = image_mset fst (filter_mset (\<lambda>(j, r). Q r) rs)"

definition book_sound ::
    "(string \<Rightarrow> nat) \<Rightarrow> (batch_job \<times> batch_error option) multiset \<Rightarrow> batch_job multiset \<Rightarrow> book \<Rightarrow> bool" where
  "book_sound start rs ds bk \<longleftrightarrow>
     requests bk = image_mset fst rs + open_jobs bk \<and>
     answers bk = image_mset (\<lambda>(j, r). (job_id j, r)) rs \<and>
     ds \<subseteq># answered_with uncertain_answer rs \<and>
     totals bk = (\<lambda>k. start k + asked (answered_with acknowledged_answer rs) k + asked ds k)"

lemma asked_simps [simp]: "asked {#} k = 0" "asked (js + js') k = asked js k + asked js' k"
  by (simp_all add: asked_def)

lemma answered_with_simps [simp]:
  "answered_with Q {#} = {#}"
  "answered_with Q (rs + image_mset (\<lambda>j. (j, r)) js) = answered_with Q rs + (if Q r then js else {#})"
  by (simp_all add: answered_with_def filter_mset_image_mset image_mset.compositionality comp_def)

lemma settle_sound:
  assumes "book_sound start rs ds bk" and "js \<subseteq># open_jobs bk"
    and "extra \<subseteq># (if uncertain_answer r then js else {#})"
    and "counts = (\<lambda>k. totals bk k + asked (if acknowledged_answer r then js else {#}) k + asked extra k)"
  shows "book_sound start (rs + image_mset (\<lambda>j. (j, r)) js) (ds + extra) (settle js r counts bk)"
proof -
  have "requests bk = image_mset fst (rs + image_mset (\<lambda>j. (j, r)) js) + (open_jobs bk - js)"
    using assms(1,2) by (simp add: book_sound_def image_mset.compositionality comp_def)
  moreover have "ds + extra \<subseteq># answered_with uncertain_answer (rs + image_mset (\<lambda>j. (j, r)) js)"
    using assms(1,3) by (auto simp: book_sound_def intro: subset_mset.add_mono)
  ultimately show ?thesis
    using assms(1,4) by (simp add: book_sound_def settle_def image_mset.compositionality comp_def fun_eq_iff)
qed

lemma answer_kinds [simp]:
  "acknowledged_answer None" "\<not> uncertain_answer None"
  "\<not> acknowledged_answer (Some e)" "uncertain_answer (Some (StoreFailure err)) = IsAmbiguous err"
  "\<not> uncertain_answer (Some BatcherStopped)"
  by (auto simp: acknowledged_answer_def uncertain_answer_def)

lemma book_step_sound: "book_step bk bk' \<Longrightarrow> book_sound start rs ds bk \<Longrightarrow> \<exists>rs' ds'. book_sound start rs' ds' bk'"
proof (induction rule: book_step.induct)
  case (counted js bk)
  from settle_sound [OF counted(2,1), where r = None and extra = "{#}"] show ?case by auto
next
  case (refused js bk err)
  from settle_sound [OF refused(3,1), where r = "Some (StoreFailure err)" and extra = "{#}"] refused(2) show ?case by auto
next
  case (doubtful js bk err counts)
  from settle_sound [OF doubtful(4,1), where r = "Some (StoreFailure err)" and extra = "{#}"]
    settle_sound [OF doubtful(4,1), where r = "Some (StoreFailure err)" and extra = js] doubtful(2,3)
  show ?case by fastforce
next
  case (turned_away js bk)
  from settle_sound [OF turned_away(3,1), where r = "Some BatcherStopped" and extra = "{#}"] show ?case by auto
qed (auto simp: book_sound_def intro!: exI)

lemma book_steps_sound:
  assumes "book_step\<^sup>*\<^sup>* (new_book start) bk"
  shows "\<exists>rs ds. book_sound start rs ds bk"
  using assms
proof (induction rule: rtranclp_induct)
  case base
  have "book_sound start {#} {#} (new_book start)" by (simp add: book_sound_def new_book_def)
  then show ?case by blast
next
  case (step bk bk')
  then show ?case using book_step_sound by blast
qed

text \<open>The requests answered so are those the batcher accepted and answered so.\<close>

lemma answered_jobs_book:
  assumes "jobs_accounted b" and "book_sound start rs ds (book_of counter b)"
  shows "mset (answered_jobs Q b) = answered_with Q rs"
proof -
  let ?hit = "\<lambda>j. list_ex (\<lambda>(i, r). i = job_id j \<and> Q r) (results b)"
  have all: "mset (accepted b) = image_mset fst rs + unanswered b"
    and res: "mset (results b) = image_mset (\<lambda>(j, r). (job_id j, r)) rs"
    using assms(2) by (simp_all add: book_sound_def book_of_def)
  have "\<not> ?hit j" if "j \<in># unanswered b" for j
  proof -
    have "job_id j \<notin> fst ` set (results b)"
      using results_distinct_places(2) [OF assms(1), of j] that by (auto simp: unanswered_def)
    then show ?thesis by (force simp: list_ex_iff)
  qed
  then have "filter_mset ?hit (unanswered b) = {#}" by (simp add: filter_mset_eq_mempty_iff)
  moreover have hit: "?hit j = Q r" if "(j, r) \<in># rs" for j r
  proof -
    have "(job_id j, r) \<in># mset (results b)" unfolding res using that by force
    then show ?thesis using answer_unique [OF results_distinct_places(1) [OF assms(1)]] by simp
  qed
  moreover have "filter_mset ?hit (image_mset fst rs) = image_mset fst (filter_mset (\<lambda>(j, r). Q r) rs)"
    using hit by (auto simp: filter_mset_image_mset intro!: arg_cong [where f = "image_mset fst"] filter_mset_cong)
  ultimately show ?thesis by (simp add: answered_jobs_def all answered_with_def)
qed

lemma requested_asked: "requested Q b k = asked (mset (answered_jobs Q b)) k"
  unfolding asked_mset requested_def answered_jobs_def ..

section \<open>Properties\<close>


text \<open>C7: Requests are counted whole: in every run of the batcher over a Redis server, whatever the connection loses, the
  counters stand exactly where they stood before plus every acknowledged request and some of
  those answered with an ambiguous store error, each with all its increments under all its keys.
  Nothing acknowledged is lost, nothing is counted twice or in part, and refused or aborted
  requests count nothing.\<close>

theorem requests_counted_whole:
  assumes "redis_server redis val expiry clock"
    and "reachable (Apply (lua_client redis)) config c b" and "config_ok config"
    and "jobs_exact (accepted b)" and "jobs_in_time (conn_in_time clock c) (set (accepted b))"
  shows "\<exists>doubtful. doubtful \<subseteq># mset (answered_jobs uncertain_answer b) \<and>
    (\<forall>k. conn_counter val (backend b) k
       = conn_counter val c k + requested acknowledged_answer b k + asked doubtful k)"
proof -
  have "book_step\<^sup>*\<^sup>* (new_book (conn_counter val c)) (book_of (conn_counter val) b)"
    using redis_server.conn_book [OF assms(1-3)] assms(4,5) by (simp add: countable_def)
  then obtain rs ds where sound: "book_sound (conn_counter val c) rs ds (book_of (conn_counter val) b)"
    using book_steps_sound by blast
  have "jobs_accounted b" using reachable_inv [OF assms(2,3)] by (simp add: batcher_inv_def)
  note jobs = answered_jobs_book [OF this sound]
  show ?thesis
    using sound unfolding requested_asked jobs
    by (intro exI [of _ ds]) (simp add: book_sound_def book_of_def)
qed


theorem requests_counted_whole_witness:
  "conn_counter mem_val (backend one_run) ''k'' = 1 \<and> requested acknowledged_answer one_run ''k'' = 1"
proof -
  have "answered_jobs uncertain_answer one_run = []"
    by (simp add: answered_jobs_def one_run_eval one_job_def uncertain_answer_def)
  moreover have "requested acknowledged_answer one_run ''k'' = 1"
    unfolding requested_def one_run_eval by (simp add: acknowledged_answer_def one_job_def delta_of_def)
  moreover have "conn_counter mem_val one_store ''k'' = 0" by (rule one_run_eval)
  ultimately show ?thesis
    using requests_counted_whole [OF mem.redis_server_axioms one_run_reachable one_run_fits] by auto
qed

end
