(* ===== verification/Updater_Metrics.thy ===== *)
theory Updater_Metrics
  imports Ingest
begin

text \<open>
  \<^verbatim>\<open>internal/updater/metrics.go\<close>: the collectors of the updater and what each call adds to them. A
  counter vector is the sum per label, a histogram the list of what was observed, a gauge the value
  last set; a timestamp gauge holds the time, the epoch at first. The registry and the exposition of \<^verbatim>\<open>/metrics\<close> belong to the
  Prometheus library. The last section relates them to the batcher and to the answers of the handlers.
\<close>

section \<open>The collectors\<close>

record updater_metrics =
  M_httpRequests :: "string \<Rightarrow> int"
  M_httpRecords :: "string \<Rightarrow> int"
  M_httpRejections :: "string \<Rightarrow> int"
  M_queueDepth :: int
  M_batchEvents :: "int list"
  M_batchUniqueKeys :: "int list"
  M_batchDuration :: "duration list"
  M_batchErrors :: int
  M_redisFailures :: int
  M_riskOverride :: "string \<Rightarrow> int"
  M_lastSuccessfulBatch :: time

definition boolFloat :: "bool \<Rightarrow> int" where
  "boolFloat value = (if value then 1 else 0)"

definition NewMetrics_updater :: "bool \<Rightarrow> bool \<Rightarrow> updater_metrics" where
  "NewMetrics_updater dataLossRisk duplicateRisk =
     \<lparr>M_httpRequests = (\<lambda>_. 0), M_httpRecords = (\<lambda>_. 0), M_httpRejections = (\<lambda>_. 0), M_queueDepth = 0,
      M_batchEvents = [], M_batchUniqueKeys = [], M_batchDuration = [], M_batchErrors = 0, M_redisFailures = 0,
      M_riskOverride = ((\<lambda>_. 0)(''data_loss'' := boolFloat dataLossRisk))(''duplicate'' := boolFloat duplicateRisk),
      M_lastSuccessfulBatch = 0\<rparr>"

definition SetQueueDepth :: "int \<Rightarrow> updater_metrics \<Rightarrow> updater_metrics" where
  "SetQueueDepth d m = m\<lparr>M_queueDepth := d\<rparr>"

definition ObserveRedisFailure :: "updater_metrics \<Rightarrow> updater_metrics" where
  "ObserveRedisFailure m = m\<lparr>M_redisFailures := M_redisFailures m + 1\<rparr>"

text \<open>\<open>now\<close> is the time \<^verbatim>\<open>SetToCurrentTime\<close> reads.\<close>

definition ObserveBatch :: "int \<Rightarrow> int \<Rightarrow> duration \<Rightarrow> apply_error option \<Rightarrow> time \<Rightarrow> updater_metrics \<Rightarrow> updater_metrics" where
  "ObserveBatch evs uniqueKeys latency err now m =
     (let m1 = m\<lparr>M_batchEvents := M_batchEvents m @ [evs], M_batchUniqueKeys := M_batchUniqueKeys m @ [uniqueKeys],
                 M_batchDuration := M_batchDuration m @ [latency]\<rparr>
      in if err \<noteq> None then ObserveRedisFailure (m1\<lparr>M_batchErrors := M_batchErrors m1 + 1\<rparr>)
         else m1\<lparr>M_lastSuccessfulBatch := now\<rparr>)"

definition ObserveHTTPResult :: "string \<Rightarrow> int \<Rightarrow> updater_metrics \<Rightarrow> updater_metrics" where
  "ObserveHTTPResult result records m =
     (let m1 = m\<lparr>M_httpRequests := (M_httpRequests m)(result := M_httpRequests m result + 1)\<rparr>
      in if records > 0 then m1\<lparr>M_httpRecords := (M_httpRecords m1)(result := M_httpRecords m1 result + records)\<rparr> else m1)"

definition ObserveRejection :: "string \<Rightarrow> updater_metrics \<Rightarrow> updater_metrics" where
  "ObserveRejection reason m = m\<lparr>M_httpRejections := (M_httpRejections m)(reason := M_httpRejections m reason + 1)\<rparr>"

text \<open>The calls the handlers make, and those the batcher makes through its observer.\<close>

fun record_event :: "updater_event \<Rightarrow> updater_metrics \<Rightarrow> updater_metrics" where
  "record_event (Rejection reason) m = ObserveRejection reason m"
| "record_event (HTTPResult result records) m = ObserveHTTPResult result records m"
| "record_event RedisFailureSeen m = ObserveRedisFailure m"

definition record_answer :: "answer \<Rightarrow> updater_metrics \<Rightarrow> updater_metrics" where
  "record_answer ans m = fold record_event (snd ans) m"

text \<open>The depths \<open>Submit\<close> and \<open>dequeued\<close> report through \<open>observeQueueDepth\<close>.\<close>

definition submit_depths :: "batcher_config \<Rightarrow> batch_job \<Rightarrow> 'c batcher \<Rightarrow> int list" where
  "submit_depths config job b =
     (if validateRequest config (request job) \<noteq> Inr () \<or> \<not> accepting b then []
      else if int (length (queue b)) < QueueSize config then [depth b + 1]
      else [depth b + 1, depth b])"

definition dequeued_depths :: "'c batcher \<Rightarrow> int list" where
  "dequeued_depths b = [depth b - 1]"

text \<open>What \<open>flush\<close> reports; \<open>lat\<close> and \<open>now\<close> give the latency and the time of the \<open>i\<close>th flush.\<close>

definition observe_flush ::
    "(nat \<Rightarrow> duration) \<Rightarrow> (nat \<Rightarrow> time) \<Rightarrow> nat \<times> pending_batch \<times> apply_error option \<Rightarrow> updater_metrics \<Rightarrow> updater_metrics" where
  "observe_flush lat now = (\<lambda>(i, batch, err) m.
     ObserveBatch (events batch) (int (length (batch_increments batch))) (lat i) err (now i) m)"

definition observed ::
    "(nat \<Rightarrow> duration) \<Rightarrow> (nat \<Rightarrow> time) \<Rightarrow> 'c batcher \<Rightarrow> updater_metrics \<Rightarrow> updater_metrics" where
  "observed lat now b m = fold (observe_flush lat now) (enumerate 0 (flushed b)) m"

lemma NewMetrics_fields [simp]:
  "M_httpRequests (NewMetrics_updater x y) = (\<lambda>_. 0)" "M_httpRecords (NewMetrics_updater x y) = (\<lambda>_. 0)"
  "M_httpRejections (NewMetrics_updater x y) = (\<lambda>_. 0)" "M_batchEvents (NewMetrics_updater x y) = []"
  "M_batchUniqueKeys (NewMetrics_updater x y) = []" "M_batchDuration (NewMetrics_updater x y) = []"
  "M_batchErrors (NewMetrics_updater x y) = 0" "M_redisFailures (NewMetrics_updater x y) = 0" "M_queueDepth (NewMetrics_updater x y) = 0"
  by (simp_all add: NewMetrics_updater_def)

section \<open>The queue depth\<close>

text \<open>The last depth reported is the depth of the batcher.\<close>

lemma reported_depth:
  "submit_depths config job b \<noteq> [] \<Longrightarrow> last (submit_depths config job b) = depth (snd (Submit config job b))"
  "submit_depths config job b = [] \<Longrightarrow> depth (snd (Submit config job b)) = depth b"
  "last (dequeued_depths b) = depth (dequeued b)"
  by (auto simp: submit_depths_def dequeued_depths_def Submit_def Let_def split: sum.splits)

section \<open>The batches\<close>

lemma observe_flush_fields:
  "M_batchEvents (observe_flush lat now (i, batch, err) m) = M_batchEvents m @ [events batch]"
  "M_batchUniqueKeys (observe_flush lat now (i, batch, err) m) = M_batchUniqueKeys m @ [int (length (batch_increments batch))]"
  "M_batchErrors (observe_flush lat now (i, batch, err) m) = M_batchErrors m + (if err = None then 0 else 1)"
  "M_redisFailures (observe_flush lat now (i, batch, err) m) = M_redisFailures m + (if err = None then 0 else 1)"
  by (simp_all add: observe_flush_def ObserveBatch_def ObserveRedisFailure_def Let_def)

definition failed_flushes :: "(pending_batch \<times> apply_error option) list \<Rightarrow> nat" where
  "failed_flushes fs = length (filter (\<lambda>(batch, err). err \<noteq> None) fs)"

lemma observed_fields:
  "M_batchEvents (observed lat now b m) = M_batchEvents m @ map (\<lambda>(batch, err). events batch) (flushed b)"
  "M_batchUniqueKeys (observed lat now b m) = M_batchUniqueKeys m @ map (\<lambda>(batch, err). int (length (increments batch))) (flushed b)"
  "M_batchErrors (observed lat now b m) = M_batchErrors m + int (failed_flushes (flushed b))"
  "M_redisFailures (observed lat now b m) = M_redisFailures m + int (failed_flushes (flushed b))"
proof -
  have "M_batchEvents (fold (observe_flush lat now) (enumerate n fs) m) = M_batchEvents m @ map (\<lambda>(batch, err). events batch) fs \<and>
    M_batchUniqueKeys (fold (observe_flush lat now) (enumerate n fs) m)
      = M_batchUniqueKeys m @ map (\<lambda>(batch, err). int (length (increments batch))) fs \<and>
    M_batchErrors (fold (observe_flush lat now) (enumerate n fs) m) = M_batchErrors m + int (failed_flushes fs) \<and>
    M_redisFailures (fold (observe_flush lat now) (enumerate n fs) m) = M_redisFailures m + int (failed_flushes fs)" for n fs
    by (induction fs arbitrary: n m) (auto simp: observe_flush_fields failed_flushes_def batch_increments_def)
  then show
    "M_batchEvents (observed lat now b m) = M_batchEvents m @ map (\<lambda>(batch, err). events batch) (flushed b)"
    "M_batchUniqueKeys (observed lat now b m) = M_batchUniqueKeys m @ map (\<lambda>(batch, err). int (length (increments batch))) (flushed b)"
    "M_batchErrors (observed lat now b m) = M_batchErrors m + int (failed_flushes (flushed b))"
    "M_redisFailures (observed lat now b m) = M_redisFailures m + int (failed_flushes (flushed b))"
    unfolding observed_def by blast+
qed

text \<open>An answer that came from the store.\<close>

definition store_answer :: "batch_error option \<Rightarrow> bool" where
  "store_answer r = (case r of None \<Rightarrow> True | Some (StoreFailure e) \<Rightarrow> True | _ \<Rightarrow> False)"

lemma flushed_events:
  assumes "reachable sa config c b" and "config_ok config"
  shows "(\<Sum>(batch, err)\<leftarrow>flushed b. events batch) = (\<Sum>j\<leftarrow>answered_jobs store_answer b. Events (request j))"
proof -
  obtain ab where l: "ledger ab b" using reachable_ledger [OF assms] by blast
  have inv: "jobs_accounted b" "store_ok config b"
    using reachable_inv [OF assms] by (simp_all add: batcher_inv_def limits_ok_iff)
  have "(\<Sum>j\<leftarrow>answered_jobs store_answer b. Events (request j)) = (\<Sum>(j, err)\<leftarrow>flush_pairs b. Events (request j))"
    using sum_answered [OF l inv(1), of store_answer "\<lambda>err. True" "\<lambda>j. Events (request j)"]
    by (simp add: store_answer_def case_prod_unfold split: option.splits)
  also have "\<dots> = (\<Sum>(batch, err)\<leftarrow>flushed b. \<Sum>j\<leftarrow>jobs batch. Events (request j))"
  proof -
    have "(\<Sum>(j, err)\<leftarrow>concat (map (\<lambda>(batch, err). map (\<lambda>j. (j, err)) (jobs batch)) fs). Events (request j))
        = (\<Sum>(batch, err)\<leftarrow>fs. \<Sum>j\<leftarrow>jobs batch. Events (request j))" for fs :: "(pending_batch \<times> apply_error option) list"
      by (induction fs) (auto simp: comp_def)
    then show ?thesis by (simp add: flush_pairs_def)
  qed
  also have "\<dots> = (\<Sum>(batch, err)\<leftarrow>flushed b. events batch)"
  proof -
    have "(\<Sum>j\<leftarrow>jobs batch. Events (request j)) = events batch" if "(batch, err) \<in> set (flushed b)" for batch err
    proof -
      have "batch = batch_of (jobs batch)" "within_limits config (jobs batch)"
        using inv(2) that by (auto simp: store_ok_def batch_ok_def)
      then show ?thesis by (metis within_limits_def)
    qed
    then show ?thesis by (intro arg_cong [where f = sum_list] map_cong) auto
  qed
  finally show ?thesis ..
qed

lemma flushed_limits:
  assumes "reachable sa config c b" and "config_ok config" and "(batch, err) \<in> set (flushed b)"
  shows "0 < events batch" and "events batch \<le> MaxEvents config" and "int (length (increments batch)) \<le> MaxKeys config"
proof -
  have "store_ok config b" using reachable_inv [OF assms(1,2)] by (simp add: batcher_inv_def limits_ok_iff)
  then have ok: "batch = batch_of (jobs batch)" "within_limits config (jobs batch)"
    using assms(3) by (auto simp: store_ok_def batch_ok_def)
  then show "events batch \<le> MaxEvents config" and "int (length (increments batch)) \<le> MaxKeys config"
    by (metis within_limits_def)+
  have "jobs batch \<noteq> []" "\<forall>j\<in>set (jobs batch). 0 < Events (request j)"
    using ok(2) validateRequest_Inr(1) by (auto simp: within_limits_def)
  then have "0 < (\<Sum>j\<leftarrow>jobs batch. Events (request j))"
    using positive_length [of "jobs batch" "\<lambda>j. Events (request j)"] by (cases "jobs batch") auto
  then show "0 < events batch" using ok by (metis within_limits_def)
qed

section \<open>Properties\<close>



text \<open>The answers to a sequence of requests.\<close>

fun serve ::
    "updater_config \<Rightarrow> (increment list \<Rightarrow> increment list) \<Rightarrow> (apply_error \<Rightarrow> bool) \<Rightarrow>
       (batch_request \<Rightarrow> 'w \<Rightarrow> submit_error option \<times> 'w) \<Rightarrow> (string \<times> (string \<times> bool) list \<times> time) list \<Rightarrow> 'w \<Rightarrow> answer list" where
  "serve config order is_context submit [] w = []"
| "serve config order is_context submit ((contentType, body, t) # rest) w =
     (case ingest config order is_context submit contentType body t w of
        (ans, w1) \<Rightarrow> ans # serve config order is_context submit rest w1)"

definition http_results :: "string list" where
  "http_results = [''success'', ''rejected'', ''failed'']"

definition rejection_reasons :: "string list" where
  "rejection_reasons = [''unsupported_media_type'', ''body_too_large'', ''too_many_records'', ''invalid_body'',
     ''identity_error'', ''queue_full'', ''not_ready'', ''batch_error'', ''request_context'']"

definition answer_ok :: "answer \<Rightarrow> bool" where
  "answer_ok ans \<longleftrightarrow> (\<exists>n. snd ans = [HTTPResult ''success'' n]) \<or>
     (\<exists>r. r \<in> set rejection_reasons \<and> snd ans = [Rejection r, HTTPResult ''rejected'' 0]) \<or>
     (\<exists>r n. r \<in> set rejection_reasons \<and> snd ans = [Rejection r, HTTPResult ''failed'' n])"

lemma reasons: "RejectionReason err \<in> set rejection_reasons" "failure_reason is_context e \<in> set rejection_reasons"
  by (auto simp: RejectionReason_def failure_reason_def rejection_reasons_def split: submit_error.splits batch_error.splits)

lemma ingest_answer_ok: "answer_ok (fst (ingest config order is_context submit contentType body t w))"
proof -
  have "''identity_error'' \<in> set rejection_reasons" by (simp add: rejection_reasons_def)
  then show ?thesis
    using reasons
    by (auto simp: answer_ok_def ingest_def ingest_request_def reject_def failBatch_def
        split: sum.splits prod.splits option.splits)
qed

lemma serve_ok: "list_all answer_ok (serve config order is_context submit reqs w)"
proof (induction reqs arbitrary: w)
  case (Cons req reqs)
  obtain contentType body t where req: "req = (contentType, body, t)" by (cases req)
  show ?case
    using Cons ingest_answer_ok [of config order is_context submit contentType body t w]
    by (auto simp: req split: prod.splits)
qed simp

definition counted :: "updater_metrics \<Rightarrow> nat \<Rightarrow> bool" where
  "counted m n \<longleftrightarrow>
     (\<Sum>r\<leftarrow>http_results. M_httpRequests m r) = int n \<and> {r. M_httpRequests m r \<noteq> 0} \<subseteq> set http_results \<and>
     (\<Sum>r\<leftarrow>rejection_reasons. M_httpRejections m r) = M_httpRequests m ''rejected'' + M_httpRequests m ''failed'' \<and>
     {r. M_httpRejections m r \<noteq> 0} \<subseteq> set rejection_reasons \<and> M_httpRecords m ''rejected'' = 0"

lemma sum_list_upd:
  "distinct xs \<Longrightarrow> (\<Sum>x\<leftarrow>xs. if x = r then f r + n else f x) = (\<Sum>x\<leftarrow>xs. f x) + (if r \<in> set xs then n else (0 :: int))"
  by (induction xs) auto

lemma counted_answer: "counted m n \<Longrightarrow> answer_ok ans \<Longrightarrow> counted (record_answer ans m) (Suc n)"
proof -
  assume m: "counted m n" and "answer_ok ans"
  have d: "distinct http_results" "distinct rejection_reasons" by code_simp+
  have in_results: "''success'' \<in> set http_results" "''rejected'' \<in> set http_results" "''failed'' \<in> set http_results"
    by (simp_all add: http_results_def)
  note rules = record_answer_def ObserveRejection_def ObserveHTTPResult_def counted_def sum_list_upd [OF d(1)] sum_list_upd [OF d(2)] Let_def
  from \<open>answer_ok ans\<close> show ?thesis
    unfolding answer_ok_def
  proof (elim disjE exE conjE)
    fix k assume "snd ans = [HTTPResult ''success'' k]"
    then show ?thesis using m in_results by (auto simp: rules)
  next
    fix r assume "r \<in> set rejection_reasons" "snd ans = [Rejection r, HTTPResult ''rejected'' 0]"
    then show ?thesis using m in_results by (auto simp: rules)
  next
    fix r k assume "r \<in> set rejection_reasons" "snd ans = [Rejection r, HTTPResult ''failed'' k]"
    then show ?thesis using m in_results by (auto simp: rules)
  qed
qed

lemma counted_answers: "list_all answer_ok answers \<Longrightarrow> counted m n \<Longrightarrow> counted (fold record_answer answers m) (n + length answers)"
proof (induction answers arbitrary: m n)
  case (Cons ans answers)
  then show ?case using Cons.IH [of "record_answer ans m" "Suc n"] counted_answer by simp
qed simp

lemma length_serve: "length (serve config order is_context submit reqs w) = length reqs"
  by (induction reqs arbitrary: w) (auto split: prod.splits)

text \<open>C22: Every request is counted once, and refusals by their reason: after any sequence of requests, whatever
  the batcher answers, the three results of \<open>http_requests_total\<close> sum up to the number of requests,
  the rejections by reason to the requests rejected and failed, a rejected request counts no
  record, and no label outside the fixed three results and nine reasons ever appears.\<close>

theorem every_request_counted_once:
  "let m = fold record_answer (serve config order is_context submit reqs w) (NewMetrics_updater dataLoss duplicate)
   in (\<Sum>r\<leftarrow>http_results. M_httpRequests m r) = int (length reqs) \<and> {r. M_httpRequests m r \<noteq> 0} \<subseteq> set http_results \<and>
      (\<Sum>r\<leftarrow>rejection_reasons. M_httpRejections m r) = M_httpRequests m ''rejected'' + M_httpRequests m ''failed'' \<and>
      {r. M_httpRejections m r \<noteq> 0} \<subseteq> set rejection_reasons \<and> M_httpRecords m ''rejected'' = 0"
proof -
  have "counted (NewMetrics_updater dataLoss duplicate) 0" by (simp add: counted_def sum_list_triv)
  from counted_answers [OF serve_ok this] show ?thesis
    unfolding Let_def by (simp add: counted_def length_serve)
qed

end
