(* ===== verification/Tierer_Metrics.thy ===== *)
theory Tierer_Metrics
  imports Tierer_Service
begin

text \<open>
  \<^verbatim>\<open>internal/tierer/metrics.go\<close>: the observer of the scanner. A counter vector is the sum per label (or pair of
  labels), a histogram the list of what was observed, a gauge the value last set; a timestamp gauge
  holds the time, the epoch at first. The cursor's age is computed when it is read. The properties
  relate the metrics of a run to the calls the scanner made.
\<close>

section \<open>The collectors\<close>

record tierer_metrics =
  N_scans :: "string \<Rightarrow> int"
  N_scanDuration :: "duration list"
  N_objects :: "string \<Rightarrow> int"
  N_coverageSkips :: int
  N_cursorUpdatedAt :: time
  N_cursorErrors :: int
  N_budgetUsed :: "string \<times> string \<Rightarrow> int"
  N_budgetExhausted :: "string \<Rightarrow> int"
  N_markers :: "string \<times> string \<Rightarrow> int"
  N_transitioned :: "string \<Rightarrow> int"
  N_restores :: "string \<times> string \<Rightarrow> int"
  N_dependencyFailures :: "string \<Rightarrow> int"
  N_redisFailures :: int
  N_lastSuccessfulScan :: time
  N_lastSuccessfulMutation :: time

definition newMetrics :: tierer_metrics where
  "newMetrics =
     \<lparr>N_scans = (\<lambda>_. 0), N_scanDuration = [], N_objects = (\<lambda>_. 0), N_coverageSkips = 0, N_cursorUpdatedAt = zero_time,
      N_cursorErrors = 0, N_budgetUsed = (\<lambda>_. 0), N_budgetExhausted = (\<lambda>_. 0), N_markers = (\<lambda>_. 0),
      N_transitioned = (\<lambda>_. 0), N_restores = (\<lambda>_. 0), N_dependencyFailures = (\<lambda>_. 0), N_redisFailures = 0,
      N_lastSuccessfulScan = 0, N_lastSuccessfulMutation = 0\<rparr>"

definition inc :: "('k \<Rightarrow> int) \<Rightarrow> 'k \<Rightarrow> 'k \<Rightarrow> int" where
  "inc f k = f(k := f k + 1)"

text \<open>\<open>now\<close> is the time \<^verbatim>\<open>SetToCurrentTime\<close> reads.\<close>

definition observe_scan :: "duration \<Rightarrow> bool \<Rightarrow> time \<Rightarrow> tierer_metrics \<Rightarrow> tierer_metrics" where
  "observe_scan d ok now m =
     (let m1 = m\<lparr>N_scanDuration := N_scanDuration m @ [d]\<rparr>
      in if \<not> ok then m1\<lparr>N_scans := inc (N_scans m1) ''error''\<rparr>
         else m1\<lparr>N_scans := inc (N_scans m1) ''success'', N_lastSuccessfulScan := now\<rparr>)"

definition setCursorUpdatedAt :: "time \<Rightarrow> tierer_metrics \<Rightarrow> tierer_metrics" where
  "setCursorUpdatedAt updated m = m\<lparr>N_cursorUpdatedAt := updated\<rparr>"

text \<open>In nanoseconds; \<^verbatim>\<open>Sub\<close> stops at the ends of the 64-bit range.\<close>

definition cursorAgeSeconds :: "time \<Rightarrow> tierer_metrics \<Rightarrow> duration" where
  "cursorAgeSeconds now m =
     (let updated = N_cursorUpdatedAt m
      in if is_zero updated then 0
         else let age = max min_int64 (min max_int64 (now - updated))
              in if age < 0 then 0 else age)"

definition observe_budget :: "budget_kind \<Rightarrow> reservation \<Rightarrow> tierer_metrics \<Rightarrow> tierer_metrics" where
  "observe_budget kind r m =
     m\<lparr>N_budgetUsed := ((N_budgetUsed m)((kind, ''attempts'') := UsedAttempts r))((kind, ''bytes'') := UsedBytes r)\<rparr>"

definition observe_marker :: "string \<Rightarrow> bool \<Rightarrow> tierer_metrics \<Rightarrow> tierer_metrics" where
  "observe_marker outcome err m =
     (let res = (if err then ''error'' else ''success'') in m\<lparr>N_markers := inc (N_markers m) (outcome, res)\<rparr>)"

definition observe_transition :: "bool \<Rightarrow> tierer_metrics \<Rightarrow> tierer_metrics" where
  "observe_transition transitioned m =
     (let state = (if transitioned then ''transitioned'' else ''local'') in m\<lparr>N_transitioned := inc (N_transitioned m) state\<rparr>)"

definition observe_restore :: "string \<Rightarrow> bool \<Rightarrow> bool \<Rightarrow> tierer_metrics \<Rightarrow> tierer_metrics" where
  "observe_restore act pend err m =
     (let res = (if err then ''error'' else if pend then ''pending'' else ''success'')
      in m\<lparr>N_restores := inc (N_restores m) (act, res)\<rparr>)"

definition observe_dependency :: "string \<Rightarrow> tierer_metrics \<Rightarrow> tierer_metrics" where
  "observe_dependency dependency m =
     (let m1 = m\<lparr>N_dependencyFailures := inc (N_dependencyFailures m) dependency\<rparr>
      in if dependency = ''redis'' then m1\<lparr>N_redisFailures := N_redisFailures m1 + 1\<rparr> else m1)"

text \<open>
  The scanner's events through the observer; \<open>d\<close> is the duration of a finished scan. The calls to
  the dependencies and the waits are not observed. A failed plan has the outcome \<^verbatim>\<open>""\<close>.
\<close>

fun observe :: "duration \<Rightarrow> time \<Rightarrow> 'e event \<Rightarrow> tierer_metrics \<Rightarrow> tierer_metrics" where
  "observe d now ScanStarted m = m"
| "observe d now (ScanFinished ok) m = observe_scan d ok now m"
| "observe d now (ObjectHandled outcome) m = m\<lparr>N_objects := inc (N_objects m) outcome\<rparr>"
| "observe d now CoverageSkipped m = m\<lparr>N_coverageSkips := N_coverageSkips m + 1\<rparr>"
| "observe d now (CursorSaved updated) m = setCursorUpdatedAt updated m"
| "observe d now (CursorLoaded updated) m = setCursorUpdatedAt updated m"
| "observe d now CursorWasReset m = setCursorUpdatedAt zero_time m"
| "observe d now CursorError m = m\<lparr>N_cursorErrors := N_cursorErrors m + 1\<rparr>"
| "observe d now (BudgetObserved kind r) m = observe_budget kind r m"
| "observe d now (BudgetExhausted kind) m = m\<lparr>N_budgetExhausted := inc (N_budgetExhausted m) kind\<rparr>"
| "observe d now (MarkerObserved outcome err) m =
     observe_marker (case outcome of None \<Rightarrow> [] | Some x \<Rightarrow> outcome_text x) err m"
| "observe d now (MarkerApplied outcome) m = m\<lparr>N_lastSuccessfulMutation := now\<rparr>"
| "observe d now (TransitionState transitioned) m = observe_transition transitioned m"
| "observe d now (RestoreObserved act pend err) m = observe_restore (action_text act) pend err m"
| "observe d now (RestoreApplied act) m = m\<lparr>N_lastSuccessfulMutation := now\<rparr>"
| "observe d now (DependencyFailure dependency) m = observe_dependency dependency m"
| "observe d now _ m = m"

text \<open>Over a run; \<open>dur\<close> and \<open>clk\<close> give the duration and the time at the \<open>i\<close>th event.\<close>

definition observe_all ::
    "(nat \<Rightarrow> duration) \<Rightarrow> (nat \<Rightarrow> time) \<Rightarrow> 'e event list \<Rightarrow> tierer_metrics \<Rightarrow> tierer_metrics" where
  "observe_all dur clk evs m = fold (\<lambda>(i, ev). observe (dur i) (clk i) ev) (enumerate 0 evs) m"

section \<open>The counters count the events\<close>

lemmas observe_defs = observe_scan_def setCursorUpdatedAt_def observe_budget_def observe_marker_def observe_transition_def
  observe_restore_def observe_dependency_def inc_def Let_def

lemma observe_counts:
  "N_objects (observe d now ev m) x = N_objects m x + (if ev = ObjectHandled x then 1 else 0)"
  "N_budgetExhausted (observe d now ev m) k = N_budgetExhausted m k + (if ev = BudgetExhausted k then 1 else 0)"
  "N_dependencyFailures (observe d now ev m) dep = N_dependencyFailures m dep + (if ev = DependencyFailure dep then 1 else 0)"
  "N_redisFailures (observe d now ev m) = N_redisFailures m + (if ev = DependencyFailure ''redis'' then 1 else 0)"
  "N_coverageSkips (observe d now ev m) = N_coverageSkips m + (if ev = CoverageSkipped then 1 else 0)"
  "N_cursorErrors (observe d now ev m) = N_cursorErrors m + (if ev = CursorError then 1 else 0)"
  by (cases ev; simp add: observe_defs)+

lemma fold_counts:
  assumes "\<And>d now ev m. f (observe d now ev m) = f m + (if P ev then 1 else 0 :: int)"
  shows "f (observe_all dur clk evs m) = f m + int (occurrences P evs)"
proof -
  have "f (fold (\<lambda>(i, ev). observe (dur i) (clk i) ev) (enumerate n evs) m) = f m + int (occurrences P evs)" for n
    by (induction evs arbitrary: n m) (auto simp: assms)
  then show ?thesis by (simp add: observe_all_def)
qed

lemma observe_all_counts:
  "N_objects (observe_all dur clk evs m) x = N_objects m x + int (occurrences (\<lambda>ev. ev = ObjectHandled x) evs)"
  "N_budgetExhausted (observe_all dur clk evs m) k = N_budgetExhausted m k + int (occurrences (\<lambda>ev. ev = BudgetExhausted k) evs)"
  "N_dependencyFailures (observe_all dur clk evs m) dep
     = N_dependencyFailures m dep + int (occurrences (\<lambda>ev. ev = DependencyFailure dep) evs)"
  "N_redisFailures (observe_all dur clk evs m)
     = N_redisFailures m + int (occurrences (\<lambda>ev. ev = DependencyFailure ''redis'') evs)"
  using observe_counts by (intro fold_counts; blast)+

section \<open>What the counters of a run say\<close>

text \<open>The calls behind the outcomes.\<close>

fun marked_call :: "'e event \<Rightarrow> bool" where
  "marked_call (CallApplyMarker obj plan None) = True"
| "marked_call _ = False"

fun restored_call :: "bool \<Rightarrow> 'e event \<Rightarrow> bool" where
  "restored_call pend (CallRestore obj days (Inr p)) = (p = pend)"
| "restored_call pend _ = False"

fun refused_call :: "budget_kind \<Rightarrow> 'e event \<Rightarrow> bool" where
  "refused_call kind (CallReserve k bytes (Inr r)) = (k = kind \<and> \<not> Allowed r)"
| "refused_call kind _ = False"

definition outcomes_match :: "'e event list \<Rightarrow> bool" where
  "outcomes_match evs \<longleftrightarrow>
     occurrences (\<lambda>ev. ev = ObjectHandled ''marked'') evs = occurrences marked_call evs \<and>
     occurrences (\<lambda>ev. ev = ObjectHandled ''restore'') evs + occurrences (\<lambda>ev. ev = ObjectHandled ''renew'') evs
       = occurrences (restored_call False) evs \<and>
     occurrences (\<lambda>ev. ev = ObjectHandled ''restore_pending'') evs = occurrences (restored_call True) evs \<and>
     occurrences (\<lambda>ev. ev = BudgetExhausted BudgetTransition) evs = occurrences (refused_call BudgetTransition) evs \<and>
     occurrences (\<lambda>ev. ev = BudgetExhausted BudgetRestore) evs = occurrences (refused_call BudgetRestore) evs"

lemma outcomes_match_append: "outcomes_match xs \<Longrightarrow> outcomes_match ys \<Longrightarrow> outcomes_match (xs @ ys)"
  by (simp add: outcomes_match_def)

lemma outcomes_match_Nil [simp]: "outcomes_match []" by (simp add: outcomes_match_def)

lemma failure_match: "failure_events d D \<Longrightarrow> outcomes_match D"
  by (auto simp: failure_events_def outcomes_match_def)

lemma marker_trace_match: "marker_trace cfg obj evs stop \<Longrightarrow> outcomes_match evs"
  by (auto elim!: marker_traceE simp: outcomes_match_def failure_events_def outcome_text_def split: marker_outcome.splits)

lemma restore_trace_match:
  "restore_trace cfg obj act evs stop \<Longrightarrow> act = ActionRestore \<or> act = ActionRenew \<Longrightarrow> outcomes_match evs"
  by (auto elim!: restore_traceE simp: outcomes_match_def failure_events_def action_text_def)

lemma object_trace_match: "object_trace cfg lobj res now evs stop \<Longrightarrow> outcomes_match evs"
proof (induction rule: object_trace.induct)
  case (mark cur evs stop)
  from marker_trace_match [OF mark(3)] show ?case by (simp add: outcomes_match_def)
next
  case (restore cur act evs stop)
  from restore_trace_match [OF restore(4,3)] show ?case by (simp add: outcomes_match_def)
qed (auto simp: outcomes_match_def failure_events_def)

interpretation outcomes: trace_law s outcomes_match for s :: "('w, 'e) scanner"
proof
  fix obj res now st err st'
  assume "handleObject s obj res now st = (err, st')"
  from handleObject_trace [OF this] show "adds outcomes_match st st'"
    using object_trace_match by (fastforce simp: adds_def)
next
  fix ev :: "'e event"
  show "outer_event ev \<Longrightarrow> outcomes_match [ev]" by (cases ev) (auto simp: outcomes_match_def)
qed (auto intro: outcomes_match_append)

text \<open>The outcomes an object can have: the label of \<open>objects_total\<close> takes no other value.\<close>

definition object_outcomes :: "string list" where
  "object_outcomes =
     [''no_action'', ''directory_skipped'', ''stat_error'', ''identity_changed'', ''marker_error'',
      ''marker_matched'', ''marker_added'', ''marker_replaced'', ''marker_tag_limit'', ''audit_mark'', ''marked'',
      ''transition_budget_exhausted'', ''audit_restore'', ''audit_renew'', ''restore_budget_exhausted'',
      ''restore_error'', ''restore_pending'', ''restore'', ''renew'']"

definition outcomes_known :: "'e event list \<Rightarrow> bool" where
  "outcomes_known evs \<longleftrightarrow> (\<forall>x. ObjectHandled x \<in> set evs \<longrightarrow> x \<in> set object_outcomes)"

lemma failure_known: "failure_events d D \<Longrightarrow> ObjectHandled x \<notin> set D"
  by (auto simp: failure_events_def)

lemma marker_trace_known: "marker_trace cfg obj evs stop \<Longrightarrow> outcomes_known evs"
  by (auto elim!: marker_traceE simp: outcomes_known_def object_outcomes_def failure_known outcome_text_def split: marker_outcome.splits)

lemma restore_trace_known:
  "restore_trace cfg obj act evs stop \<Longrightarrow> act = ActionRestore \<or> act = ActionRenew \<Longrightarrow> outcomes_known evs"
  by (auto elim!: restore_traceE simp: outcomes_known_def object_outcomes_def failure_known action_text_def)

lemma object_trace_known: "object_trace cfg lobj res now evs stop \<Longrightarrow> outcomes_known evs"
proof (induction rule: object_trace.induct)
  case (mark cur evs stop)
  from marker_trace_known [OF mark(3)] show ?case by (simp add: outcomes_known_def)
next
  case (restore cur act evs stop)
  from restore_trace_known [OF restore(4,3)] show ?case by (simp add: outcomes_known_def)
qed (auto simp: outcomes_known_def object_outcomes_def failure_known)

interpretation known: trace_law s outcomes_known for s :: "('w, 'e) scanner"
proof
  fix obj res now st err st'
  assume "handleObject s obj res now st = (err, st')"
  from handleObject_trace [OF this] show "adds outcomes_known st st'"
    using object_trace_known by (fastforce simp: adds_def)
next
  fix ev :: "'e event"
  show "outer_event ev \<Longrightarrow> outcomes_known [ev]" by (cases ev) (auto simp: outcomes_known_def object_outcomes_def)
qed (auto simp: outcomes_known_def)

lemma occurrences_none: "(\<And>ev. ev \<in> set evs \<Longrightarrow> \<not> P ev) \<Longrightarrow> occurrences P evs = 0"
  by (simp add: occurrences_def filter_False)

section \<open>The age of the cursor\<close>

text \<open>
  The time of the cursor in use: loaded, saved with the store's acknowledgement, or none after an
  acknowledged reset. And what the observer makes of the same events.
\<close>

fun acknowledged_cursor :: "'e event \<Rightarrow> time \<Rightarrow> time" where
  "acknowledged_cursor (CursorLoaded updated) t = updated"
| "acknowledged_cursor (CallSaveCursor c None) t = UpdatedAt c"
| "acknowledged_cursor (CallResetCursor None) t = zero_time"
| "acknowledged_cursor _ t = t"

fun observed_cursor :: "'e event \<Rightarrow> time \<Rightarrow> time" where
  "observed_cursor (CursorLoaded updated) t = updated"
| "observed_cursor (CursorSaved updated) t = updated"
| "observed_cursor CursorWasReset t = zero_time"
| "observed_cursor _ t = t"

lemma observe_cursor: "N_cursorUpdatedAt (observe d now ev m) = observed_cursor ev (N_cursorUpdatedAt m)"
  by (cases ev) (simp_all add: observe_defs)

lemma observe_all_cursor: "N_cursorUpdatedAt (observe_all dur clk evs m) = fold observed_cursor evs (N_cursorUpdatedAt m)"
proof -
  have "N_cursorUpdatedAt (fold (\<lambda>(i, ev). observe (dur i) (clk i) ev) (enumerate n evs) m)
      = fold observed_cursor evs (N_cursorUpdatedAt m)" for n
    by (induction evs arbitrary: n m) (auto simp: observe_cursor)
  then show ?thesis by (simp add: observe_all_def)
qed

definition cursor_agrees :: "'e event list \<Rightarrow> bool" where
  "cursor_agrees evs \<longleftrightarrow> (\<forall>t. fold observed_cursor evs t = fold acknowledged_cursor evs t)"

lemma cursor_agrees_simps [simp]:
  "cursor_agrees []" "cursor_agrees xs \<Longrightarrow> cursor_agrees ys \<Longrightarrow> cursor_agrees (xs @ ys)"
  by (simp_all add: cursor_agrees_def)

lemma inner_agrees: "list_all inner_event evs \<Longrightarrow> cursor_agrees evs"
proof (induction evs)
  case (Cons ev evs)
  then have "cursor_agrees evs" by simp
  with Cons.prems show ?case by (cases ev) (auto simp: cursor_agrees_def)
qed simp

interpretation agreeing: chunk_law s "adds cursor_agrees" for s :: "('w, 'e) scanner"
proof
  fix st st1 st2 :: "('w, 'e) scan" and obj res now err
  show "adds cursor_agrees st st" by (simp add: adds_def)
  show "adds cursor_agrees st st1 \<Longrightarrow> adds cursor_agrees st1 st2 \<Longrightarrow> adds cursor_agrees st st2" by (auto simp: adds_def)
  show "adds cursor_agrees st (emit CoverageSkipped st)" by (simp add: adds_def cursor_agrees_def)
  show "adds cursor_agrees st st1" if "handleObject s obj res now st = (err, st1)"
    using handleObject_trace [OF that] object_trace_inner inner_agrees by (fastforce simp: adds_def)
qed

lemma dependencyError_agrees: "adds cursor_agrees st (dependencyError s d err st)"
  by (auto simp: dependencyError_def adds_def cursor_agrees_def)

lemma chunk_agrees:
  assumes "processChunk s objs st = (err, st')"
  shows "adds cursor_agrees st st'"
proof -
  note trans = agreeing.R_trans
  have read: "adds cursor_agrees st (called (CallReadChunk objs) w1 (st\<lparr>world := w0\<rparr>))" for w0 w1
    by (simp add: adds_def cursor_agrees_def)
  from processChunk_run [OF assms] show ?thesis
  proof (cases rule: chunk_run.cases)
    case (no_window now w0 e)
    then show ?thesis by (simp add: adds_def)
  next
    case (unread now w0 lows highs rd w1 st1 e)
    then show ?thesis using read trans [OF read dependencyError_agrees] by blast
  next
    case (unevaluated now w0 lows highs usage cov w1 hour e)
    then show ?thesis using trans [OF read agreeing.R_evaluate] by blast
  next
    case (unhandled now w0 lows highs usage cov w1 hour items st2 e)
    then show ?thesis using trans [OF trans [OF read agreeing.R_evaluate] agreeing.R_handle] by blast
  next
    case (unsaved now w0 lows highs usage cov w1 hour items st2 st3 e w4)
    then have st3: "adds cursor_agrees st st3" using trans [OF trans [OF read agreeing.R_evaluate] agreeing.R_handle] by blast
    have "adds cursor_agrees st3 (emit CursorError (called (CallSaveCursor (chunk_cursor objs now) (Some e)) w4 st3))"
      by (simp add: adds_def cursor_agrees_def)
    from trans [OF trans [OF st3 this] dependencyError_agrees] show ?thesis using unsaved by blast
  next
    case (chunk_done now w0 lows highs usage cov w1 hour items st2 st3 w4)
    then have st3: "adds cursor_agrees st st3" using trans [OF trans [OF read agreeing.R_evaluate] agreeing.R_handle] by blast
    have "adds cursor_agrees st3 (emit (CursorSaved now) (called (CallSaveCursor (chunk_cursor objs now) None) w4 st3))"
      by (simp add: adds_def cursor_agrees_def chunk_cursor_def)
    from trans [OF st3 this] show ?thesis using chunk_done by blast
  qed
qed

interpretation aging: traversal_law s "adds cursor_agrees" for s :: "('w, 'e) scanner"
proof
  fix st st' :: "('w, 'e) scan" and ev :: "'e event" and objs err
  show "loop_event ev \<Longrightarrow> adds cursor_agrees st (emit ev st)"
    by (cases ev) (auto simp: adds_def cursor_agrees_def)
  show "frame_event ev \<Longrightarrow> adds cursor_agrees st (emit ev st)"
    by (cases ev) (auto simp: adds_def cursor_agrees_def)
  show "processChunk s objs st = (err, st') \<Longrightarrow> adds cursor_agrees st st'" by (rule chunk_agrees)
qed (simp_all add: adds_def cursor_agrees_def)

lemma cursorAge_nonneg: "0 \<le> cursorAgeSeconds now m"
  by (auto simp: cursorAgeSeconds_def Let_def not_less)

section \<open>Properties\<close>

text \<open>C24: The metrics of a run say what was done: whatever the dependencies answered, over any run the count of
  objects marked rises by the markers MinIO acknowledged, those restored or renewed by the
  restores it started, those pending by the restores it found under way, each
  exhaustion counter by the reservations refused, and the Redis failures with the failures counted for the
  dependency Redis; and the outcomes counted stay within nineteen labels.\<close>

theorem run_metrics_match_calls:
  "let evs = run_events s rounds st; m' = observe_all dur clk evs m
   in N_objects m' ''marked'' = N_objects m ''marked'' + int (occurrences marked_call evs) \<and>
      N_objects m' ''restore'' + N_objects m' ''renew''
        = N_objects m ''restore'' + N_objects m ''renew'' + int (occurrences (restored_call False) evs) \<and>
      N_objects m' ''restore_pending'' = N_objects m ''restore_pending'' + int (occurrences (restored_call True) evs) \<and>
      N_budgetExhausted m' BudgetTransition = N_budgetExhausted m BudgetTransition + int (occurrences (refused_call BudgetTransition) evs) \<and>
      N_budgetExhausted m' BudgetRestore = N_budgetExhausted m BudgetRestore + int (occurrences (refused_call BudgetRestore) evs) \<and>
      N_redisFailures m' - N_redisFailures m = N_dependencyFailures m' ''redis'' - N_dependencyFailures m ''redis'' \<and>
      {x. N_objects m' x \<noteq> N_objects m x} \<subseteq> set object_outcomes"
proof -
  have evs: "outcomes_match (run_events s rounds st)" "outcomes_known (run_events s rounds st)"
    using adds_run [OF outcomes.law.R_Run] adds_run [OF known.law.R_Run] by blast+
  have "occurrences (\<lambda>ev. ev = ObjectHandled x) (run_events s rounds st) = 0" if "x \<notin> set object_outcomes" for x
    using evs(2) that by (intro occurrences_none) (auto simp: outcomes_known_def)
  then have "{x. N_objects m x + int (occurrences (\<lambda>ev. ev = ObjectHandled x) (run_events s rounds st)) \<noteq> N_objects m x}
      \<subseteq> set object_outcomes" by - (intro subsetI, rule ccontr, simp)
  with evs(1) show ?thesis unfolding Let_def observe_all_counts outcomes_match_def by linarith
qed

text \<open>C25: The cursor metric follows the cursor: over any run, whatever the store answered, it ends with the time of the
  cursor last loaded or saved with the store's acknowledgement, or with none after an acknowledged
  reset; an error in between leaves it as it was, and the age it gives is never negative and zero without a
  cursor.\<close>

theorem cursor_metric_follows_cursor:
  "let evs = run_events s rounds st; m' = observe_all dur clk evs m
   in N_cursorUpdatedAt m' = fold acknowledged_cursor evs (N_cursorUpdatedAt m) \<and> 0 \<le> cursorAgeSeconds now m' \<and>
      cursorAgeSeconds now (setCursorUpdatedAt zero_time m') = 0"
proof -
  have "cursor_agrees (run_events s rounds st)" using adds_run [OF aging.R_Run] by blast
  then show ?thesis
    using cursorAge_nonneg
    by (simp add: Let_def observe_all_cursor cursor_agrees_def) (simp add: cursorAgeSeconds_def setCursorUpdatedAt_def is_zero_def)
qed

end
