(* ===== verification/Collectors.thy ===== *)
theory Collectors
  imports Prelude
begin

text \<open>
  The collectors that \<^verbatim>\<open>NewMetrics\<close> of \<^verbatim>\<open>internal/updater/metrics.go\<close> and \<^verbatim>\<open>newMetrics\<close> of
  \<^verbatim>\<open>internal/tierer/metrics.go\<close> create and register, as data: the kind, the namespace, the name, the help and the names of the labels.
  The registry itself is the Prometheus library's.
\<close>

section \<open>Descriptions\<close>

text \<open>\<^verbatim>\<open>DefBuckets\<close> are the library's; \<^verbatim>\<open>ExponentialBuckets start factor count\<close> are \<open>count\<close> powers.\<close>

datatype metric_buckets = DefBuckets | ExponentialBuckets int int nat

datatype metric_kind = Counter | Gauge | GaugeFunc | Histogram metric_buckets

record collector =
  Metric_Kind :: metric_kind
  Metric_Namespace :: string
  Metric_Name :: string
  Metric_Help :: string
  Metric_Labels :: "string list"

definition collector :: "metric_kind \<Rightarrow> string \<Rightarrow> string \<Rightarrow> string \<Rightarrow> string list \<Rightarrow> collector" where
  "collector kind namespace name help labels =
     \<lparr>Metric_Kind = kind, Metric_Namespace = namespace, Metric_Name = name, Metric_Help = help, Metric_Labels = labels\<rparr>"

section \<open>The two registries\<close>

definition metricNamespace :: string where
  "metricNamespace = ''cwm_minio_tierer_updater''"

definition updater_collectors :: "collector list" where
  "updater_collectors =
     [collector Counter metricNamespace ''http_requests_total'' ''Updater ingestion requests by bounded result.'' [''result''],
      collector Counter metricNamespace ''http_records_total'' ''Valid access records by containing batch result.'' [''result''],
      collector Counter metricNamespace ''http_rejections_total'' ''Rejected updater requests by bounded reason.'' [''reason''],
      collector Gauge metricNamespace ''queue_depth'' ''Current number of accepted requests waiting for batching.'' [],
      collector (Histogram (ExponentialBuckets 1 2 14)) metricNamespace ''batch_events'' ''Access records represented by each Redis batch.'' [],
      collector (Histogram (ExponentialBuckets 1 2 14)) metricNamespace ''batch_unique_keys'' ''Unique Redis keys represented by each batch.'' [],
      collector (Histogram DefBuckets) metricNamespace ''batch_duration_seconds'' ''Redis batch execution latency in seconds.'' [],
      collector Counter metricNamespace ''batch_errors_total'' ''Redis batches that returned an error.'' [],
      collector Counter metricNamespace ''redis_failures_total'' ''Redis operation failures observed by the updater.'' [],
      collector Gauge metricNamespace ''risk_override'' ''Whether a configured status-code risk override is active.'' [''risk''],
      collector Gauge metricNamespace ''last_successful_batch_timestamp_seconds'' ''Unix timestamp of the last Redis-acknowledged updater batch.'' []]"

definition metricsNamespace :: string where
  "metricsNamespace = ''cwm_minio_tierer''"

definition tierer_collectors :: "collector list" where
  "tierer_collectors =
     [collector Counter metricsNamespace ''scans_total'' ''Full scan traversals by result.'' [''result''],
      collector (Histogram DefBuckets) metricsNamespace ''scan_duration_seconds'' ''Full scan traversal duration.'' [],
      collector Counter metricsNamespace ''objects_total'' ''Objects handled by bounded outcome.'' [''outcome''],
      collector Counter metricsNamespace ''coverage_skips_total'' ''Low decisions skipped because coverage was incomplete.'' [],
      collector GaugeFunc metricsNamespace ''cursor_age_seconds'' ''Current age of the persisted cursor update; zero when no cursor is persisted.'' [],
      collector Counter metricsNamespace ''cursor_errors_total'' ''Cursor load, save, or reset failures.'' [],
      collector Gauge metricsNamespace ''budget_used'' ''Current UTC daily budget use.'' [''kind'', ''resource''],
      collector Counter metricsNamespace ''budget_exhaustions_total'' ''Actions skipped due to daily budget exhaustion.'' [''kind''],
      collector Counter metricsNamespace ''marker_outcomes_total'' ''Marker planning and mutation outcomes.'' [''outcome'', ''result''],
      collector Counter metricsNamespace ''transitioned_state_total'' ''Objects evaluated by authoritative transition state.'' [''state''],
      collector Counter metricsNamespace ''restore_outcomes_total'' ''Restore starts and renewals by bounded result.'' [''action'', ''result''],
      collector Counter metricsNamespace ''dependency_failures_total'' ''Dependency operation failures.'' [''dependency''],
      collector Counter metricsNamespace ''redis_failures_total'' ''Redis operation failures observed by the tierer.'' [],
      collector Gauge metricsNamespace ''last_successful_scan_timestamp_seconds'' ''Unix timestamp of the last completed full traversal.'' [],
      collector Gauge metricsNamespace ''last_successful_mutation_timestamp_seconds'' ''Unix timestamp of the last successful MinIO mutation.'' []]"

section \<open>Registering\<close>

text \<open>
  A registry refuses a name it has, so the names of one service must differ; a label is named once. A
  name of the updater is no name of the tierer, although one namespace begins with the other.
\<close>

definition metric_names :: "collector list \<Rightarrow> string list" where
  "metric_names cs = map (\<lambda>c. Metric_Namespace c @ ''_'' @ Metric_Name c) cs"

lemma collectors_distinct:
  "distinct (metric_names updater_collectors)" "distinct (metric_names tierer_collectors)"
  "list_all (\<lambda>c. distinct (Metric_Labels c)) (updater_collectors @ tierer_collectors)"
  by code_simp+

lemma collectors_apart: "list_all (\<lambda>n. n \<notin> set (metric_names tierer_collectors)) (metric_names updater_collectors)"
  by code_simp

end
