(* ===== verification/Scanner_Audit.thy ===== *)
theory Scanner_Audit
  imports Scanner_Safety
begin

text \<open>
  What an audit says about an apply: on the same object in the same world the two modes do the same
  until the first reservation; there the audit stops and names the action it would have taken.
\<close>

definition in_mode :: "bool \<Rightarrow> ('w, 'e) scanner \<Rightarrow> ('w, 'e) scanner" where
  "in_mode mode s = s\<lparr>config := (config s)\<lparr>ApplyMode := mode\<rparr>\<rparr>"

lemma in_mode_simps [simp]:
  "deps (in_mode mode s) = deps s" "ApplyMode (config (in_mode mode s)) = mode"
  "MarkerKey (config (in_mode mode s)) = MarkerKey (config s)" "MarkerValue (config (in_mode mode s)) = MarkerValue (config s)"
  "RestoreDays (config (in_mode mode s)) = RestoreDays (config s)"
  "TransitionBudget (config (in_mode mode s)) = TransitionBudget (config s)"
  "RestoreBudget (config (in_mode mode s)) = RestoreBudget (config s)"
  "dependencyError (in_mode mode s) d e st = dependencyError s d e st"
  by (simp_all add: in_mode_def dependencyError_def)

text \<open>The last observations of an audit that would act, and the budget the apply reserves from.\<close>

inductive audit_ending :: "'e event list \<Rightarrow> budget_kind \<Rightarrow> bool" where
  mark: "audit_ending [ObjectHandled ''audit_mark''] BudgetTransition"
| restore: "audit_ending [RestoreObserved ActionRestore False False, ObjectHandled ''audit_restore''] BudgetRestore"
| renew: "audit_ending [RestoreObserved ActionRenew False False, ObjectHandled ''audit_renew''] BudgetRestore"

definition previews ::
    "('w, 'e) scan \<Rightarrow> 'e scan_error option \<times> ('w, 'e) scan \<Rightarrow> 'e scan_error option \<times> ('w, 'e) scan \<Rightarrow> bool" where
  "previews st a b \<longleftrightarrow> (a = b \<and> adds (list_all (\<lambda>ev. \<not> mutates ev)) st (snd b)) \<or>
     (\<exists>pre ending kind bytes r rest. fst a = None \<and> audit_ending ending kind \<and>
        trace (snd a) = trace st @ pre @ ending \<and> trace (snd b) = trace st @ pre @ CallReserve kind bytes r # rest)"

lemma previews_prefix:
  assumes "previews st1 a b" and "trace st1 = trace st @ evs" and "list_all (\<lambda>ev. \<not> mutates ev) evs"
  shows "previews st a b"
proof -
  from assms(1) consider "a = b" "adds (list_all (\<lambda>ev. \<not> mutates ev)) st1 (snd b)"
    | pre ending kind bytes r rest where "fst a = None" "audit_ending ending kind"
      "trace (snd a) = trace st1 @ pre @ ending" "trace (snd b) = trace st1 @ pre @ CallReserve kind bytes r # rest"
    by (auto simp: previews_def)
  then show ?thesis
  proof cases
    case 1
    then have "adds (list_all (\<lambda>ev. \<not> mutates ev)) st (snd b)" using assms(2,3) by (auto simp: adds_def)
    with 1 show ?thesis by (simp add: previews_def)
  next
    case 2
    then have "trace (snd a) = trace st @ (evs @ pre) @ ending"
      "trace (snd b) = trace st @ (evs @ pre) @ CallReserve kind bytes r # rest" using assms(2) by simp_all
    with 2(1,2) show ?thesis unfolding previews_def by blast
  qed
qed

lemma previews_same: "adds (list_all (\<lambda>ev. \<not> mutates ev)) st (snd a) \<Longrightarrow> previews st a a"
  by (simp add: previews_def)

lemma handleMarker_previews:
  "previews st (handleMarker (in_mode False s) obj st) (handleMarker (in_mode True s) obj st)"
proof -
  obtain err st' where run: "handleMarker (in_mode True s) obj st = (err, st')" by fastforce
  obtain r w where plan: "inv_plan (deps s) (world st) obj (MarkerKey (config s)) (MarkerValue (config s)) = (r, w)" by fastforce
  show ?thesis
  proof (cases "\<exists>p. r = Inr p \<and> Required p")
    case False
    then have same: "handleMarker (in_mode False s) obj st = handleMarker (in_mode True s) obj st"
      using plan by (cases r) (auto simp: handleMarker_def Let_def)
    have "adds (list_all (\<lambda>ev. \<not> mutates ev)) st (snd (handleMarker (in_mode False s) obj st))"
      using plan False dependencyError_events [of "''minio''" s _ "st\<lparr>world := w\<rparr>"]
      by (cases r) (auto simp: handleMarker_def Let_def adds_def dependencyError_def)
    then show ?thesis unfolding same by (rule previews_same)
  next
    case True
    then obtain p where p: "r = Inr p" "Required p" by blast
    define st1 where "st1 = emit (MarkerObserved (Some (Outcome p)) False) (st\<lparr>world := w\<rparr>)"
    have a: "handleMarker (in_mode False s) obj st = (None, emit (ObjectHandled ''audit_mark'') st1)"
      using plan p by (simp add: handleMarker_def st1_def Let_def)
    have "\<exists>res rest. trace st' = trace st1 @ CallReserve BudgetTransition (Size obj) res # rest"
      using run plan p
      by (auto simp: handleMarker_def st1_def Let_def dependencyError_def
          split: prod.splits sum.splits option.splits if_splits)
    then obtain res rest where "trace st' = trace st @ [MarkerObserved (Some (Outcome p)) False] @ CallReserve BudgetTransition (Size obj) res # rest"
      by (auto simp: st1_def)
    moreover have "trace (snd (handleMarker (in_mode False s) obj st)) = trace st @ [MarkerObserved (Some (Outcome p)) False] @ [ObjectHandled ''audit_mark'']"
      by (simp add: a st1_def)
    ultimately show ?thesis
      unfolding previews_def using a audit_ending.mark by (metis fst_conv run snd_conv)
  qed
qed

lemma handleRestore_previews:
  assumes "act = ActionRestore \<or> act = ActionRenew"
  shows "previews st (handleRestore (in_mode False s) obj act st) (handleRestore (in_mode True s) obj act st)"
proof -
  obtain err st' where run: "handleRestore (in_mode True s) obj act st = (err, st')" by fastforce
  let ?ending = "[RestoreObserved act False False, ObjectHandled (''audit_'' @ action_text act)]"
  have a: "fst (handleRestore (in_mode False s) obj act st) = None"
    "trace (snd (handleRestore (in_mode False s) obj act st)) = trace st @ [] @ ?ending"
    by (simp_all add: handleRestore_def)
  have "\<exists>bytes res rest. trace st' = trace st @ [] @ CallReserve BudgetRestore bytes res # rest"
    using run
    by (auto simp: handleRestore_def Let_def dependencyError_def split: prod.splits sum.splits if_splits)
  moreover have "audit_ending ?ending BudgetRestore"
    using assms audit_ending.restore audit_ending.renew by (auto simp: action_text_def)
  ultimately show ?thesis unfolding previews_def using a by (metis run snd_conv)
qed

lemma perform_previews:
  "previews st (perform (in_mode False s) obj state act st) (perform (in_mode True s) obj state act st)"
proof -
  let ?st1 = "emit (TransitionState (Transitioned state)) st"
  have quiet: "list_all (\<lambda>ev. \<not> mutates ev) [TransitionState (Transitioned state)]" by simp
  have "previews ?st1 (perform (in_mode False s) obj state act st) (perform (in_mode True s) obj state act st)"
    using handleMarker_previews [of ?st1 s obj] handleRestore_previews [of act ?st1 s obj]
    by (cases act) (auto simp: perform_def Let_def previews_def adds_def)
  then show ?thesis by (rule previews_prefix [OF _ _ quiet]) simp
qed

lemma handleObject_previews:
  "previews st (handleObject (in_mode False s) lobj res now st) (handleObject (in_mode True s) lobj res now st)"
proof -
  define act where "act = (if StateKnown lobj then DecideAction (State lobj) (Low res) (High res) now else ActionNone)"
  show ?thesis
  proof (cases "(\<not> StateKnown lobj \<and> (Low res \<or> High res)) \<or> act \<noteq> ActionNone")
    case False
    then have "handleObject (in_mode m s) lobj res now st = perform (in_mode m s) lobj (State lobj) ActionNone st" for m
      by (auto simp: handleObject_def act_def [symmetric] split: if_splits)
    with perform_previews show ?thesis by metis
  next
    case True
    obtain out w where stat: "inv_stat (deps s) (world st) lobj = (out, w)" by fastforce
    define st1 where "st1 = called (CallStat lobj out) w st"
    have "previews st1 (handleObject (in_mode False s) lobj res now st) (handleObject (in_mode True s) lobj res now st)"
    proof (cases "\<exists>cur. out = Inr cur \<and> SameIdentity lobj cur")
      case False
      then have "handleObject (in_mode False s) lobj res now st = handleObject (in_mode True s) lobj res now st"
        "adds (list_all (\<lambda>ev. \<not> mutates ev)) st1 (snd (handleObject (in_mode False s) lobj res now st))"
        using True stat
        by (cases out; auto simp: handleObject_def act_def [symmetric] st1_def Let_def adds_def dependencyError_def)+
      then show ?thesis using previews_same by metis
    next
      case same: True
      then obtain cur where cur: "out = Inr cur" "SameIdentity lobj cur" by blast
      then have "handleObject (in_mode m s) lobj res now st
          = perform (in_mode m s) cur (State cur) (DecideAction (State cur) (Low res) (High res) now) st1" for m
        using True stat by (auto simp: handleObject_def act_def [symmetric] st1_def Let_def)
      with perform_previews show ?thesis by metis
    qed
    then show ?thesis by (rule previews_prefix [where evs = "[CallStat lobj out]"]) (simp_all add: st1_def)
  qed
qed

section \<open>Property\<close>

text \<open>C13: An audit is a dry run of an apply: given the same object, verdict, time and state of the world,
  \<open>handleObject\<close> does exactly the same in both modes, result, trace and world, unless the apply comes to reserve
  budget; then the two traces are the same up to that reservation, where the audit reports
  without an error the action whose budget the apply asks for, and stops.\<close>

theorem audit_previews_apply:
  "let a = handleObject (in_mode False s) obj res now st; b = handleObject (in_mode True s) obj res now st
   in (a = b \<and> list_all (\<lambda>ev. \<not> mutates ev) (drop (length (trace st)) (trace (snd b)))) \<or>
      (\<exists>pre ending kind bytes r rest. fst a = None \<and> audit_ending ending kind \<and>
         trace (snd a) = trace st @ pre @ ending \<and> trace (snd b) = trace st @ pre @ CallReserve kind bytes r # rest)"
  using handleObject_previews [of st s obj res now] unfolding previews_def Let_def adds_def
  by (elim disjE) (rule disjI1, fastforce, rule disjI2, blast)

end
