(* ===== verification/Read_Equivalence.thy ===== *)
theory Read_Equivalence
  imports Tierer_Usage
begin

text \<open>
  \<open>ReadChunk\<close> against a reference: one script call for all the objects of a chunk, its reply cut into
  slices, gives what \<open>ReadCounts\<close> gives object by object and window by window.
\<close>

section \<open>The reference\<close>

definition read_each ::
    "'c redis_commands \<Rightarrow> redis_store \<Rightarrow> 'c \<Rightarrow> object list \<Rightarrow> time list \<Rightarrow> time list \<Rightarrow> store_error + object_usage list" where
  "read_each cmds st c objects lows highs =
     traverse (\<lambda>obj. bind_res (fst (ReadCounts cmds st c (Bucket obj) (Name obj) lows)) (\<lambda>low.
       bind_res (fst (ReadCounts cmds st c (Bucket obj) (Name obj) highs)) (\<lambda>high.
         Inr \<lparr>UsageLow = low, UsageHigh = high\<rparr>))) objects"

text \<open>A window can be read when each of its hours has a key and each key a counter.\<close>

definition window_readable ::
    "('s \<Rightarrow> string \<Rightarrow> rvalue option) \<Rightarrow> 's \<Rightarrow> redis_store \<Rightarrow> object \<Rightarrow> time list \<Rightarrow> bool" where
  "window_readable val s st obj hours \<longleftrightarrow>
     (\<exists>keys. traverse (accessKey (instance_id st) (Bucket obj) (Name obj)) hours = Inr keys \<and>
        (\<forall>key\<in>set keys. counter_of (val s key) \<noteq> None))"

definition window_counts ::
    "('s \<Rightarrow> string \<Rightarrow> rvalue option) \<Rightarrow> 's \<Rightarrow> redis_store \<Rightarrow> object \<Rightarrow> time list \<Rightarrow> int list" where
  "window_counts val s st obj hours = map (\<lambda>h. int (access_count val s (instance_id st) obj h)) hours"

section \<open>Lists of results\<close>

lemma traverse_append:
  "traverse f (xs @ ys) = bind_res (traverse f xs) (\<lambda>us. bind_res (traverse f ys) (\<lambda>vs. Inr (us @ vs)))"
proof (induction xs)
  case Nil
  show ?case by (cases "traverse f ys") simp_all
next
  case (Cons x xs)
  then show ?case by (cases "f x"; cases "traverse f xs"; cases "traverse f ys") simp_all
qed

lemma traverse_Inr_iff:
  assumes "\<And>x y. f x = Inr y \<longleftrightarrow> P x \<and> y = g x"
  shows "traverse f xs = Inr ys \<longleftrightarrow> (\<forall>x\<in>set xs. P x) \<and> ys = map g xs"
  by (induction xs arbitrary: ys) (auto simp: bind_res_Inr_iff assms)

lemma traverse_defined: "traverse f xs = Inr ys \<Longrightarrow> x \<in> set xs \<Longrightarrow> \<exists>y\<in>set ys. f x = Inr y"
  by (induction xs arbitrary: ys) (auto simp: bind_res_Inr_iff)

lemma traverse_total: "(\<And>x. x \<in> set xs \<Longrightarrow> \<exists>y. f x = Inr y) \<Longrightarrow> \<exists>ys. traverse f xs = Inr ys"
  by (induction xs) (auto simp: bind_res_Inr_iff)

lemma window_readable_append:
  "window_readable val s st obj (lows @ highs) \<longleftrightarrow>
     window_readable val s st obj lows \<and> window_readable val s st obj highs"
  by (auto simp: window_readable_def traverse_append bind_res_Inr_iff)

text \<open>The keys of a chunk are all counters exactly when every object's windows can be read.\<close>

lemma chunk_keys_readable:
  "(\<exists>keys. traverse (object_keys st lows highs) objects = Inr keys \<and>
      (\<forall>key\<in>set (concat keys). counter_of (val s key) \<noteq> None)) \<longleftrightarrow>
   (\<forall>obj\<in>set objects. window_readable val s st obj lows \<and> window_readable val s st obj highs)"
proof -
  have obj: "window_readable val s st obj lows \<and> window_readable val s st obj highs \<longleftrightarrow>
      (\<exists>ks. object_keys st lows highs obj = Inr ks \<and> (\<forall>key\<in>set ks. counter_of (val s key) \<noteq> None))" for obj
    unfolding window_readable_append [symmetric] by (simp only: window_readable_def object_keys_def)
  show ?thesis unfolding obj
    by (induction objects) (auto simp: bind_res_Inr_iff)
qed

section \<open>Reads without faults\<close>

lemma through_quiet: "t_faults c = [] \<Longrightarrow> through c f = (Inr (fst (f (t_server c))), c\<lparr>t_server := snd (f (t_server c))\<rparr>)"
  by (cases c) (auto simp: through_def split: prod.splits)

context redis_server
begin

lemma eval_unsigned_quiet:
  assumes "t_faults c = []"
  shows "snd (eval_array (lua_commands redis ks) c ReadUnsignedStrings keys) = c"
    and "fst (eval_array (lua_commands redis ks) c ReadUnsignedStrings keys) = Inr vs \<longleftrightarrow>
      (\<forall>key\<in>set keys. counter_of (val (t_server c) key) \<noteq> None) \<and>
      vs = map (\<lambda>k. BulkReply (dec_nat (counter_at val (t_server c) k))) keys"
proof -
  have read: "traverse (read_counter redis (t_server c)) keys = Inr out \<longleftrightarrow>
      (\<forall>key\<in>set keys. counter_of (val (t_server c) key) \<noteq> None) \<and>
      out = map (\<lambda>k. dec_nat (counter_at val (t_server c) k)) keys" for out
    by (rule traverse_Inr_iff) (auto simp: read_counter_eq counter_at_def)
  note quiet = through_quiet [OF assms] lua_commands_def lua_run_def eval_array_def read_unsigned_script_def redisArray_def
  show "snd (eval_array (lua_commands redis ks) c ReadUnsignedStrings keys) = c"
    by (cases "traverse (read_counter redis (t_server c)) keys") (simp_all add: quiet)
  show "fst (eval_array (lua_commands redis ks) c ReadUnsignedStrings keys) = Inr vs \<longleftrightarrow>
      (\<forall>key\<in>set keys. counter_of (val (t_server c) key) \<noteq> None) \<and>
      vs = map (\<lambda>k. BulkReply (dec_nat (counter_at val (t_server c) k))) keys"
  proof (cases "traverse (read_counter redis (t_server c)) keys")
    case (Inl err)
    with read have "\<not> (\<forall>key\<in>set keys. counter_of (val (t_server c) key) \<noteq> None)" by auto
    then show ?thesis by (simp add: quiet Inl)
  next
    case (Inr out)
    with read [of out] show ?thesis by (auto simp: quiet)
  qed
qed

lemma ReadCounts_quiet:
  assumes "t_faults c = []"
  shows "fst (ReadCounts (lua_commands redis ks) st c (Bucket obj) (Name obj) hours) = Inr ns \<longleftrightarrow>
    hours \<noteq> [] \<and> window_readable val (t_server c) st obj hours \<and> ns = window_counts val (t_server c) st obj hours"
proof (cases "traverse (accessKey (instance_id st) (Bucket obj) (Name obj)) hours")
  case (Inl err)
  then show ?thesis by (simp add: ReadCounts_def window_readable_def)
next
  case (Inr keys)
  have eq: "map (counter_at val (t_server c)) keys = map (access_count val (t_server c) (instance_id st) obj) hours"
    using object_keys_counts [of st hours "[]" obj keys] Inr by (simp add: object_keys_def)
  have dec: "decodeCounts (map (\<lambda>k. BulkReply (dec_nat (counter_at val (t_server c) k))) keys)
      = Inr (window_counts val (t_server c) st obj hours)"
  proof -
    have "map (\<lambda>k. BulkReply (dec_nat (counter_at val (t_server c) k))) keys
        = map (\<lambda>n. BulkReply (dec_nat n)) (map (counter_at val (t_server c)) keys)" by simp
    moreover have "\<forall>n\<in>set (map (counter_at val (t_server c)) keys). n \<le> 9223372036854775807"
      using counter_at_bound by auto
    moreover have "map int (map (counter_at val (t_server c)) keys) = window_counts val (t_server c) st obj hours"
      unfolding eq by (simp add: window_counts_def)
    ultimately show ?thesis by (simp only: decodeCounts_dec_nat)
  qed
  obtain r c1 where ev: "eval_array (lua_commands redis ks) c ReadUnsignedStrings keys = (r, c1)" by fastforce
  show ?thesis
  proof (cases r)
    case (Inl err)
    then have "\<not> (\<forall>key\<in>set keys. counter_of (val (t_server c) key) \<noteq> None)"
      using eval_unsigned_quiet(2) [OF assms, of ks keys] ev by auto
    then show ?thesis using Inl Inr ev by (simp add: ReadCounts_def window_readable_def)
  next
    case vs: (Inr vs)
    then have "(\<forall>key\<in>set keys. counter_of (val (t_server c) key) \<noteq> None) \<and>
        vs = map (\<lambda>k. BulkReply (dec_nat (counter_at val (t_server c) k))) keys"
      using eval_unsigned_quiet(2) [OF assms, of ks keys vs] ev by auto
    then show ?thesis using vs Inr ev dec by (auto simp: ReadCounts_def window_readable_def)
  qed
qed

lemma read_each_quiet:
  assumes "t_faults c = []" and "lows \<noteq> []" and "highs \<noteq> []"
  shows "read_each (lua_commands redis ks) st c objects lows highs = Inr usage \<longleftrightarrow>
    (\<forall>obj\<in>set objects. window_readable val (t_server c) st obj lows \<and> window_readable val (t_server c) st obj highs) \<and>
    usage = map (\<lambda>obj. \<lparr>UsageLow = window_counts val (t_server c) st obj lows,
      UsageHigh = window_counts val (t_server c) st obj highs\<rparr>) objects"
  unfolding read_each_def
  by (rule traverse_Inr_iff) (auto simp: bind_res_Inr_iff ReadCounts_quiet [OF assms(1)] assms(2,3))

lemma ReadChunk_quiet:
  assumes "t_faults c = []"
    and "validateAggregateAccessKeys (int (length objects)) (int (length lows)) (int (length highs))
      maxRedisAccessKeysPerChunk = Inr ()"
  shows "fst (ReadChunk fmt (lua_commands redis ks) st c objects lows highs) = Inr (usage, cov) \<longleftrightarrow>
    (\<forall>obj\<in>set objects. window_readable val (t_server c) st obj lows \<and> window_readable val (t_server c) st obj highs) \<and>
    usage = map (\<lambda>obj. \<lparr>UsageLow = window_counts val (t_server c) st obj lows,
      UsageHigh = window_counts val (t_server c) st obj highs\<rparr>) objects \<and>
    fst (ReadCoverage fmt (lua_commands redis ks) st c lows) = Inr cov"
proof -
  have ne: "objects \<noteq> []" "lows \<noteq> []" "highs \<noteq> []"
    using assms(2) by (auto simp: validateAggregateAccessKeys_def split: if_splits)
  note chunk = chunk_keys_readable [of st lows highs objects val "t_server c"]
  show ?thesis
  proof (cases "traverse (object_keys st lows highs) objects")
    case (Inl err)
    with chunk ne assms(2) show ?thesis by (auto simp: ReadChunk_def)
  next
    case (Inr keys)
    obtain r where ev: "eval_array (lua_commands redis ks) c ReadUnsignedStrings (concat keys) = (r, c)"
      using eval_unsigned_quiet(1) [OF assms(1), of ks "concat keys"] by (metis prod.collapse)
    show ?thesis
    proof (cases r)
      case (Inl err)
      then have "\<not> (\<forall>key\<in>set (concat keys). counter_of (val (t_server c) key) \<noteq> None)"
        using eval_unsigned_quiet(2) [OF assms(1), of ks "concat keys"] ev by auto
      with chunk Inr have "\<not> (\<forall>obj\<in>set objects. window_readable val (t_server c) st obj lows \<and>
        window_readable val (t_server c) st obj highs)" by auto
      then show ?thesis using ne assms(2) Inr Inl ev by (auto simp: ReadChunk_def)
    next
      case vs: (Inr vs)
      have "(\<forall>key\<in>set (concat keys). counter_of (val (t_server c) key) \<noteq> None) \<and>
          vs = map (\<lambda>k. BulkReply (dec_nat (counter_at val (t_server c) k))) (concat keys)"
        using eval_unsigned_quiet(2) [OF assms(1), of ks "concat keys" vs] ev vs by auto
      then have ok: "\<forall>obj\<in>set objects. window_readable val (t_server c) st obj lows \<and>
          window_readable val (t_server c) st obj highs"
        and out: "vs = map (\<lambda>n. BulkReply (dec_nat n)) (map (counter_at val (t_server c)) (concat keys))"
        using chunk Inr by (auto simp: comp_def)
      let ?f = "access_count val (t_server c) (instance_id st)"
      have bound: "?f obj h \<le> 9223372036854775807" for obj h
        using counter_at_bound by (auto simp: access_count_def split: sum.splits)
      have "usage_loop (length lows) (length highs) objects vs
          = Inr (map (\<lambda>obj. \<lparr>UsageLow = window_counts val (t_server c) st obj lows,
              UsageHigh = window_counts val (t_server c) st obj highs\<rparr>) objects)"
        using usage_loop_slices [of ?f lows highs objects, OF bound]
        unfolding out chunk_keys_counts [OF Inr] by (simp add: map_concat comp_def window_counts_def)
      then show ?thesis using ne assms(2) Inr vs ev ok
        by (auto simp: ReadChunk_def split: sum.splits prod.splits)
    qed
  qed
qed

end

section \<open>Property\<close>

text \<open>C14: One read of a chunk is the same as reading its objects one by one: where no message is lost, a chunk's read returns
  a usage and a coverage exactly when the chunk has at most the allowed number of keys, \<open>ReadCounts\<close> of every object and
  window returns the counts of that usage, and \<open>ReadCoverage\<close> returns that coverage; the slices of the one reply
  never mix objects or windows.\<close>

theorem chunk_read_is_pointwise:
  assumes "redis_server redis val expiry clock" and "t_faults c = []"
  shows "fst (ReadChunk fmt (lua_commands redis ks) st c objects lows highs) = Inr (usage, cov) \<longleftrightarrow>
    validateAggregateAccessKeys (int (length objects)) (int (length lows)) (int (length highs)) maxRedisAccessKeysPerChunk = Inr () \<and>
    read_each (lua_commands redis ks) st c objects lows highs = Inr usage \<and>
    fst (ReadCoverage fmt (lua_commands redis ks) st c lows) = Inr cov"
proof (cases "validateAggregateAccessKeys (int (length objects)) (int (length lows)) (int (length highs))
    maxRedisAccessKeysPerChunk = Inr ()")
  case True
  then have "lows \<noteq> []" "highs \<noteq> []"
    by (auto simp: validateAggregateAccessKeys_def split: if_splits)
  with True show ?thesis
    by (simp add: redis_server.ReadChunk_quiet [OF assms True] redis_server.read_each_quiet [OF assms])
next
  case False
  then show ?thesis by (auto simp: ReadChunk_def split: sum.splits)
qed

theorem chunk_read_is_pointwise_witness:
  "read_each (lua_commands mem_redis mem_keyspace) demo_store \<lparr>t_server = counted_server, t_faults = []\<rparr>
     [plain_object ''b'' ''o'', plain_object ''b'' ''p''] [0, Hour] [Hour]
   = Inr [\<lparr>UsageLow = [0, 7], UsageHigh = [7]\<rparr>, \<lparr>UsageLow = [0, 0], UsageHigh = [0]\<rparr>]"
proof -
  let ?c = "\<lparr>t_server = counted_server, t_faults = []\<rparr>"
  have "fst (ReadChunk (\<lambda>_ _. []) (lua_commands mem_redis mem_keyspace) demo_store ?c
      [plain_object ''b'' ''o'', plain_object ''b'' ''p''] [0, Hour] [Hour])
    = Inr ([\<lparr>UsageLow = [0, 7], UsageHigh = [7]\<rparr>, \<lparr>UsageLow = [0, 0], UsageHigh = [0]\<rparr>], [True, True])"
    by code_simp
  then show ?thesis
    using chunk_read_is_pointwise [OF mem.redis_server_axioms, of ?c "\<lambda>_ _. []" mem_keyspace demo_store] by simp
qed

end
