(* ===== verification/Decoder_Print.thy ===== *)
theory Decoder_Print
  imports Decoder
begin

text \<open>
  The reference printer of the updater's request format, and that the decoder of theory \<open>Decoder\<close> reads
  back what it prints: any two names, in either order of the fields, with JSON space between any two
  tokens, as one object or as the lines of an NDJSON body.
\<close>

section \<open>Strings\<close>

definition hex_char :: "nat \<Rightarrow> char" where
  "hex_char d = char_of (if d < 10 then 48 + d else 87 + d)"

definition json_char :: "char \<Rightarrow> string" where
  "json_char c =
     (if c = CHR 0x22 \<or> c = CHR 0x5C then [CHR 0x5C, c]
      else if code c < 32 then [CHR 0x5C, CHR ''u'', CHR ''0'', CHR ''0'', hex_char (code c div 16), hex_char (code c mod 16)]
      else [c])"

definition json_chars :: "string \<Rightarrow> string" where
  "json_chars s = concat (map json_char s)"

definition json_string :: "string \<Rightarrow> string" where
  "json_string s = CHR 0x22 # json_chars s @ [CHR 0x22]"

lemma hex_value_char: "d < 16 \<Longrightarrow> hex_value (hex_char d) = Some d"
  by (auto simp: hex_value_def hex_char_def)

lemma read_escape_control:
  assumes "code c < 32"
  shows "read_escape ([CHR 0x5C, CHR ''u'', CHR ''0'', CHR ''0'', hex_char (code c div 16), hex_char (code c mod 16)] @ s)
    = Some ([c], 6)"
proof -
  have "hex_value CHR ''0'' = Some 0" by (simp add: hex_value_def)
  then show ?thesis
    using assms by (simp add: read_escape_def hex_value_char is_surrogate_def encode_rune_def)
qed

lemma append_single: "(@) [c] = (#) c"
  by auto

lemma read_json_char:
  "read_string (json_char c @ s) = map_option (apfst ((#) c)) (read_string s)"
proof (cases "c = CHR 0x22 \<or> c = CHR 0x5C")
  case True
  then have "read_escape (CHR 0x5C # c # s) = Some ([c], 2)"
    by (cases "CHR 0x5C # c # s" rule: getu4.cases) (auto simp: read_escape_def simple_escape_def)
  then show ?thesis using True by (subst read_string.simps) (auto simp: json_char_def append_single)
next
  case False
  show ?thesis
  proof (cases "code c < 32")
    case True
    then show ?thesis
      using False read_escape_control [OF True, of s]
      by (subst read_string.simps) (simp add: json_char_def append_single)
  next
    case printed: False
    then show ?thesis using False by (subst read_string.simps) (simp add: json_char_def)
  qed
qed

lemma read_json_string: "read_string (json_chars s @ CHR 0x22 # rest) = Some (s, rest)"
proof (induction s)
  case Nil
  then show ?case by (subst read_string.simps) (simp add: json_chars_def)
next
  case (Cons c s)
  then show ?case using read_json_char [of c "json_chars s @ CHR 0x22 # rest"] by (simp add: json_chars_def)
qed

section \<open>Tokens\<close>

lemma peek_space: "list_all json_space ws \<Longrightarrow> peek (ws @ s) = peek s"
  by (induction ws) (simp_all add: peek_def)

lemma Token_space: "list_all json_space ws \<Longrightarrow> Token st (ws @ s) = Token st s"
  by (simp add: Token.simps [of st "ws @ s"] Token.simps [of st s] peek_space)

lemma More_space: "list_all json_space ws \<Longrightarrow> More (ws @ s) = More s"
  by (simp add: More_def peek_space)

lemma peek_char: "\<not> json_space c \<Longrightarrow> peek (c # s) = c # s"
  by (simp add: peek_def)

lemma punctuation [simp]:
  "\<not> json_space CHR ''{''" "\<not> json_space CHR ''}''" "\<not> json_space CHR '':''" "\<not> json_space CHR '',''"
  "\<not> json_space CHR 0x22"
  by (simp_all add: json_space_def)

lemma Token_char:
  "Token TopValue (CHR ''{'' # s) = OpenObject ObjectStart s"
  "st = ObjectStart \<or> st = ObjectComma \<Longrightarrow> Token st (CHR ''}'' # s) = CloseObject TopValue s"
  "Token ObjectColon (CHR '':'' # s) = Token ObjectValue s"
  "Token ObjectComma (CHR '','' # s) = Token ObjectKey s"
  "Token st [] = EndOfInput"
  by (simp_all add: Token.simps [of _ "_ # _"] Token.simps [of _ "[]"] peek_char peek_def value_allowed_def)

lemma Token_string:
  "st = ObjectStart \<or> st = ObjectKey \<Longrightarrow> Token st (json_string x @ s) = TextToken x ObjectColon s"
  "Token ObjectValue (json_string x @ s) = TextToken x ObjectComma s"
  by (auto simp: Token.simps [of _ "_ # _"] peek_char json_string_def read_json_string value_allowed_def value_end_def)

lemma More_char:
  "\<not> More (CHR ''}'' # s)" "More (CHR '','' # s)" "More (json_string x @ s)"
  by (simp_all add: More_def peek_char json_string_def)

section \<open>Objects\<close>

text \<open>\<open>sp i\<close> is the space at the \<open>i\<close>-th place between two tokens, \<open>swapped\<close> puts the object first.\<close>

definition json_field :: "(nat \<Rightarrow> string) \<Rightarrow> nat \<Rightarrow> string \<Rightarrow> string \<Rightarrow> string" where
  "json_field sp i key v = json_string key @ sp i @ '':'' @ sp (i + 1) @ json_string v @ sp (i + 2)"

definition json_access :: "(nat \<Rightarrow> string) \<Rightarrow> bool \<Rightarrow> access \<Rightarrow> string" where
  "json_access sp swapped rec =
     (let bucket = (''bucket'', BucketName rec); object = (''object'', ObjectName rec);
          (first, second) = (if swapped then (object, bucket) else (bucket, object))
      in sp 0 @ ''{'' @ sp 1 @ json_field sp 2 (fst first) (snd first) @ '','' @ sp 5 @
         json_field sp 6 (fst second) (snd second) @ ''}'' @ sp 9)"

lemma fields_loop_end: "list_all json_space ws \<Longrightarrow> fields_loop st (ws @ CHR ''}'' # s) seen rec = Inr (rec, st, ws @ CHR ''}'' # s)"
  by (simp add: fields_loop.simps [of st] More_space More_char)

lemma fields_loop_field:
  assumes "\<forall>i. list_all json_space (sp i)" and "st = ObjectStart \<or> (st = ObjectKey)"
    and "key \<in> {''bucket'', ''object''}" and "key \<notin> seen" and "v \<noteq> []" and ws: "list_all json_space ws"
  shows "fields_loop st (ws @ json_field sp i key v @ s) seen rec =
      fields_loop ObjectComma (sp (i + 2) @ s) (insert key seen)
        (if key = ''bucket'' then rec\<lparr>BucketName := v\<rparr> else rec\<lparr>ObjectName := v\<rparr>)"
proof -
  have sp: "Token st (sp j @ t) = Token st t" for st j t using assms(1) Token_space by blast
  have "Token st (ws @ json_field sp i key v @ s) = TextToken key ObjectColon (sp i @ CHR '':'' # sp (i + 1) @ json_string v @ sp (i + 2) @ s)"
    using assms(2) ws by (simp add: Token_space json_field_def Token_string)
  moreover have "Token ObjectColon (sp i @ CHR '':'' # sp (i + 1) @ json_string v @ sp (i + 2) @ s) = TextToken v ObjectComma (sp (i + 2) @ s)"
    by (simp add: sp Token_char Token_string)
  moreover have "More (ws @ json_field sp i key v @ s)" using ws by (simp add: More_space More_char json_field_def)
  ultimately show ?thesis
    using assms(3-5) by (subst fields_loop.simps) auto
qed

text \<open>After a field the next one begins with a comma, which the same call of \<^verbatim>\<open>Token\<close> skips.\<close>

lemma fields_loop_comma:
  assumes "\<forall>i. list_all json_space (sp i)" and "list_all json_space ws" and "More s"
  shows "fields_loop ObjectComma (ws @ CHR '','' # s) seen rec = fields_loop ObjectKey s seen rec"
  using assms
  by (subst (1 2) fields_loop.simps) (simp add: More_space More_char Token_space Token_char)

lemma decodeObject_printed:
  assumes "\<forall>i. list_all json_space (sp i)" and "BucketName rec \<noteq> []" and "ObjectName rec \<noteq> []"
  shows "decodeObject (json_access sp swapped rec) = Inr rec"
proof -
  have read: "decodeObject (sp 0 @ ''{'' @ sp 1 @ json_field sp 2 k1 v1 @ '','' @ sp 5 @ json_field sp 6 k2 v2 @ ''}'' @ sp 9) = Inr rec"
    if "k1 \<in> {''bucket'', ''object''}" "k2 \<in> {''bucket'', ''object''}" "k1 \<noteq> k2" "v1 \<noteq> []" "v2 \<noteq> []"
      and "(if k2 = ''bucket'' then (if k1 = ''bucket'' then r\<lparr>BucketName := v1\<rparr> else r\<lparr>ObjectName := v1\<rparr>)\<lparr>BucketName := v2\<rparr>
            else (if k1 = ''bucket'' then r\<lparr>BucketName := v1\<rparr> else r\<lparr>ObjectName := v1\<rparr>)\<lparr>ObjectName := v2\<rparr>) = rec"
      and r: "r = \<lparr>BucketName = [], ObjectName = []\<rparr>"
    for k1 v1 k2 v2 r
  proof -
    let ?tail = "''}'' @ sp 9"
    have sp: "list_all json_space (sp j)" for j using assms(1) by blast
    have more: "More (sp 5 @ json_field sp 6 k2 v2 @ ?tail)" by (simp add: More_space sp More_char json_field_def)
    have "fields_loop ObjectStart (sp 1 @ json_field sp 2 k1 v1 @ '','' @ sp 5 @ json_field sp 6 k2 v2 @ ?tail) {} r
        = Inr (rec, ObjectComma, sp 8 @ ?tail)"
      using fields_loop_field [OF assms(1) _ that(1) _ that(4) sp, of ObjectStart "{}" 1 2]
        fields_loop_comma [OF assms(1) sp more]
        fields_loop_field [OF assms(1) _ that(2) _ that(5) sp, of ObjectKey "{k1}" 5 6]
        fields_loop_end [OF sp] that(3,6)
      by simp
    then show ?thesis
      using assms(2,3) sp Token_space [OF sp, of TopValue 9 "[]"]
      by (simp add: decodeObject_def Token_space Token_char r)
  qed
  show ?thesis
    unfolding json_access_def Let_def using assms(2,3)
      read [of "''object''" "''bucket''" "ObjectName rec" "BucketName rec" "\<lparr>BucketName = [], ObjectName = []\<rparr>"]
      read [of "''bucket''" "''object''" "BucketName rec" "ObjectName rec" "\<lparr>BucketName = [], ObjectName = []\<rparr>"]
    by (cases swapped) simp_all
qed

section \<open>Bodies\<close>

text \<open>An NDJSON body: one line for each access, the layout of the \<open>i\<close>-th line its own.\<close>

definition ndjson_body :: "(nat \<Rightarrow> nat \<Rightarrow> string) \<Rightarrow> (nat \<Rightarrow> bool) \<Rightarrow> access list \<Rightarrow> bool \<Rightarrow> string" where
  "ndjson_body sp swapped recs final_newline =
     sep_join CHR 0x0A (map (\<lambda>(i, rec). json_access (sp i) (swapped i) rec) (enumerate 0 recs)) @
     (if final_newline then [CHR 0x0A] else [])"

lemma json_char_no_newline: "CHR 0x0A \<notin> set (json_char c)"
proof -
  have "hex_char d \<noteq> CHR 0x0A" if "d < 16" for d
    using hex_value_char [OF that] by (auto simp: hex_value_def)
  moreover have "code c mod 256 < 256" by simp
  then have "code c div 16 < 16" unfolding of_char_mod_256 by (simp add: div_less_iff_less_mult)
  ultimately have "hex_char (code c div 16) \<noteq> CHR 0x0A" "hex_char (code c mod 16) \<noteq> CHR 0x0A" by auto
  then show ?thesis by (auto simp: json_char_def)
qed

lemma json_access_no_newline:
  assumes "\<forall>i. CHR 0x0A \<notin> set (sp i)"
  shows "CHR 0x0A \<notin> set (json_access sp swapped rec)"
  using assms json_char_no_newline
  by (auto simp: json_access_def json_field_def json_string_def json_chars_def Let_def split: if_splits)

text \<open>The carriage return that ends a line is space of the line.\<close>

lemma TrimSuffix_access:
  assumes "\<forall>i. list_all json_space (sp i)"
  obtains sp' where "TrimSuffix (json_access sp swapped rec) CHR 0x0D = json_access sp' swapped rec"
    and "\<forall>i. list_all json_space (sp' i)"
proof (cases "sp 9 \<noteq> [] \<and> last (sp 9) = CHR 0x0D")
  case True
  let ?sp = "sp(9 := butlast (sp 9))"
  have "TrimSuffix (json_access sp swapped rec) CHR 0x0D = json_access ?sp swapped rec"
    using True by (simp add: TrimSuffix_def json_access_def json_field_def Let_def butlast_append split: prod.splits)
  moreover have "\<forall>i. list_all json_space (?sp i)" using assms by (auto simp: list_all_iff dest: in_set_butlastD)
  ultimately show ?thesis by (rule that)
next
  case False
  then have "TrimSuffix (json_access sp swapped rec) CHR 0x0D = json_access sp swapped rec"
    by (auto simp: TrimSuffix_def json_access_def Let_def split: prod.splits if_splits)
  then show ?thesis using assms by (rule that)
qed

lemma trim_left_keeps:
  "\<forall>r\<in>set runes. c \<notin> set r \<Longrightarrow> \<not> ascii_space c \<Longrightarrow> c \<in> set s \<Longrightarrow> c \<in> set (trim_left runes s)"
proof (induction runes s rule: trim_left.induct)
  case (1 runes s)
  let ?n = "leading_space runes s"
  show ?case
  proof (cases "?n = 0")
    case True
    then show ?thesis using "1.prems" by (simp add: trim_left.simps)
  next
    case False
    then obtain d ds where s: "s = d # ds" by (cases s) (auto simp: leading_space_def)
    have "c \<notin> set (take ?n s)"
    proof (cases "ascii_space d")
      case True
      then show ?thesis using s "1.prems" by (auto simp: leading_space_def)
    next
      case False
      then obtain r where "r \<in> set runes" "starts_with s r" "?n = length r"
        using s \<open>?n \<noteq> 0\<close> by (auto simp: leading_space_def find_Some_iff split: option.splits) (metis nth_mem)
      then show ?thesis using "1.prems"(1) by (auto simp: starts_with_def)
    qed
    then have "c \<in> set (drop ?n s)"
      using "1.prems"(3) set_append [of "take ?n s" "drop ?n s"] by auto
    then show ?thesis using "1.IH" False "1.prems" by (subst trim_left.simps) simp
  qed
qed

lemma TrimSpace_object:
  assumes "CHR ''{'' \<in> set s"
  shows "TrimSpace s \<noteq> []"
proof -
  have "\<forall>r\<in>set space_runes. CHR ''{'' \<notin> set r" "\<not> ascii_space CHR ''{''" by code_simp+
  then have "CHR ''{'' \<in> set (TrimSpace s)" using assms by (simp add: TrimSpace_def trim_left_keeps)
  then show ?thesis by auto
qed

lemma decode_line_printed:
  assumes "\<forall>i. list_all json_space (sp i)" and "BucketName rec \<noteq> []" and "ObjectName rec \<noteq> []"
  shows "decode_line (json_access sp swapped rec) = Inr rec"
proof -
  obtain sp' where sp': "TrimSuffix (json_access sp swapped rec) CHR 0x0D = json_access sp' swapped rec"
    "\<forall>i. list_all json_space (sp' i)" using TrimSuffix_access [OF assms(1)] .
  have "CHR ''{'' \<in> set (json_access sp' swapped rec)" by (simp add: json_access_def Let_def split: prod.splits)
  then show ?thesis
    using sp'(1) decodeObject_printed [OF sp'(2) assms(2,3)] by (simp add: decode_line_def TrimSpace_object)
qed

lemma traverse_printed:
  assumes "\<forall>j i. list_all json_space (sp j i)" and "\<forall>rec\<in>set recs. BucketName rec \<noteq> [] \<and> ObjectName rec \<noteq> []"
  shows "traverse decode_line (map (\<lambda>(i, rec). json_access (sp i) (swapped i) rec) (enumerate n recs)) = Inr recs"
  using assms(2)
  by (induction recs arbitrary: n) (simp_all add: decode_line_printed assms(1))

lemma ndjson_lines:
  assumes "\<forall>j i. CHR 0x0A \<notin> set (sp j i)" and "recs \<noteq> []"
  shows "decodeNDJSON (ndjson_body sp swapped recs nl) n =
     (let lines = map (\<lambda>(i, rec). json_access (sp i) (swapped i) rec) (enumerate 0 recs)
      in if int (length lines) > n then Inl ErrTooManyRecords else traverse decode_line lines)"
proof -
  define lines where "lines = map (\<lambda>(i, rec). json_access (sp i) (swapped i) rec) (enumerate 0 recs)"
  have fresh: "CHR 0x0A \<notin> set line" if "line \<in> set lines" for line
    using that json_access_no_newline assms(1) by (force simp: lines_def)
  have line: "line \<noteq> []" if "line \<in> set lines" for line
    using that by (auto simp: lines_def json_access_def Let_def split: prod.splits)
  have ne: "lines \<noteq> []" using assms(2) by (cases recs) (simp_all add: lines_def)
  have one: "split_on CHR 0x0A (sep_join CHR 0x0A lines) = lines"
    using fresh ne by (intro split_on_sep_join) auto
  moreover have "split_on CHR 0x0A (sep_join CHR 0x0A lines @ [CHR 0x0A]) = lines @ [[]]"
  proof -
    have "sep_join CHR 0x0A lines @ [CHR 0x0A] = sep_join CHR 0x0A (lines @ [[]])"
      using ne by (induction lines rule: induct_list012) simp_all
    then show ?thesis using fresh by (simp only:, intro split_on_sep_join) auto
  qed
  moreover have "last lines \<noteq> []" using ne line last_in_set by blast
  ultimately show ?thesis
    unfolding decodeNDJSON_def ndjson_body_def Let_def lines_def [symmetric] using ne by (cases nl) simp_all
qed

section \<open>Requests\<close>

lemma read_limited_all:
  "list_all (\<lambda>(data, failed). \<not> failed) reads \<Longrightarrow> read_limited n reads = (take n (concat (map fst reads)), False)"
proof (induction reads arbitrary: n)
  case (Cons r reads)
  obtain data failed where r: "r = (data, failed)" by fastforce
  show ?case
  proof (cases "n < length data")
    case True
    then show ?thesis using Cons.prems r by simp
  next
    case False
    then show ?thesis using Cons r by auto
  qed
qed simp

lemma content_types:
  "validateContentType ''application/x-ndjson'' = Inr ''application/x-ndjson''"
  "validateContentType ''application/json'' = Inr ''application/json''"
  by code_simp+


definition demo_accesses :: "access list" where
  "demo_accesses = [\<lparr>BucketName = ''b'', ObjectName = [CHR 0x22, CHR 0x0A]\<rparr>, \<lparr>BucketName = ''c'', ObjectName = ''o''\<rparr>]"

definition demo_body :: string where
  "demo_body = ndjson_body (\<lambda>j i. if i = 9 then [CHR 0x0D] else '' '') (\<lambda>j. j = 1) demo_accesses True"


end
