(* ===== verification/Decoder_Types.thy ===== *)
theory Decoder_Types
  imports Decoder "HOL-Library.Code_Target_Nat"
begin

text \<open>
  What an accepted request is made of: the strings the decoder takes out of a valid UTF-8 body are
  valid UTF-8 again, whatever escapes they are written with. The decoder looks at single bytes; what
  makes this safe is that a byte below 128 never lies inside a rune.
\<close>

section \<open>Runes\<close>

lemma byte_in_append: "n < length r \<Longrightarrow> byte_in lo hi n (r @ s) = byte_in lo hi n r"
  by (simp add: byte_in_def nth_append)

text \<open>The four forms of a rune.\<close>

definition rune1 :: "string \<Rightarrow> bool" where
  "rune1 s \<longleftrightarrow> byte_in 0 127 0 s"

definition rune2 :: "string \<Rightarrow> bool" where
  "rune2 s \<longleftrightarrow> byte_in 194 223 0 s \<and> byte_in 128 191 1 s"

definition rune3 :: "string \<Rightarrow> bool" where
  "rune3 s \<longleftrightarrow> ((byte_in 224 224 0 s \<and> byte_in 160 191 1 s) \<or> (byte_in 225 236 0 s \<and> byte_in 128 191 1 s) \<or>
     (byte_in 237 237 0 s \<and> byte_in 128 159 1 s) \<or> (byte_in 238 239 0 s \<and> byte_in 128 191 1 s)) \<and> byte_in 128 191 2 s"

definition rune4 :: "string \<Rightarrow> bool" where
  "rune4 s \<longleftrightarrow> ((byte_in 240 240 0 s \<and> byte_in 144 191 1 s) \<or> (byte_in 241 243 0 s \<and> byte_in 128 191 1 s) \<or>
     (byte_in 244 244 0 s \<and> byte_in 128 143 1 s)) \<and> byte_in 128 191 2 s \<and> byte_in 128 191 3 s"

lemma rune_length_forms:
  "rune_length s = (if rune1 s then 1 else if rune2 s then 2 else if rune3 s then 3 else if rune4 s then 4 else 0)"
  by (simp only: rune_length_def rune1_def rune2_def rune3_def rune4_def conj_assoc)

lemma rune_append:
  "1 \<le> length s \<Longrightarrow> rune1 (s @ t) = rune1 s" "2 \<le> length s \<Longrightarrow> rune2 (s @ t) = rune2 s"
  "3 \<le> length s \<Longrightarrow> rune3 (s @ t) = rune3 s" "4 \<le> length s \<Longrightarrow> rune4 (s @ t) = rune4 s"
  by (simp_all add: rune1_def rune2_def rune3_def rune4_def byte_in_append del: length_greater_0_conv)

lemma rune_long:
  "rune1 s \<Longrightarrow> 1 \<le> length s" "rune2 s \<Longrightarrow> 2 \<le> length s" "rune3 s \<Longrightarrow> 3 \<le> length s" "rune4 s \<Longrightarrow> 4 \<le> length s"
  by (auto simp: rune1_def rune2_def rune3_def rune4_def byte_in_def Suc_le_eq)

lemma rune_length_cases:
  obtains "rune_length s = 0" | "rune_length s = 1" "rune1 s" | "rune_length s = 2" "\<not> rune1 s" "rune2 s"
  | "rune_length s = 3" "\<not> rune1 s" "\<not> rune2 s" "rune3 s"
  | "rune_length s = 4" "\<not> rune1 s" "\<not> rune2 s" "\<not> rune3 s" "rune4 s"
  using rune_length_forms [of s] by (metis (full_types))

lemma rune_length_le: "rune_length s \<le> length s"
  by (cases s rule: rune_length_cases) (auto dest: rune_long)

text \<open>A rune is read off the front, whatever follows it.\<close>

lemma rune_length_append:
  assumes "rune_length s \<noteq> 0"
  shows "rune_length (s @ t) = rune_length s"
  using assms rune_long [of s]
  by (cases s rule: rune_length_cases) (simp_all add: rune_append rune_length_forms [of "s @ t"])

lemma rune_length_take:
  assumes "rune_length s \<le> m"
  shows "rune_length (take m s) = rune_length s"
proof -
  have len: "rune_length s \<le> length (take m s)" using assms rune_length_le [of s] by simp
  note app = rune_append [of "take m s" "drop m s", unfolded append_take_drop_id]
  show ?thesis
  proof (cases "rune_length s = 0")
    case False
    then show ?thesis
      using len app rune_length_forms [of "take m s"] by (cases s rule: rune_length_cases) auto
  next
    case True
    then have "rune_length (take m s) = 0"
      using rune_length_append [of "take m s" "drop m s"] by (metis append_take_drop_id)
    with True show ?thesis by simp
  qed
qed

lemma rune_tail_high:
  assumes "0 < i" and "i < rune_length s"
  shows "128 \<le> code (s ! i)"
proof (cases s rule: rune_length_cases)
  case 3
  then show ?thesis using assms by (auto simp: rune2_def byte_in_def less_Suc_eq numeral_eq_Suc)
next
  case 4
  have "code (s ! 1) \<ge> 128" "code (s ! 2) \<ge> 128" using 4(4) by (auto simp: rune3_def byte_in_def)
  moreover have "i = 1 \<or> i = 2" using 4(1) assms by linarith
  ultimately show ?thesis by blast
next
  case 5
  have "code (s ! 1) \<ge> 128" "code (s ! 2) \<ge> 128" "code (s ! 3) \<ge> 128" using 5(5) by (auto simp: rune4_def byte_in_def)
  moreover have "i = 1 \<or> i = 2 \<or> i = 3" using 5(1) assms by linarith
  ultimately show ?thesis by blast
qed (use assms in auto)

lemma rune_length_ascii: "code c < 128 \<Longrightarrow> rune_length (c # s) = 1"
  by (simp add: rune_length_def byte_in_def)

lemma utf8_valid_Nil [simp]: "utf8_valid []"
  by (simp add: utf8_valid.simps)

lemma utf8_valid_append: "utf8_valid s \<Longrightarrow> utf8_valid t \<Longrightarrow> utf8_valid (s @ t)"
proof (induction s rule: utf8_valid.induct)
  case (1 s)
  show ?case
  proof (cases "s = []")
    case False
    have n: "rune_length s \<noteq> 0" "utf8_valid (drop (rune_length s) s)"
      using "1.prems"(1) False utf8_valid.simps [of s] by (auto split: if_splits)
    have "utf8_valid (drop (rune_length s) s @ t)" using "1.IH" [OF False n(1) n(2) "1.prems"(2)] .
    moreover have "drop (rune_length (s @ t)) (s @ t) = drop (rune_length s) s @ t"
      using rune_length_append [OF n(1)] rune_length_le [of s] by simp
    ultimately show ?thesis
      using rune_length_append [OF n(1), of t] n(1) False by (subst utf8_valid.simps) simp
  qed (use 1 in simp)
qed

text \<open>A valid string may be cut at an ASCII byte.\<close>

lemma utf8_valid_cut:
  "utf8_valid (s @ c # t) \<Longrightarrow> code c < 128 \<Longrightarrow> utf8_valid s \<and> utf8_valid t"
proof (induction "length s" arbitrary: s rule: less_induct)
  case less
  let ?whole = "s @ c # t"
  have run: "rune_length ?whole \<noteq> 0" "utf8_valid (drop (rune_length ?whole) ?whole)"
    using less.prems(1) utf8_valid.simps [of ?whole] by (auto split: if_splits)
  show ?case
  proof (cases "s = []")
    case True
    then show ?thesis using run(2) less.prems(2) by (simp add: rune_length_ascii)
  next
    case False
    let ?n = "rune_length ?whole"
    have n: "?n \<le> length s"
    proof (rule ccontr)
      assume "\<not> ?n \<le> length s"
      then have "128 \<le> code (?whole ! length s)" using False by (intro rune_tail_high) auto
      then show False using less.prems(2) by simp
    qed
    have "rune_length (take (length s) ?whole) = ?n" using n by (intro rune_length_take)
    then have head: "rune_length s = ?n" by simp
    have "utf8_valid (drop ?n s @ c # t)" using run(2) n by simp
    then have "utf8_valid (drop ?n s) \<and> utf8_valid t"
      using less.hyps [of "drop ?n s"] less.prems(2) run(1) False by simp
    then show ?thesis using head run(1) utf8_valid.simps [of s] by simp
  qed
qed

lemma utf8_valid_tl: "utf8_valid (c # t) \<Longrightarrow> code c < 128 \<Longrightarrow> utf8_valid t"
  using utf8_valid_cut [of "[]" c t] by simp

lemma utf8_valid_ascii: "\<forall>c\<in>set s. code c < 128 \<Longrightarrow> utf8_valid (s @ t) \<Longrightarrow> utf8_valid t"
  by (induction s) (auto dest: utf8_valid_tl)

lemma utf8_valid_rune: "rune_length r = length r \<Longrightarrow> utf8_valid r"
  by (cases "r = []") (simp_all add: utf8_valid.simps [of r])

section \<open>Escapes\<close>

lemma code_char_of [simp]: "n < 256 \<Longrightarrow> code (char_of n) = n"
  by simp

text \<open>The encodings of two, three and four bytes, by their six-bit digits.\<close>

lemma encoded2: "2 \<le> (a :: nat) \<Longrightarrow> a < 32 \<Longrightarrow> (b :: nat) < 64 \<Longrightarrow> rune_length [char_of (192 + a), char_of (128 + b)] = 2"
  by (simp add: rune_length_forms rune1_def rune2_def byte_in_def)

lemma encoded3:
  assumes "(a :: nat) < 16" and "(b :: nat) < 64" and "(c :: nat) < 64" and "a \<noteq> 0 \<or> 32 \<le> b" and "a \<noteq> 13 \<or> b < 32"
  shows "rune_length [char_of (224 + a), char_of (128 + b), char_of (128 + c)] = 3"
proof -
  let ?s = "[char_of (224 + a), char_of (128 + b), char_of (128 + c)] :: string"
  have "a = 0 \<or> (1 \<le> a \<and> a \<le> 12) \<or> a = 13 \<or> (14 \<le> a \<and> a \<le> 15)" using assms(1) by linarith
  then have "rune3 ?s" using assms by (elim disjE) (simp_all add: rune3_def byte_in_def)
  moreover have "\<not> rune1 ?s" "\<not> rune2 ?s" using assms(1) by (simp_all add: rune1_def rune2_def byte_in_def)
  ultimately show ?thesis by (simp add: rune_length_forms)
qed

lemma encoded4:
  assumes "(a :: nat) < 5" and "(b :: nat) < 64" and "(c :: nat) < 64" and "(d :: nat) < 64" and "a \<noteq> 0 \<or> 16 \<le> b" and "a \<noteq> 4 \<or> b < 16"
  shows "rune_length [char_of (240 + a), char_of (128 + b), char_of (128 + c), char_of (128 + d)] = 4"
proof -
  let ?s = "[char_of (240 + a), char_of (128 + b), char_of (128 + c), char_of (128 + d)] :: string"
  have "a = 0 \<or> (1 \<le> a \<and> a \<le> 3) \<or> a = 4" using assms(1) by linarith
  then have "rune4 ?s" using assms by (elim disjE) (simp_all add: rune4_def byte_in_def)
  moreover have "\<not> rune1 ?s" "\<not> rune2 ?s" "\<not> rune3 ?s"
    using assms(1) by (simp_all add: rune1_def rune2_def rune3_def byte_in_def)
  ultimately show ?thesis by (simp add: rune_length_forms)
qed

lemma encode_rune_valid:
  assumes "r < 1114112" and "\<not> is_surrogate r"
  shows "utf8_valid (encode_rune r)"
proof (rule utf8_valid_rune)
  consider "r < 128" | "128 \<le> r" "r < 2048" | "2048 \<le> r" "r < 65536" | "65536 \<le> r" by linarith
  then show "rune_length (encode_rune r) = length (encode_rune r)"
  proof cases
    case 1
    then show ?thesis by (simp add: encode_rune_def rune_length_ascii)
  next
    case 2
    then have "2 \<le> r div 64" "r div 64 < 32" by auto
    with 2 show ?thesis by (simp add: encode_rune_def encoded2)
  next
    case 3
    define q a b where "q = r div 64" and "a = q div 64" and "b = q mod 64"
    have "q = 64 * a + b" "b < 64" by (simp_all add: a_def b_def)
    moreover have "32 \<le> q" "q < 1024" "\<not> (864 \<le> q \<and> q < 896)"
      using 3 assms(2) by (auto simp: is_surrogate_def q_def)
    ultimately have "a < 16" "a \<noteq> 0 \<or> 32 \<le> b" "a \<noteq> 13 \<or> b < 32" by auto
    moreover have "r div 4096 = a" by (simp add: a_def q_def div_mult2_eq [symmetric])
    ultimately have "r div 4096 < 16" "r div 4096 \<noteq> 0 \<or> 32 \<le> r div 64 mod 64" "r div 4096 \<noteq> 13 \<or> r div 64 mod 64 < 32"
      by (simp_all add: b_def q_def)
    with 3 show ?thesis by (simp add: encode_rune_def encoded3)
  next
    case 4
    define q a b where "q = r div 4096" and "a = q div 64" and "b = q mod 64"
    have "q = 64 * a + b" "b < 64" by (simp_all add: a_def b_def)
    moreover have "16 \<le> q" "q < 272" using 4 assms(1) by (auto simp: q_def)
    ultimately have "a < 5" "a \<noteq> 0 \<or> 16 \<le> b" "a \<noteq> 4 \<or> b < 16" by auto
    moreover have "r div 262144 = a" by (simp add: a_def q_def div_mult2_eq [symmetric])
    ultimately have "r div 262144 < 5" "r div 262144 \<noteq> 0 \<or> 16 \<le> r div 4096 mod 64" "r div 262144 \<noteq> 4 \<or> r div 4096 mod 64 < 16"
      by (simp_all add: b_def q_def)
    with 4 show ?thesis by (simp add: encode_rune_def encoded4)
  qed
qed

lemma hex_value_ascii: "hex_value c = Some d \<Longrightarrow> code c < 128 \<and> d < 16"
  by (auto simp: hex_value_def split: if_splits)

lemma getu4_Some:
  assumes "getu4 s = Some r"
  shows "6 \<le> length s \<and> (\<forall>c\<in>set (take 6 s). code c < 128) \<and> r < 65536"
  using assms
  by (cases s rule: getu4.cases) (auto split: if_splits option.splits dest!: hex_value_ascii)

lemma read_escape_valid:
  assumes "read_escape s = Some (out, n)" and "hd s = CHR 0x5C"
  shows "utf8_valid out \<and> (\<forall>c\<in>set (take n s). code c < 128)"
proof (cases "getu4 s")
  case None
  then obtain b e rest c where s: "s = b # e # rest" "simple_escape e = Some c" "out = [c]" "n = 2"
    using assms(1) by (auto simp: read_escape_def split: list.splits)
  then have "code e < 128 \<and> code c < 128" by (auto simp: simple_escape_def split: if_splits)
  with s assms(2) show ?thesis by (auto simp: utf8_valid_rune rune_length_ascii)
next
  case (Some r)
  note u = getu4_Some [OF Some]
  show ?thesis
  proof (cases "n = 6")
    case True
    have "out = encode_rune r \<and> \<not> is_surrogate r \<or> out = encode_rune 65533"
      using assms(1) Some True by (auto simp: read_escape_def split: if_splits option.splits)
    moreover have "\<not> is_surrogate 65533" by (simp add: is_surrogate_def)
    ultimately show ?thesis using encode_rune_valid [of r] encode_rune_valid [of 65533] u True by auto
  next
    case False
    then obtain r1 where r1: "getu4 (drop 6 s) = Some r1" "n = 12" "is_surrogate r" "r < 56320" "56320 \<le> r1" "r1 < 57344"
      "out = encode_rune ((r - 55296) * 1024 + (r1 - 56320) + 65536)"
      using assms(1) Some by (auto simp: read_escape_def split: if_splits option.splits)
    have "(r - 55296) * 1024 + (r1 - 56320) + 65536 < 1114112"
      "\<not> is_surrogate ((r - 55296) * 1024 + (r1 - 56320) + 65536)"
      using r1(3-6) by (auto simp: is_surrogate_def)
    then have "utf8_valid out" using r1(7) encode_rune_valid by blast
    moreover have "take 12 s = take 6 s @ take 6 (drop 6 s)" using take_add [of 6 6 s] by simp
    ultimately show ?thesis using u getu4_Some [OF r1(1)] r1(2) by auto
  qed
qed

section \<open>Strings and tokens\<close>

text \<open>\<open>p\<close> is what was read before: it may end inside a rune.\<close>

lemma read_string_valid:
  "read_string s = Some (v, rest) \<Longrightarrow> utf8_valid (p @ s) \<Longrightarrow> utf8_valid (p @ v) \<and> utf8_valid rest"
proof (induction s arbitrary: p v rest rule: read_string.induct)
  case (1 s)
  show ?case
  proof (cases s)
    case Nil
    then show ?thesis using "1.prems" by (simp add: read_string.simps)
  next
    case (Cons c cs)
    note run = "1.prems"(1) [unfolded read_string.simps [of s], unfolded Cons, simplified]
    show ?thesis
    proof (cases "c = CHR 0x22 \<or> code c < 32")
      case True
      then have "v = []" "rest = cs" "c = CHR 0x22" using run by (auto split: if_splits)
      then show ?thesis using "1.prems"(2) Cons utf8_valid_cut [of p c cs] by simp
    next
      case False
      then have c: "c \<noteq> CHR 0x22" "\<not> code c < 32" by auto
      show ?thesis
      proof (cases "c = CHR 0x5C")
        case True
        then obtain out n v1 where e: "read_escape s = Some (out, n)" "read_string (drop n s) = Some (v1, rest)" "v = out @ v1"
          using run c Cons by (auto split: option.splits)
        have cut: "utf8_valid p" "utf8_valid cs"
          using "1.prems"(2) Cons True utf8_valid_cut [of p c cs] by auto
        have "utf8_valid s" using utf8_valid_append [of "[c]" cs] cut(2) True Cons by (simp add: utf8_valid_rune rune_length_ascii)
        moreover have esc: "utf8_valid out" "\<forall>c\<in>set (take n s). code c < 128"
          using read_escape_valid [OF e(1)] True Cons by auto
        ultimately have "utf8_valid (drop n s)" using utf8_valid_ascii [of "take n s" "drop n s"] by simp
        then have "utf8_valid ([] @ v1) \<and> utf8_valid rest"
          using "1.IH"(1) [OF Cons c True e(1) refl e(2), of "[]"] by simp
        then show ?thesis using cut(1) esc(1) e(3) by (auto intro!: utf8_valid_append)
      next
        case False
        then obtain v1 where v1: "read_string cs = Some (v1, rest)" "v = c # v1" using run c by auto
        from "1.IH"(2) [OF Cons c False v1(1), of "p @ [c]"] "1.prems"(2) Cons v1(2) show ?thesis by simp
      qed
    qed
  qed
qed

lemma peek_valid: "utf8_valid s \<Longrightarrow> utf8_valid (peek s)"
  by (induction s) (auto simp: peek_def json_space_def dest: utf8_valid_tl)

text \<open>Every token of valid bytes leaves valid bytes, and a text is valid itself.\<close>

fun token_valid :: "token_result \<Rightarrow> bool" where
  "token_valid (OpenObject st s) = utf8_valid s"
| "token_valid (CloseObject st s) = utf8_valid s"
| "token_valid (TextToken x st s) = (utf8_valid x \<and> utf8_valid s)"
| "token_valid _ = True"

lemma Token_valid: "utf8_valid s \<Longrightarrow> token_valid (Token st s)"
proof (induction st s rule: Token.induct)
  case (1 st s)
  show ?case
  proof (cases "peek s")
    case Nil
    then show ?thesis by (simp add: Token.simps)
  next
    case (Cons c s1)
    have p: "utf8_valid (c # s1)" using peek_valid [OF "1.prems"] Cons by simp
    have str: "token_valid (case read_string s1 of None \<Rightarrow> TokenError | Some (x, rest1) \<Rightarrow> TextToken x st1 rest1)"
      if "c = CHR 0x22" for st1
      using read_string_valid [of s1 _ _ "[]"] utf8_valid_tl [OF p] that by (auto split: option.splits)
    show ?thesis
      using "1.IH"(1) [OF Cons] "1.IH"(2) [OF Cons] utf8_valid_tl [OF p] str
      unfolding Token.simps [of st s] Cons by auto
  qed
qed

section \<open>Records\<close>

definition valid_access :: "access \<Rightarrow> bool" where
  "valid_access rec \<longleftrightarrow> utf8_valid (BucketName rec) \<and> utf8_valid (ObjectName rec)"

lemma fields_loop_valid:
  "fields_loop st s seen rec = Inr (rec', st', s') \<Longrightarrow> utf8_valid s \<Longrightarrow> valid_access rec \<Longrightarrow> valid_access rec' \<and> utf8_valid s'"
proof (induction st s seen rec arbitrary: rec' rule: fields_loop.induct)
  case (1 st s seen rec)
  show ?case
  proof (cases "More s")
    case False
    then show ?thesis using "1.prems" by (simp add: fields_loop.simps)
  next
    case True
    note run = "1.prems"(1) [unfolded fields_loop.simps [of st s], simplified True]
    obtain field st1 s1 where t1: "Token st s = TextToken field st1 s1" "field \<notin> seen" "field = ''bucket'' \<or> field = ''object''"
      using run by (auto split: token_result.splits if_splits)
    obtain v st2 s2 where t2: "Token st1 s1 = TextToken v st2 s2" "v \<noteq> []"
      using run t1 by (auto split: token_result.splits if_splits)
    let ?rec = "if field = ''bucket'' then rec\<lparr>BucketName := v\<rparr> else rec\<lparr>ObjectName := v\<rparr>"
    have go: "fields_loop st2 s2 (insert field seen) ?rec = Inr (rec', st', s')"
      using run t1 t2 by (auto split: if_splits)
    have "utf8_valid s1" using Token_valid [OF "1.prems"(2), of st] t1(1) by simp
    then have "utf8_valid v" "utf8_valid s2" using Token_valid [of s1 st1] t2(1) by simp_all
    moreover from this(1) "1.prems"(3) have "valid_access ?rec" by (auto simp: valid_access_def)
    moreover have "\<not> (field \<noteq> ''bucket'' \<and> field \<noteq> ''object'')" using t1(3) by blast
    ultimately show ?thesis
      using "1.IH" [of field st1 s1 v st2 s2 rec'] True t1 t2 go by simp
  qed
qed

lemma decodeObject_valid:
  assumes "decodeObject data = Inr rec" and "utf8_valid data"
  shows "valid_access rec"
proof -
  obtain st s where open_obj: "Token TopValue data = OpenObject st s"
    using assms(1) by (cases "Token TopValue data") (auto simp: decodeObject_def)
  then obtain rec1 st1 s1 where loop: "fields_loop st s {} \<lparr>BucketName = [], ObjectName = []\<rparr> = Inr (rec1, st1, s1)"
    and fin: "(case Token st1 s1 of
      CloseObject st2 s2 \<Rightarrow>
        if BucketName rec1 = [] \<or> ObjectName rec1 = [] then Inl ErrInvalidBody
        else if Token st2 s2 \<noteq> EndOfInput then Inl ErrInvalidBody else Inr rec1
    | _ \<Rightarrow> Inl ErrInvalidBody) = Inr rec"
    using assms(1) by (auto simp: decodeObject_def bind_res_Inr_iff)
  have "utf8_valid s" using Token_valid [OF assms(2), of TopValue] open_obj by simp
  then have "valid_access rec1" using fields_loop_valid [OF loop] by (simp add: valid_access_def)
  with fin show ?thesis by (cases "Token st1 s1") (auto split: if_splits)
qed

lemma sep_join_valid: "utf8_valid (sep_join sep parts) \<Longrightarrow> code sep < 128 \<Longrightarrow> part \<in> set parts \<Longrightarrow> utf8_valid part"
proof (induction parts rule: induct_list012)
  case (3 p q parts)
  from utf8_valid_cut [of p sep "sep_join sep (q # parts)"] 3 show ?case by auto
qed auto

lemma TrimSuffix_valid: "utf8_valid s \<Longrightarrow> code c < 128 \<Longrightarrow> utf8_valid (TrimSuffix s c)"
  using utf8_valid_cut [of "butlast s" c "[]"] append_butlast_last_id [of s] by (auto simp: TrimSuffix_def)

lemma decode_line_valid: "decode_line line = Inr rec \<Longrightarrow> utf8_valid line \<Longrightarrow> valid_access rec"
  using decodeObject_valid TrimSuffix_valid [of line "CHR 0x0D"] by (auto simp: decode_line_def Let_def split: if_splits)

lemma decodeNDJSON_valid:
  assumes "decodeNDJSON data n = Inr recs" and "utf8_valid data" and "rec \<in> set recs"
  shows "valid_access rec"
proof -
  let ?lines = "split_on CHR 0x0A data"
  have piece: "utf8_valid line" if "line \<in> set ?lines" for line
    using sep_join_valid [of "CHR 0x0A" ?lines line] assms(2) that by (simp add: split_on_join)
  obtain lines where "traverse decode_line lines = Inr recs" "set lines \<subseteq> set ?lines"
    using assms(1) by (auto simp: decodeNDJSON_def Let_def simp del: split_on_not_Nil split: if_splits dest: in_set_butlastD)
  then show ?thesis using traverse_set [of decode_line lines recs rec] assms(3) decode_line_valid piece by blast
qed

section \<open>Property\<close>

text \<open>C20: Every access a request is decoded to is a well-formed pair of names: whatever bytes arrive, in whatever
  pieces and with whatever escapes, each record the decoder returns has a bucket and an object name, both non-empty and
  both valid UTF-8, lone surrogates included; and a request gives at least one record and at most the configured number.\<close>

theorem decoded_accesses_are_names:
  assumes "DecodeRequest body contentType limits = Inr recs"
  shows "0 < length recs \<and> int (length recs) \<le> MaxRecords limits \<and>
    (\<forall>rec\<in>set recs. BucketName rec \<noteq> [] \<and> ObjectName rec \<noteq> [] \<and>
       utf8_valid (BucketName rec) \<and> utf8_valid (ObjectName rec))"
proof -
  have "valid_access rec" if "rec \<in> set recs" for rec
    using assms that
    by (auto simp: DecodeRequest_def dest: decodeObject_valid decodeNDJSON_valid split: sum.split_asm prod.split_asm if_split_asm)
  then show ?thesis using DecodeRequest_Inr [OF assms] by (auto simp: valid_access_def)
qed

definition surrogate_body :: string where
  "surrogate_body = ''{'' @ [CHR 0x22] @ ''bucket'' @ [CHR 0x22] @ '':'' @ [CHR 0x22] @ ''b'' @ [CHR 0x22] @ '','' @ [CHR 0x22] @
     ''object'' @ [CHR 0x22] @ '':'' @ [CHR 0x22, CHR 0x5C] @ ''ud800'' @ [CHR 0x22] @ ''}''"

theorem decoded_accesses_are_names_witness:
  "\<exists>rec. DecodeRequest [(surrogate_body, False)] ''application/json'' \<lparr>MaxBodyBytes = 1000, MaxRecords = 2\<rparr> = Inr [rec] \<and>
     utf8_valid (ObjectName rec) \<and> ObjectName rec \<noteq> []"
proof -
  have "DecodeRequest [(surrogate_body, False)] ''application/json'' \<lparr>MaxBodyBytes = 1000, MaxRecords = 2\<rparr>
    = Inr [\<lparr>BucketName = ''b'', ObjectName = [CHR 0xEF, CHR 0xBF, CHR 0xBD]\<rparr>]" by code_simp
  from decoded_accesses_are_names [OF this] this show ?thesis by auto
qed

end
