(* ===== verification/Spec2Isabelle.thy ===== *)
theory Spec2Isabelle
  imports Startup Http_Routes Http_Service Concurrent_Use Batcher_Book Updater_Metrics Tierer_Metrics Collectors
    Scanner_Audit Scanner_Order Read_Equivalence Decoder_Print Decoder_Types Evaluator
begin

text \<open>
  \<^bold>\<open>A verification library for cwm-minio-tierer\<close>

  \<^bold>\<open>The program.\<close> Two services share one Redis server. The \<^emph>\<open>updater\<close> (\<^verbatim>\<open>internal/updater\<close>) receives access
  records over HTTP, joins them into batches and adds them to counters in Redis, one per object and
  UTC hour. The \<^emph>\<open>tierer\<close> (\<^verbatim>\<open>internal/tierer\<close>) scans the objects of a MinIO server, reads their counters over
  two windows of hours, decides from a policy whether an object is to be marked for transition, restored
  or renewed, and acts within daily budgets; its position is a cursor in Redis. Both agree on keys, hours
  and expiries (\<^verbatim>\<open>internal/contracts\<close>), and the counters are written by a Lua script (\<^verbatim>\<open>internal/redisstore\<close>).

  \<^bold>\<open>Foundations.\<close>
  \<^item> \<open>Prelude\<close>: Go's 64-bit integers (\<open>wrap64\<close>), results \<open>'e + 'a\<close> with \<open>bind_res\<close> and \<open>traverse\<close>, list lemmas.
  \<^item> \<open>Clock\<close>, \<open>Decimal\<close>, \<open>Base64\<close>: \<^verbatim>\<open>time.Time\<close> as nanoseconds with its fixed layouts, decimal strings with the
    Lua functions \<^verbatim>\<open>valid_uint\<close>, \<^verbatim>\<open>add_uint\<close> and \<^verbatim>\<open>less_or_equal\<close>, unpadded URL-safe base64.
  \<^item> \<open>Go_Text\<close>, \<open>Go_Mime\<close>, \<open>Go_Json\<close>: what the sources call of Go's standard library on text.
  \<^item> \<open>Redis_Server\<close>, \<open>Tierer_Scripts\<close>: the Redis commands the scripts call, as parameters under the contract
    \<open>redis_server\<close> (what \<^verbatim>\<open>GET\<close>, \<^verbatim>\<open>TYPE\<close>, \<^verbatim>\<open>INCRBY\<close> and \<^verbatim>\<open>EXPIREAT\<close> document), with an in-memory server that keeps it; the
    tierer's three scripts over them.

  \<^bold>\<open>The shared contracts.\<close> \<open>Contracts\<close> models \<^verbatim>\<open>contracts.go\<close>: a key names exactly one instance, hour and object;
  a window is its hours; a counter outlives every window it can be read in.

  \<^bold>\<open>The updater.\<close>
  \<^item> \<open>Updater_Config\<close> (\<^verbatim>\<open>config.go\<close>): a loaded configuration bounds the time of an answer without overflow.
  \<^item> \<open>Decoder\<close>, \<open>Decoder_Print\<close>, \<open>Decoder_Types\<close> (\<^verbatim>\<open>decoder.go\<close>): from bytes to accesses, and back from a reference
    printer; every decoded name is not empty and valid UTF-8.
  \<^item> \<open>Counter_Store\<close> (\<^verbatim>\<open>redisstore\<close>): the counter script, all or nothing, and \<open>Apply\<close> with what each error means. The
    locales \<open>counter_store\<close> and \<open>timed_store\<close> are what the batcher relies on, and \<open>redis_server\<close> gives both.
  \<^item> \<open>Batcher\<close>, \<open>Batcher_Run\<close>, \<open>Batcher_Counts\<close> (\<^verbatim>\<open>batcher.go\<close>): the pending batch; callers and goroutine as the step relation
    \<open>batcher_step\<close> with its invariant; the counters after any run against the answers given. \<open>Batcher_Book\<close> is the
    abstract specification, a book of open requests that are each settled once: every step of the batcher is none,
    one or two steps of the book, and requests are counted whole or not at all.
  \<^item> \<open>Ingest\<close> (\<^verbatim>\<open>http.go\<close>): the handlers. \<open>Http_Routes\<close>: the patterns of both services' muxes. \<open>Http_Service\<close>: the
    handlers, the batcher and its store together, as steps in any order, and what a status tells the client of
    the counters.
  \<^item> \<open>Updater_Metrics\<close> (\<^verbatim>\<open>metrics.go\<close>): the collectors as counters, and what they add up to over any requests.
    \<open>Lifecycle\<close> holds \<open>runService\<close> of \<^verbatim>\<open>run.go\<close>.

  \<^bold>\<open>The tierer.\<close>
  \<^item> \<open>Tierer_Config\<close> (\<^verbatim>\<open>config.go\<close>), \<open>Evaluator\<close> (\<^verbatim>\<open>evaluator.go\<close>), \<open>Minio_Adapter\<close> (\<^verbatim>\<open>minio.go\<close>).
  \<^item> \<open>Tierer_Store\<close> (\<^verbatim>\<open>redis.go\<close>) with \<open>Tierer_Usage\<close> (reads, cursor, scope hash) and \<open>Tierer_Budget\<close> (reservations).
  \<^item> \<open>Scanner\<close> (\<^verbatim>\<open>scanner.go\<close>): a scan over the interfaces of the source, with the trace of its calls and
    observations. \<open>Scanner_Safety\<close> says what a trace can hold: every mutation earned by a reading, a verdict and
    a grant. \<open>Scanner_Progress\<close> and \<open>Scanner_Order\<close> say what a scan reaches and where its cursor goes. The
    locales of \<open>Scanner_Laws\<close> (\<open>relation_law\<close>, \<open>chunk_law\<close>, \<open>emit_law\<close>, \<open>bucket_law\<close>, \<open>traversal_law\<close>, \<open>loops_law\<close>,
    \<open>scan_law\<close>, \<open>trace_law\<close>) and \<open>call_law\<close> of \<open>Scanner_Calls\<close> carry a fact from one call or one object through all
    the loops. \<open>Scanner_Audit\<close>: an audit is a dry run of an apply.
  \<^item> \<open>Tierer_Service\<close> (\<^verbatim>\<open>service.go\<close>): the scanner on the MinIO adapter and the Redis store; the budgets of a day
    hold over every run. \<open>Own_Keys\<close>: it writes no key but its own cursors and budgets (locales \<open>framed_server\<close> and
    \<open>wired_scanner\<close>). \<open>Read_Equivalence\<close>: a chunk's read is the reads of its objects. \<open>Lifecycle\<close> holds the two
    service loops and the readiness check.
  \<^item> \<open>Tierer_Metrics\<close> (\<^verbatim>\<open>metrics.go\<close>): the observer's calls as counters over a run. \<open>Collectors\<close>: the names and labels both
    services register.

  \<^bold>\<open>The processes.\<close> \<open>Clients\<close>: the options of the Redis and MinIO clients and of the HTTP servers. \<open>Startup\<close>: \<^verbatim>\<open>main\<close> and \<open>Run\<close>
    of both commands, from the environment to the exit status.

  \<^bold>\<open>Both together.\<close> \<open>Accounting\<close>: what the updater acknowledges is what the tierer reads. \<open>Tiering_Safety\<close>: every mutation
  of a run follows the counters it read; its locale \<open>justified_law\<close> carries the reason of a mutation through the run, for
  any relation between the states of a run. \<open>Concurrent_Use\<close> interprets it on a server both services share, where the
  updater flushes batches between any two commands of the tierer (\<open>shared_commands\<close>, locale \<open>steady_server\<close>): no
  interleaving lets an object be marked whose acknowledged use reaches the threshold.

  \<^bold>\<open>Conventions.\<close> A component's state is a record with the source's fields, prefixed where two components share a
  name; every \<^verbatim>\<open>error\<close> return is an \<open>Inl\<close>, an error constructor stands for one message of the source. Calls to
  parts outside the repository (the MinIO client, the Redis client, SHA-256, the JSON codec of the cursor, the tag
  check, \<^verbatim>\<open>time.Format\<close> with a configured layout, the floating-point part of \<^verbatim>\<open>time.ParseDuration\<close>) are parameters;
  a property that needs something of them states it as a hypothesis, and its witness gives an instance.
  Goroutines are step relations or the lists of what they send; a \<^verbatim>\<open>select\<close> that may take several branches is
  left open, and a timer or the end of a context is a branch that may be taken at any point.

  \<^bold>\<open>Bounds.\<close> Every loop of the sources is a recursion on a list or has a termination proof, except \<open>Run\<close> of the scanner,
  which never ends by itself: its argument counts the scans, so its properties hold for any number of
  them. The coverage check compares 24 * 400 hours, as the source does.

  \<^bold>\<open>Not modelled.\<close> What the logger prints, and error texts; the Prometheus registry and the page it serves (the
  collectors and every call to them are modelled); signals, which end a context that is a parameter; timers, which may fire at any
  point; the wrappers \<open>Client\<close> and \<open>RedisClient\<close>, each method of which is one call of the Redis library. The server's clock
  stands still during a run of the scanner or the batcher: a counter's expiry is compared with it when it is set, and
  \<open>counters_outlive_windows\<close> of \<open>Contracts\<close> shows that no counter expires while it can be read.
\<close>

end
